(* ===== verification/Prelude.thy ===== *)
theory Prelude
  imports
    Main
    "HOL-Library.AList"
    "HOL-Library.List_Lexorder"
    "HOL-Library.Multiset"
begin

text \<open>
  Shared vocabulary of the development. Strings of the JavaScript sources are lists of UTF-16
  code units, so \<open>length\<close>, indexing and the default order of \<^verbatim>\<open>Array.prototype.sort\<close>
  agree with the language. A JavaScript \<^verbatim>\<open>Set\<close> is a list without repetitions in
  insertion order and a \<^verbatim>\<open>Map\<close> an association list in insertion order:
  \<^verbatim>\<open>Map.set\<close> keeps the place of a key that is there already, which is what the
  library's \<open>AList.update\<close> does. \<^verbatim>\<open>Array.prototype.sort\<close> is a stable insertion
  sort over a comparison function; the locale \<open>js_comparator\<close> collects what makes a
  comparison function consistent and proves the sort correct for every such function.
\<close>

named_theorems js_simps

subsection \<open>Strings\<close>

type_synonym jschar = nat

type_synonym jsstring = "jschar list"

datatype jserror = TypeError | JsError jsstring

type_synonym 'a jsresult = "jserror + 'a"

definition js :: "string \<Rightarrow> jsstring" where
  "js s = map of_char s"

definition substring :: "jsstring \<Rightarrow> nat \<Rightarrow> nat \<Rightarrow> jsstring" where
  "substring t s e = (if s \<le> e then take (e - s) (drop s t) else take (s - e) (drop e t))"

definition startsWith :: "'a list \<Rightarrow> 'a list \<Rightarrow> bool" where
  "startsWith e t = (take (length t) e = t)"

fun js_join :: "jsstring \<Rightarrow> jsstring list \<Rightarrow> jsstring" where
  "js_join d [] = []"
| "js_join d [x] = x"
| "js_join d (x # y # xs) = x @ d @ js_join d (y # xs)"

lemma startsWith_iff: "startsWith e t \<longleftrightarrow> (\<exists>u. e = t @ u)"
  by (metis append_eq_conv_conj append_take_drop_id startsWith_def)

lemma startsWith_Nil [simp]: "startsWith e []"
  by (simp add: startsWith_def)

lemma startsWith_refl [simp]: "startsWith e e"
  by (simp add: startsWith_def)

lemma startsWith_append [simp]: "startsWith (t @ u) t"
  by (simp add: startsWith_def)

lemma size_list_snd: "p \<in> set kvs \<Longrightarrow> f (snd p) < size_list (size_prod (\<lambda>_. 0) f) kvs"
  by (rule size_list_estimation [of p]) (simp_all add: size_prod_simp)

lemma set_enumerate_snd: "snd ` set (enumerate n xs) = set xs"
  by (metis list.set_map map_snd_enumerate)

lemma find_append: "find P (xs @ ys) = (case find P xs of None \<Rightarrow> find P ys | Some x \<Rightarrow> Some x)"
  by (induction xs) auto

lemma find_None_notin: "(\<And>x. x \<in> set xs \<Longrightarrow> \<not> P x) \<Longrightarrow> find P xs = None"
  by (auto simp: find_None_iff)

lemma substring_full [simp]: "substring t 0 (length t) = t"
  by (simp add: substring_def)

lemma substring_append:
  "a \<le> b \<Longrightarrow> b \<le> c \<Longrightarrow> substring t a b @ substring t b c = substring t a c"
proof -
  assume ab: "a \<le> b" and bc: "b \<le> c"
  have "take (c - a) (drop a t) = take (b - a) (drop a t) @ take (c - b) (drop (b - a) (drop a t))"
    using ab bc take_add [of "b - a" "c - b" "drop a t"] by simp
  with ab bc show ?thesis
    by (simp add: substring_def)
qed

lemma length_substring [simp]:
  "a \<le> b \<Longrightarrow> b \<le> length t \<Longrightarrow> length (substring t a b) = b - a"
  by (simp add: substring_def)

lemma js_join_Nil_delim: "js_join [] xs = concat xs"
  by (induction "[] :: jsstring" xs rule: js_join.induct) auto

text \<open>
  \<^verbatim>\<open>s.split(/[class]+/)\<close>: the pieces between the maximal runs of separators, an
  empty piece before a leading run and after a trailing one.
\<close>

lemma length_dropWhile_Suc [termination_simp]: "length (dropWhile P xs) < Suc (length xs)"
  by (simp add: less_Suc_eq_le length_dropWhile_le)

fun js_split_runs :: "(jschar \<Rightarrow> bool) \<Rightarrow> jsstring \<Rightarrow> jsstring \<Rightarrow> jsstring list" where
  "js_split_runs sep acc [] = [acc]"
| "js_split_runs sep acc (c # cs) =
     (if sep c then acc # js_split_runs sep [] (dropWhile sep cs)
      else js_split_runs sep (acc @ [c]) cs)"

lemma js_split_runs_no_sep:
  "\<forall>c \<in> set acc. \<not> sep c \<Longrightarrow> w \<in> set (js_split_runs sep acc s) \<Longrightarrow> c \<in> set w \<Longrightarrow> \<not> sep c"
  by (induction sep acc s arbitrary: w rule: js_split_runs.induct) (auto split: if_splits)

lemma concat_js_split_runs:
  "concat (js_split_runs sep acc s) = acc @ filter (\<lambda>c. \<not> sep c) s"
proof (induction sep acc s rule: js_split_runs.induct)
  case (2 sep acc c cs)
  have "filter (\<lambda>c. \<not> sep c) (dropWhile sep cs) = filter (\<lambda>c. \<not> sep c) cs"
    by (induction cs) auto
  with 2 show ?case
    by auto
qed simp

subsection \<open>Sets\<close>

definition set_add :: "'a \<Rightarrow> 'a list \<Rightarrow> 'a list" where
  "set_add x s = (if x \<in> set s then s else s @ [x])"

definition set_delete :: "'a \<Rightarrow> 'a list \<Rightarrow> 'a list" where
  "set_delete x s = filter (\<lambda>y. y \<noteq> x) s"

definition set_add_all :: "'a list \<Rightarrow> 'a list \<Rightarrow> 'a list" where
  "set_add_all s xs = foldl (\<lambda>s x. set_add x s) s xs"

definition set_new :: "'a list \<Rightarrow> 'a list" where
  "set_new xs = set_add_all [] xs"

lemma set_set_add [simp]: "set (set_add x s) = insert x (set s)"
  by (auto simp: set_add_def)

lemma distinct_set_add [simp]: "distinct s \<Longrightarrow> distinct (set_add x s)"
  by (auto simp: set_add_def)

lemma set_add_id [simp]: "x \<in> set s \<Longrightarrow> set_add x s = s"
  by (simp add: set_add_def)

lemma set_set_delete [simp]: "set (set_delete x s) = set s - {x}"
  by (auto simp: set_delete_def)

lemma distinct_set_delete [simp]: "distinct s \<Longrightarrow> distinct (set_delete x s)"
  by (simp add: set_delete_def)

lemma set_delete_id [simp]: "x \<notin> set s \<Longrightarrow> set_delete x s = s"
  unfolding set_delete_def by (rule filter_True) auto

lemma set_delete_add: "x \<notin> set s \<Longrightarrow> set_delete x (set_add x s) = s"
  by (simp add: set_add_def set_delete_def, rule filter_True) auto

lemma set_add_all_Nil [simp]: "set_add_all s [] = s"
  by (simp add: set_add_all_def)

lemma set_add_all_Cons [simp]: "set_add_all s (x # xs) = set_add_all (set_add x s) xs"
  by (simp add: set_add_all_def)

lemma set_set_add_all [simp]: "set (set_add_all s xs) = set s \<union> set xs"
  by (induction xs arbitrary: s) auto

lemma distinct_set_add_all [simp]: "distinct s \<Longrightarrow> distinct (set_add_all s xs)"
  by (induction xs arbitrary: s) auto

lemma set_set_new [simp]: "set (set_new xs) = set xs"
  by (simp add: set_new_def)

lemma distinct_set_new [simp]: "distinct (set_new xs)"
  by (simp add: set_new_def)

lemma set_add_all_distinct: "distinct (s @ xs) \<Longrightarrow> set_add_all s xs = s @ xs"
proof (induction xs arbitrary: s)
  case (Cons x xs)
  then have "set_add x s = s @ [x]"
    by (simp add: set_add_def)
  with Cons.IH [of "s @ [x]"] Cons.prems show ?case
    by simp
qed simp

lemma set_new_distinct [simp]: "distinct xs \<Longrightarrow> set_new xs = xs"
  by (simp add: set_new_def set_add_all_distinct)

subsection \<open>Maps and plain objects\<close>

type_synonym ('k, 'v) jsmap = "('k \<times> 'v) list"

abbreviation map_get :: "('k, 'v) jsmap \<Rightarrow> 'k \<Rightarrow> 'v option" where
  "map_get \<equiv> map_of"

abbreviation map_set :: "'k \<Rightarrow> 'v \<Rightarrow> ('k, 'v) jsmap \<Rightarrow> ('k, 'v) jsmap" where
  "map_set \<equiv> AList.update"

abbreviation map_del :: "'k \<Rightarrow> ('k, 'v) jsmap \<Rightarrow> ('k, 'v) jsmap" where
  "map_del \<equiv> AList.delete"

definition map_keys :: "('k, 'v) jsmap \<Rightarrow> 'k list" where
  "map_keys m = map fst m"

definition wf_map :: "('k, 'v) jsmap \<Rightarrow> bool" where
  "wf_map m = distinct (map fst m)"

lemma map_get_set [simp, js_simps]: "map_get (map_set k v m) k' = (if k' = k then Some v else map_get m k')"
  by (simp add: update_conv)

lemma map_get_del [simp, js_simps]: "map_get (map_del k m) k' = (if k' = k then None else map_get m k')"
  by (simp add: delete_conv')

lemma wf_map_Nil [simp]: "wf_map []"
  by (simp add: wf_map_def)

lemma wf_map_set [simp]: "wf_map m \<Longrightarrow> wf_map (map_set k v m)"
  by (simp add: wf_map_def distinct_update)

lemma wf_map_del [simp]: "wf_map m \<Longrightarrow> wf_map (map_del k m)"
  by (simp add: wf_map_def distinct_delete)

lemma card_dom_map: "wf_map m \<Longrightarrow> card (dom (map_get m)) = length m"
  unfolding wf_map_def dom_map_of_conv_image_fst by (metis distinct_card length_map list.set_map)

lemma map_set_new: "map_get m k = None \<Longrightarrow> map_set k v m = m @ [(k, v)]"
  by (induction m) (auto split: if_splits)

lemma set_map_set: "p \<in> set (map_set k v m) \<Longrightarrow> p = (k, v) \<or> p \<in> set m"
  by (induction m) (auto split: if_splits)

lemma map_del_new: "map_get m k = None \<Longrightarrow> map_del k m = m"
  by (induction m) (auto simp: AList.delete_eq split: if_splits)

lemma map_del_set_new: "map_get m k = None \<Longrightarrow> map_del k (map_set k v m) = m"
  by (induction m) (auto simp: AList.delete_eq split: if_splits)

lemma map_get_zip_distinct:
  "distinct xs \<Longrightarrow> length xs = length ys \<Longrightarrow> i < length xs \<Longrightarrow> map_get (zip xs ys) (xs ! i) = Some (ys ! i)"
  by (metis map_of_zip_nth)

lemma map_get_zip_None: "length xs = length ys \<Longrightarrow> map_get (zip xs ys) k = None \<longleftrightarrow> k \<notin> set xs"
  by (simp add: map_of_zip_is_None)

subsection \<open>Numbers as strings\<close>

text \<open>\<^verbatim>\<open>Number.prototype.toString\<close> of a natural number.\<close>

fun nat_toString :: "nat \<Rightarrow> jsstring" where
  "nat_toString n = (if n < 10 then [48 + n] else nat_toString (n div 10) @ [48 + n mod 10])"

declare nat_toString.simps [simp del]

lemma nat_toString_not_Nil [simp]: "nat_toString n \<noteq> []"
  by (subst nat_toString.simps) simp

lemma nat_toString_inj: "nat_toString m = nat_toString n \<Longrightarrow> m = n"
proof (induction m arbitrary: n rule: nat_toString.induct)
  case (1 m)
  show ?case
  proof (cases "m < 10")
    case True
    with "1.prems" have "nat_toString n = [48 + m]"
      by (simp add: nat_toString.simps [of m])
    then show ?thesis
      by (simp add: nat_toString.simps [of n] split: if_splits)
  next
    case False
    then have m: "nat_toString m = nat_toString (m div 10) @ [48 + m mod 10]"
      by (simp add: nat_toString.simps [of m])
    show ?thesis
    proof (cases "n < 10")
      case True
      with "1.prems" m show ?thesis
        by (simp add: nat_toString.simps [of n])
    next
      case n: False
      then have "nat_toString n = nat_toString (n div 10) @ [48 + n mod 10]"
        by (simp add: nat_toString.simps [of n])
      with "1.prems" m have "nat_toString (m div 10) = nat_toString (n div 10)" "m mod 10 = n mod 10"
        by auto
      with "1.IH" [OF False] show ?thesis
        by (metis div_mult_mod_eq)
    qed
  qed
qed

subsection \<open>Sorting\<close>

fun js_insert :: "('a \<Rightarrow> 'a \<Rightarrow> 'n::{zero,linorder}) \<Rightarrow> 'a \<Rightarrow> 'a list \<Rightarrow> 'a list" where
  "js_insert cmp x [] = [x]"
| "js_insert cmp x (y # ys) = (if cmp x y \<le> 0 then x # y # ys else y # js_insert cmp x ys)"

definition js_sort :: "('a \<Rightarrow> 'a \<Rightarrow> 'n::{zero,linorder}) \<Rightarrow> 'a list \<Rightarrow> 'a list" where
  "js_sort cmp xs = foldr (js_insert cmp) xs []"

lemma js_sort_Nil [simp]: "js_sort cmp [] = []"
  by (simp add: js_sort_def)

lemma js_sort_Cons [simp]: "js_sort cmp (x # xs) = js_insert cmp x (js_sort cmp xs)"
  by (simp add: js_sort_def)

lemma mset_js_insert: "mset (js_insert cmp x xs) = add_mset x (mset xs)"
  by (induction xs) auto

lemma mset_js_sort [simp]: "mset (js_sort cmp xs) = mset xs"
  by (induction xs) (auto simp: mset_js_insert)

lemma set_js_insert [simp]: "set (js_insert cmp x xs) = insert x (set xs)"
  by (induction xs) auto

lemma set_js_sort [simp]: "set (js_sort cmp xs) = set xs"
  by (metis mset_js_sort set_mset_mset)

lemma length_js_sort [simp]: "length (js_sort cmp xs) = length xs"
  by (metis mset_js_sort size_mset)

lemma js_insert_cong:
  "(\<And>y. y \<in> set xs \<Longrightarrow> f x y = g x y) \<Longrightarrow> js_insert f x xs = js_insert g x xs"
  by (induction xs) auto

lemma js_sort_cong: "(\<And>x y. x \<in> set xs \<Longrightarrow> y \<in> set xs \<Longrightarrow> f x y = g x y) \<Longrightarrow> js_sort f xs = js_sort g xs"
proof (induction xs)
  case (Cons x xs)
  have sort: "js_sort f xs = js_sort g xs"
    by (rule Cons.IH, rule Cons.prems) simp_all
  have "js_insert f x (js_sort g xs) = js_insert g x (js_sort g xs)"
    by (rule js_insert_cong, rule Cons.prems) simp_all
  then show ?case
    unfolding js_sort_Cons sort .
qed (simp only: js_sort_Nil)

text \<open>
  A comparison function is consistent when its sign is a total preorder. The sort is then ordered,
  and it is the only ordered rearrangement that keeps the order of elements that compare equal.
\<close>

locale js_comparator =
  fixes cmp :: "'a \<Rightarrow> 'a \<Rightarrow> 'n::{zero,linorder}"
  assumes cmp_total: "cmp x y \<le> 0 \<or> cmp y x \<le> 0"
    and cmp_trans: "cmp x y \<le> 0 \<Longrightarrow> cmp y z \<le> 0 \<Longrightarrow> cmp x z \<le> 0"
begin

lemma sorted_js_insert:
  "sorted_wrt (\<lambda>a b. cmp a b \<le> 0) xs \<Longrightarrow> sorted_wrt (\<lambda>a b. cmp a b \<le> 0) (js_insert cmp x xs)"
proof (induction xs)
  case (Cons y ys)
  show ?case
  proof (cases "cmp x y \<le> 0")
    case True
    with Cons.prems show ?thesis
      by (auto intro: cmp_trans)
  next
    case False
    then have "cmp y x \<le> 0"
      using cmp_total by blast
    with False Cons show ?thesis
      by auto
  qed
qed simp

lemma sorted_js_sort: "sorted_wrt (\<lambda>a b. cmp a b \<le> 0) (js_sort cmp xs)"
  by (induction xs) (auto intro: sorted_js_insert)

lemma stable_js_insert:
  "\<not> P x \<Longrightarrow> filter P (js_insert cmp x xs) = filter P xs"
  by (induction xs) auto

lemma js_insert_least:
  "(\<And>y. y \<in> set xs \<Longrightarrow> cmp x y \<le> 0) \<Longrightarrow> js_insert cmp x xs = x # xs"
  by (cases xs) auto

lemma filter_js_insert:
  assumes "P x" and "\<And>y. y \<in> set xs \<Longrightarrow> P y \<Longrightarrow> cmp x y \<le> 0"
    and "sorted_wrt (\<lambda>a b. cmp a b \<le> 0) xs"
  shows "filter P (js_insert cmp x xs) = x # filter P xs"
  using assms by (induction xs) auto

text \<open>Elements of one class of equal elements keep their order.\<close>

lemma stable_js_sort:
  "filter (\<lambda>y. cmp a y \<le> 0 \<and> cmp y a \<le> 0) (js_sort cmp xs)
   = filter (\<lambda>y. cmp a y \<le> 0 \<and> cmp y a \<le> 0) xs"
proof (induction xs)
  case (Cons x xs)
  let ?P = "\<lambda>y. cmp a y \<le> 0 \<and> cmp y a \<le> 0"
  show ?case
  proof (cases "?P x")
    case True
    then have "filter ?P (js_insert cmp x (js_sort cmp xs)) = x # filter ?P (js_sort cmp xs)"
      by (intro filter_js_insert sorted_js_sort) (auto intro: cmp_trans)
    with True Cons.IH show ?thesis
      by simp
  next
    case False
    have "filter ?P (js_insert cmp x (js_sort cmp xs)) = filter ?P (js_sort cmp xs)"
      using False by (rule stable_js_insert)
    with False Cons.IH show ?thesis
      by simp
  qed
qed simp

end

subsection \<open>Inverted indexes\<close>

text \<open>
  What every per-field index of the search engine promises: adding a document under a key changes
  the documents of that key only, and keeps the invariant.
\<close>

locale doc_index =
  fixes inv :: "'i \<Rightarrow> bool" and ins :: "'k \<Rightarrow> 'd \<Rightarrow> 'i \<Rightarrow> 'i" and docs :: "'i \<Rightarrow> 'k \<Rightarrow> 'd set"
  assumes inv_ins: "inv s \<Longrightarrow> inv (ins k d s)"
    and docs_ins: "inv s \<Longrightarrow> docs (ins k d s) k' = (if k' = k then insert d (docs s k) else docs s k')"
begin

lemma inv_ins_all: "inv s \<Longrightarrow> inv (foldl (\<lambda>s (k, d). ins k d s) s ps)"
  by (induction ps arbitrary: s) (auto intro: inv_ins)

lemma docs_ins_all:
  "inv s \<Longrightarrow> docs (foldl (\<lambda>s (k, d). ins k d s) s ps) k = docs s k \<union> {d. (k, d) \<in> set ps}"
  by (induction ps arbitrary: s) (auto simp: docs_ins inv_ins split: if_splits)

lemma ins_all_order_irrelevant:
  "inv s \<Longrightarrow> set ps = set qs \<Longrightarrow>
   docs (foldl (\<lambda>s (k, d). ins k d s) s ps) = docs (foldl (\<lambda>s (k, d). ins k d s) s qs)"
  by (rule ext) (simp add: docs_ins_all)

end

end
