(* ===== verification/Wordcut_Dict.thy ===== *)
theory Wordcut_Dict
  imports Prelude
begin

text \<open>
  The dictionary of the word segmenter (\<^verbatim>\<open>dict.js\<close> inside
  \<^verbatim>\<open>assets/js/lunr/wordcut.js\<close>). The word list is sorted by code units and an acceptor
  is a window \<open>[l, r]\<close> of it that holds the words starting with what was read so far; a
  step narrows the window by two binary searches. The binary search is proved equal to a linear
  scan, the window is proved to be exactly the words with the prefix read, and an acceptor is final
  exactly on the words of the dictionary.
\<close>

subsection \<open>Acceptor objects\<close>

datatype acceptor_kind =
    WordK
  | NumberK
  | SpaceK
  | SingleSymbolK
  | Rule0K
  | PartK "jsstring list"
  | DictK "jsstring list" int int

record acceptor =
  kind :: acceptor_kind
  strOffset :: nat
  isFinal :: bool
  isError :: bool
  acc_tag :: string
  acc_type :: string
  acc_w :: nat
  acc_unk :: "nat option"
  acc_mw :: "nat option"

subsection \<open>The dictionary object\<close>

datatype side = LEFT | RIGHT

datatype path_arg = PathUndefined | PathString jsstring | PathArray "jsstring list"

definition sortuniq :: "jsstring list \<Rightarrow> jsstring list" where
  "sortuniq a =
     (let arr = sort a
      in map snd (filter (\<lambda>(pos, item). pos = 0 \<or> item \<noteq> arr ! (pos - 1)) (enumerate 0 arr)))"

definition finalizeDict :: "jsstring list \<Rightarrow> jsstring list" where
  "finalizeDict dict = sortuniq dict"

definition addWords :: "jsstring list \<Rightarrow> jsstring list \<Rightarrow> bool option \<Rightarrow> jsstring list" where
  "addWords dict words finalize =
     (let dict' = dict @ words
      in if finalize = None \<or> finalize = Some True then finalizeDict dict' else dict')"

definition is_newline :: "jschar \<Rightarrow> bool" where
  "is_newline c = (c = 13 \<or> c = 10)"

definition addFiles ::
    "jsstring \<Rightarrow> jsstring list \<Rightarrow> jsstring list \<Rightarrow> bool option \<Rightarrow> jsstring list" where
  "addFiles default_text dict files finalize =
     (let words = filter (\<lambda>w. length w > 1) (js_split_runs is_newline [] default_text);
          dict' = addWords dict words (Some False)
      in if finalize = None \<or> finalize = Some True then finalizeDict dict' else dict')"

definition dict_init ::
    "jsstring \<Rightarrow> jsstring \<Rightarrow> path_arg \<Rightarrow> bool \<Rightarrow> jsstring list option \<Rightarrow> jsstring list" where
  "dict_init default_text defaultDict dictPathFile withDefault words =
     (let dictPathIsDefined = (dictPathFile \<noteq> PathUndefined);
          dictPath = (if withDefault \<or> \<not> dictPathIsDefined then [defaultDict] else []);
          dictPath' = (case dictPathFile of
              PathUndefined \<Rightarrow> dictPath
            | PathArray _ \<Rightarrow> dictPath
            | PathString f \<Rightarrow> dictPath @ [if f = [] then defaultDict else f]);
          dict = addFiles default_text [] dictPath' (Some False);
          dict' = (case words of None \<Rightarrow> dict | Some ws \<Rightarrow> addWords dict ws (Some False))
      in finalizeDict dict')"

function dictSeek ::
    "jsstring list \<Rightarrow> int \<Rightarrow> int \<Rightarrow> jschar \<Rightarrow> nat \<Rightarrow> side \<Rightarrow> int option \<Rightarrow> int option jsresult" where
  "dictSeek dict l r ch off pos ans =
     (if l \<le> r then
        let m = (l + r) div 2 in
        if m < 0 \<or> int (length dict) \<le> m then Inl TypeError
        else if length (dict ! nat m) \<le> off then dictSeek dict (m + 1) r ch off pos ans
        else if dict ! nat m ! off < ch then dictSeek dict (m + 1) r ch off pos ans
        else if dict ! nat m ! off > ch then dictSeek dict l (m - 1) ch off pos ans
        else if pos = LEFT then dictSeek dict l (m - 1) ch off pos (Some m)
        else dictSeek dict (m + 1) r ch off pos (Some m)
      else Inr ans)"
  by pat_completeness auto
termination
  by (relation "measure (\<lambda>(dict, l, r, ch, off, pos, ans). nat (r - l + 1))") auto

declare dictSeek.simps [simp del]

definition dict_createAcceptor :: "jsstring list \<Rightarrow> acceptor" where
  "dict_createAcceptor dict =
     \<lparr>kind = DictK dict 0 (int (length dict) - 1), strOffset = 0, isFinal = False, isError = False,
      acc_tag = ''DICT'', acc_type = ''DICT'', acc_w = 1, acc_unk = None, acc_mw = None\<rparr>"

text \<open>
  A search that finds nothing returns \<^verbatim>\<open>null\<close>; stored as the right end of a window it counts as 0
  in the comparisons and sums of later searches.
\<close>

definition dict_transit ::
    "jsstring list \<Rightarrow> int \<Rightarrow> int \<Rightarrow> acceptor \<Rightarrow> jschar \<Rightarrow> acceptor jsresult" where
  "dict_transit dict al ar acceptor ch =
     (case dictSeek dict al ar ch (strOffset acceptor) LEFT None of
        Inl e \<Rightarrow> Inl e
      | Inr None \<Rightarrow> Inr (acceptor\<lparr>isError := True\<rparr>)
      | Inr (Some l) \<Rightarrow>
          (case dictSeek dict l ar ch (strOffset acceptor) RIGHT None of
             Inl e \<Rightarrow> Inl e
           | Inr ro \<Rightarrow>
               let r = (case ro of None \<Rightarrow> 0 | Some r \<Rightarrow> r);
                   off = strOffset acceptor + 1
               in if l < 0 \<or> int (length dict) \<le> l then Inl TypeError
                  else Inr (acceptor\<lparr>kind := DictK dict l r, strOffset := off,
                             isFinal := (length (dict ! nat l) = off)\<rparr>)))"

subsection \<open>Sorting the word list\<close>

lemma filter_enumerate_remdups_adj:
  "map snd (filter (\<lambda>(pos, item). pos = n \<or> item \<noteq> arr ! (pos - 1 - n)) (enumerate n arr)) = remdups_adj arr"
proof (induction arr arbitrary: n rule: remdups_adj.induct)
  case (3 x y xs)
  have *: "filter (\<lambda>(pos, item). pos = n \<or> item \<noteq> (x # y # xs) ! (pos - 1 - n)) (enumerate (Suc (Suc n)) xs)
    = filter (\<lambda>(pos, item). pos = Suc n \<or> item \<noteq> (y # xs) ! (pos - 1 - Suc n)) (enumerate (Suc (Suc n)) xs)"
  proof (rule filter_cong [OF refl])
    fix p assume mem: "p \<in> set (enumerate (Suc (Suc n)) xs)"
    obtain i v where p: "p = (i, v)"
      by (rule prod.exhaust)
    with mem have i: "Suc (Suc n) \<le> i"
      by (simp add: in_set_enumerate_eq)
    then have "i - 1 - n = Suc (i - 1 - Suc n)"
      by simp
    with p i show "(case p of (pos, item) \<Rightarrow> pos = n \<or> item \<noteq> (x # y # xs) ! (pos - 1 - n))
      = (case p of (pos, item) \<Rightarrow> pos = Suc n \<or> item \<noteq> (y # xs) ! (pos - 1 - Suc n))"
      by simp
  qed
  show ?case
  proof (cases "x = y")
    case True
    with 3(1) [OF True, of "Suc n"] * show ?thesis
      by simp
  next
    case False
    with 3(2) [OF False, of "Suc n"] * show ?thesis
      by simp
  qed
qed simp_all

lemma sortuniq_remdups_adj: "sortuniq a = remdups_adj (sort a)"
  using filter_enumerate_remdups_adj [of 0 "sort a"] by (simp add: sortuniq_def Let_def)

lemma remdups_adj_distinct_sorted: "sorted xs \<Longrightarrow> distinct (remdups_adj xs)"
  by (induction xs rule: remdups_adj.induct) (auto dest: order.antisym)

lemma sorted_sortuniq: "sorted (sortuniq a)"
  by (simp add: sortuniq_remdups_adj)

lemma distinct_sortuniq: "distinct (sortuniq a)"
  by (simp add: sortuniq_remdups_adj remdups_adj_distinct_sorted)

lemma set_sortuniq [simp]: "set (sortuniq a) = set a"
  by (simp add: sortuniq_remdups_adj)

subsection \<open>Binary search\<close>

text \<open>How the word at an index compares with the character sought at the offset.\<close>

definition seek_cls :: "jsstring list \<Rightarrow> jschar \<Rightarrow> nat \<Rightarrow> int \<Rightarrow> int" where
  "seek_cls dict ch off m =
     (if length (dict ! nat m) \<le> off then - 1
      else if dict ! nat m ! off < ch then - 1
      else if dict ! nat m ! off > ch then 1 else 0)"

text \<open>The linear scan that the binary search replaces.\<close>

definition scan :: "jsstring list \<Rightarrow> int \<Rightarrow> int \<Rightarrow> jschar \<Rightarrow> nat \<Rightarrow> side \<Rightarrow> int option" where
  "scan dict l r ch off pos =
     find (\<lambda>m. seek_cls dict ch off m = 0) (if pos = LEFT then [l..r] else rev [l..r])"

definition seek_mono :: "jsstring list \<Rightarrow> int \<Rightarrow> int \<Rightarrow> jschar \<Rightarrow> nat \<Rightarrow> bool" where
  "seek_mono dict l r ch off =
     (\<forall>i j. l \<le> i \<longrightarrow> i \<le> j \<longrightarrow> j \<le> r \<longrightarrow> seek_cls dict ch off i \<le> seek_cls dict ch off j)"

lemma seek_mono_sub:
  "seek_mono dict l r ch off \<Longrightarrow> l \<le> l' \<Longrightarrow> r' \<le> r \<Longrightarrow> seek_mono dict l' r' ch off"
  by (auto simp: seek_mono_def)

lemma upto_at: "l \<le> m \<Longrightarrow> m \<le> r \<Longrightarrow> [l..r] = [l..m - 1] @ m # [m + 1..r]"
  for l m r :: int
  using upto_split3 by blast

lemma scan_right_half:
  assumes m: "l \<le> m" "m \<le> r" and mono: "seek_mono dict l r ch off"
    and lt: "seek_cls dict ch off m < 0"
  shows "scan dict l r ch off pos = scan dict (m + 1) r ch off pos"
proof -
  let ?P = "\<lambda>m. seek_cls dict ch off m = 0"
  have neq: "\<not> ?P i" if "l \<le> i" "i \<le> m" for i
  proof -
    have "seek_cls dict ch off i \<le> seek_cls dict ch off m"
      using mono that m unfolding seek_mono_def by blast
    with lt show ?thesis
      by simp
  qed
  have "find ?P ([l..m - 1] @ [m]) = None" "find ?P (rev ([l..m - 1] @ [m])) = None"
    using neq m by (intro find_None_notin; auto)+
  then show ?thesis
    using upto_at [OF m] by (auto simp: scan_def find_append split: option.splits if_splits)
qed

lemma scan_left_half:
  assumes m: "l \<le> m" "m \<le> r" and mono: "seek_mono dict l r ch off"
    and gt: "0 < seek_cls dict ch off m"
  shows "scan dict l r ch off pos = scan dict l (m - 1) ch off pos"
proof -
  let ?P = "\<lambda>m. seek_cls dict ch off m = 0"
  have neq: "\<not> ?P i" if "m \<le> i" "i \<le> r" for i
  proof -
    have "seek_cls dict ch off m \<le> seek_cls dict ch off i"
      using mono that m unfolding seek_mono_def by blast
    with gt show ?thesis
      by simp
  qed
  have "find ?P (m # [m + 1..r]) = None" "find ?P (rev (m # [m + 1..r])) = None"
    using neq m by (intro find_None_notin; auto)+
  then show ?thesis
    using upto_at [OF m] by (auto simp: scan_def find_append split: option.splits if_splits)
qed

lemma scan_empty [simp]: "r < l \<Longrightarrow> scan dict l r ch off pos = None"
  by (simp add: scan_def)

lemma scan_hit_left:
  "l \<le> m \<Longrightarrow> m \<le> r \<Longrightarrow> seek_cls dict ch off m = 0 \<Longrightarrow>
   scan dict l r ch off LEFT =
     (case scan dict l (m - 1) ch off LEFT of None \<Rightarrow> Some m | Some k \<Rightarrow> Some k)"
  by (simp add: scan_def upto_at find_append split: option.splits)

lemma scan_hit_right:
  "l \<le> m \<Longrightarrow> m \<le> r \<Longrightarrow> seek_cls dict ch off m = 0 \<Longrightarrow>
   scan dict l r ch off RIGHT =
     (case scan dict (m + 1) r ch off RIGHT of None \<Rightarrow> Some m | Some k \<Rightarrow> Some k)"
  by (simp add: scan_def upto_at find_append split: option.splits)

lemma dictSeek_scan:
  assumes "0 \<le> l" "r < int (length dict)" "seek_mono dict l r ch off"
  shows "dictSeek dict l r ch off pos ans =
    Inr (case scan dict l r ch off pos of None \<Rightarrow> ans | Some m \<Rightarrow> Some m)"
  using assms
proof (induction dict l r ch off pos ans rule: dictSeek.induct)
  case (1 dict l r ch off pos ans)
  define m where "m = (l + r) div 2"
  show ?case
  proof (cases "l \<le> r")
    case True
    then have m: "l \<le> m" "m \<le> r" "0 \<le> m" "m < int (length dict)"
      using "1.prems" by (auto simp: m_def)
    have lo: "seek_mono dict l (m - 1) ch off" and hi: "seek_mono dict (m + 1) r ch off"
      using "1.prems"(3) m by (auto elim: seek_mono_sub)
    note IH = "1.IH" [OF True m_def]
    note unf = dictSeek.simps [of dict l r ch off pos ans, folded m_def]
    consider (lt) "seek_cls dict ch off m < 0" | (gt) "0 < seek_cls dict ch off m"
      | (eq) "seek_cls dict ch off m = 0"
      by linarith
    then show ?thesis
    proof cases
      case lt
      then have step: "dictSeek dict l r ch off pos ans = dictSeek dict (m + 1) r ch off pos ans"
        using True m by (auto simp: unf Let_def m_def [symmetric] seek_cls_def split: if_splits)
      have "dictSeek dict (m + 1) r ch off pos ans =
          Inr (case scan dict (m + 1) r ch off pos of None \<Rightarrow> ans | Some m \<Rightarrow> Some m)"
        using lt m hi "1.prems"(2) IH(1,2)
        by (cases "length (dict ! nat m) \<le> off") (auto simp: seek_cls_def split: if_splits)
      with step scan_right_half [OF m(1,2) "1.prems"(3) lt] show ?thesis
        by simp
    next
      case gt
      then have step: "dictSeek dict l r ch off pos ans = dictSeek dict l (m - 1) ch off pos ans"
        using True m by (auto simp: unf Let_def m_def [symmetric] seek_cls_def split: if_splits)
      have "dictSeek dict l (m - 1) ch off pos ans =
          Inr (case scan dict l (m - 1) ch off pos of None \<Rightarrow> ans | Some m \<Rightarrow> Some m)"
        using gt m lo "1.prems"(1,2) IH(3) by (auto simp: seek_cls_def split: if_splits)
      with step scan_left_half [OF m(1,2) "1.prems"(3) gt] show ?thesis
        by simp
    next
      case eq
      then have hit: "\<not> length (dict ! nat m) \<le> off" "dict ! nat m ! off = ch"
        by (auto simp: seek_cls_def split: if_splits)
      show ?thesis
      proof (cases pos)
        case LEFT
        have "dictSeek dict l (m - 1) ch off LEFT (Some m) =
            Inr (case scan dict l (m - 1) ch off LEFT of None \<Rightarrow> Some m | Some k \<Rightarrow> Some k)"
          using hit m lo "1.prems"(1,2) IH(4) LEFT by simp
        moreover have "dictSeek dict l r ch off pos ans = dictSeek dict l (m - 1) ch off LEFT (Some m)"
          using True m hit LEFT
          by (simp add: dictSeek.simps [of dict l r ch off LEFT ans] Let_def m_def [symmetric])
        ultimately show ?thesis
          using LEFT scan_hit_left [OF m(1,2) eq] by (simp split: option.splits)
      next
        case RIGHT
        have "dictSeek dict (m + 1) r ch off RIGHT (Some m) =
            Inr (case scan dict (m + 1) r ch off RIGHT of None \<Rightarrow> Some m | Some k \<Rightarrow> Some k)"
          using hit m hi "1.prems"(2) IH(5) RIGHT by simp
        moreover have "dictSeek dict l r ch off pos ans = dictSeek dict (m + 1) r ch off RIGHT (Some m)"
          using True m hit RIGHT
          by (simp add: dictSeek.simps [of dict l r ch off RIGHT ans] Let_def m_def [symmetric])
        ultimately show ?thesis
          using RIGHT scan_hit_right [OF m(1,2) eq] by (simp split: option.splits)
      qed
    qed
  next
    case False
    then show ?thesis
      by (simp add: dictSeek.simps)
  qed
qed

text \<open>Whatever the order of the words, a search inside the list returns an index of its window.\<close>

definition in_window :: "int \<Rightarrow> int \<Rightarrow> int option \<Rightarrow> int option jsresult \<Rightarrow> bool" where
  "in_window l r ans res = (\<exists>x. res = Inr x \<and> (x = ans \<or> (\<exists>m. x = Some m \<and> l \<le> m \<and> m \<le> r)))"

lemma in_window_widen:
  "in_window l' r' ans' res \<Longrightarrow> l \<le> l' \<Longrightarrow> r' \<le> r \<Longrightarrow>
   ans' = ans \<or> (\<exists>m. ans' = Some m \<and> l \<le> m \<and> m \<le> r) \<Longrightarrow> in_window l r ans res"
  by (fastforce simp: in_window_def)

lemma dictSeek_bounds:
  "0 \<le> l \<Longrightarrow> r < int (length dict) \<Longrightarrow> in_window l r ans (dictSeek dict l r ch off pos ans)"
proof (induction dict l r ch off pos ans rule: dictSeek.induct)
  case (1 dict l r ch off pos ans)
  define m where "m = (l + r) div 2"
  note unf = dictSeek.simps [of dict l r ch off pos ans, unfolded Let_def, folded m_def]
  show ?case
  proof (cases "l \<le> r")
    case True
    then have m: "l \<le> m" "m \<le> r" "0 \<le> m" "m < int (length dict)"
      using "1.prems" by (auto simp: m_def)
    note IH = "1.IH" [OF True m_def]
    have r: "\<not> (m < 0 \<or> int (length dict) \<le> m)" and b: "0 \<le> m + 1" "m - 1 < int (length dict)"
      using m by auto
    let ?w = "dict ! nat m"
    consider "length ?w \<le> off" | "\<not> length ?w \<le> off" "?w ! off < ch"
      | "\<not> length ?w \<le> off" "?w ! off > ch"
      | "\<not> length ?w \<le> off" "\<not> ?w ! off < ch" "\<not> ?w ! off > ch" "pos = LEFT"
      | "\<not> length ?w \<le> off" "\<not> ?w ! off < ch" "\<not> ?w ! off > ch" "pos \<noteq> LEFT"
      by linarith
    then show ?thesis
    proof cases
      case 1
      then show ?thesis
        using IH(1) [OF r 1 b(1) "1.prems"(2)] True r m by (simp add: unf in_window_widen)
    next
      case 2
      then show ?thesis
        using IH(2) [OF r 2 b(1) "1.prems"(2)] True r m by (simp add: unf in_window_widen)
    next
      case 3
      then have "\<not> ?w ! off < ch" by simp
      then show ?thesis
        using IH(3) [OF r 3(1) _ 3(2) "1.prems"(1) b(2)] 3 True r m by (simp add: unf in_window_widen)
    next
      case 4
      then show ?thesis
        using IH(4) [OF r 4 "1.prems"(1) b(2)] True r m unfolding unf by (simp add: in_window_widen)
    next
      case 5
      then show ?thesis
        using IH(5) [OF r 5 b(1) "1.prems"(2)] True r m by (simp add: unf in_window_widen)
    qed
  next
    case False
    then show ?thesis
      by (simp add: unf in_window_def)
  qed
qed

subsection \<open>Windows of the dictionary\<close>

definition dict_window :: "jsstring list \<Rightarrow> jsstring \<Rightarrow> int \<Rightarrow> int \<Rightarrow> bool" where
  "dict_window dict p l r \<longleftrightarrow>
     0 \<le> l \<and> r < int (length dict) \<and>
     (\<forall>i. 0 \<le> i \<longrightarrow> i < int (length dict) \<longrightarrow> (l \<le> i \<and> i \<le> r \<longleftrightarrow> startsWith (dict ! nat i) p))"

lemma dict_windowD:
  assumes "dict_window dict p l r" "l \<le> i" "i \<le> r"
  shows "0 \<le> i \<and> i < int (length dict) \<and> startsWith (dict ! nat i) p"
proof -
  have "0 \<le> i" "i < int (length dict)"
    using assms by (auto simp: dict_window_def)
  with assms show ?thesis
    unfolding dict_window_def by blast
qed

lemma dict_window_index:
  assumes "dict_window dict p l r" "k < length dict" "startsWith (dict ! k) p"
  shows "l \<le> int k" "int k \<le> r"
proof -
  have "0 \<le> int k" "int k < int (length dict)" "startsWith (dict ! nat (int k)) p"
    using assms by auto
  with assms(1) show "l \<le> int k" "int k \<le> r"
    unfolding dict_window_def by blast+
qed

lemma dict_window_all: "dict_window dict [] 0 (int (length dict) - 1)"
  by (auto simp: dict_window_def)

lemma append_le_cancel: "p @ u \<le> p @ v \<longleftrightarrow> u \<le> v"
  for p :: "'a::linorder list"
  by (induction p) auto

lemma seek_cls_append:
  "dict ! nat m = p @ u \<Longrightarrow> seek_cls dict ch (length p) m =
     (case u of [] \<Rightarrow> - 1 | c # _ \<Rightarrow> if c < ch then - 1 else if c > ch then 1 else 0)"
  by (auto simp: seek_cls_def split: list.splits)

lemma seek_cls_hit:
  "startsWith (dict ! nat m) p \<Longrightarrow>
   seek_cls dict ch (length p) m = 0 \<longleftrightarrow> startsWith (dict ! nat m) (p @ [ch])"
  by (auto simp: startsWith_iff seek_cls_append split: list.splits if_splits)

lemma window_mono:
  assumes "sorted dict" and w: "dict_window dict p l r"
  shows "seek_mono dict l r ch (length p)"
  unfolding seek_mono_def
proof (intro allI impI)
  fix i j assume ij: "l \<le> i" "i \<le> j" "j \<le> r"
  obtain u v where u: "dict ! nat i = p @ u" and v: "dict ! nat j = p @ v"
    using dict_windowD [OF w, of i] dict_windowD [OF w, of j] ij by (auto simp: startsWith_iff)
  have "nat i \<le> nat j" "nat j < length dict"
    using ij dict_windowD [OF w, of j] by auto
  then have "dict ! nat i \<le> dict ! nat j"
    using \<open>sorted dict\<close> by (simp add: sorted_nth_mono)
  then have "u \<le> v"
    using u v by (simp add: append_le_cancel)
  then show "seek_cls dict ch (length p) i \<le> seek_cls dict ch (length p) j"
    by (cases u; cases v) (auto simp: seek_cls_append [OF u] seek_cls_append [OF v])
qed

lemma scan_LEFT_Some:
  assumes "scan dict l r ch off LEFT = Some m"
  shows "l \<le> m" "m \<le> r" "seek_cls dict ch off m = 0"
    "\<And>k. l \<le> k \<Longrightarrow> k < m \<Longrightarrow> seek_cls dict ch off k \<noteq> 0"
proof -
  obtain i where i: "i < length [l..r]" "seek_cls dict ch off ([l..r] ! i) = 0" "m = [l..r] ! i"
    and below: "\<And>j. j < i \<Longrightarrow> seek_cls dict ch off ([l..r] ! j) \<noteq> 0"
    using assms by (auto simp: scan_def find_Some_iff)
  then have m: "m = l + int i"
    by (simp add: nth_upto)
  show "l \<le> m" "m \<le> r" "seek_cls dict ch off m = 0"
    using i m by auto
  fix k assume k: "l \<le> k" "k < m"
  with m i have "nat (k - l) < i" "[l..r] ! nat (k - l) = k"
    by (auto simp: nth_upto)
  with below show "seek_cls dict ch off k \<noteq> 0"
    by metis
qed

lemma scan_RIGHT_Some:
  assumes "scan dict l r ch off RIGHT = Some m"
  shows "l \<le> m" "m \<le> r" "seek_cls dict ch off m = 0"
    "\<And>k. m < k \<Longrightarrow> k \<le> r \<Longrightarrow> seek_cls dict ch off k \<noteq> 0"
proof -
  obtain i where i: "i < length [l..r]" "seek_cls dict ch off (rev [l..r] ! i) = 0" "m = rev [l..r] ! i"
    and below: "\<And>j. j < i \<Longrightarrow> seek_cls dict ch off (rev [l..r] ! j) \<noteq> 0"
    using assms by (auto simp: scan_def find_Some_iff)
  have at: "rev [l..r] ! j = r - int j" if "j < length [l..r]" for j
    using that by (simp add: rev_nth nth_upto)
  then have m: "m = r - int i"
    using i by simp
  show "l \<le> m" "m \<le> r" "seek_cls dict ch off m = 0"
    using i m by auto
  fix k assume k: "m < k" "k \<le> r"
  with m i have lt: "nat (r - k) < i"
    by auto
  moreover from lt i k have "rev [l..r] ! nat (r - k) = k"
    using at [of "nat (r - k)"] by (auto simp del: length_upto)
  ultimately show "seek_cls dict ch off k \<noteq> 0"
    using below by metis
qed

lemma scan_None: "scan dict l r ch off pos = None \<Longrightarrow> l \<le> k \<Longrightarrow> k \<le> r \<Longrightarrow> seek_cls dict ch off k \<noteq> 0"
  by (auto simp: scan_def find_None_iff split: if_splits)

text \<open>A step of the dictionary acceptor narrows the window to the longer prefix.\<close>

lemma window_narrow:
  assumes w: "dict_window dict p l r" and mono: "seek_mono dict l r ch (length p)"
    and lm: "scan dict l r ch (length p) LEFT = Some lm"
    and rm: "scan dict lm r ch (length p) RIGHT = Some rm"
  shows "dict_window dict (p @ [ch]) lm rm"
  unfolding dict_window_def
proof (intro conjI allI impI)
  note L = scan_LEFT_Some [OF lm] and R = scan_RIGHT_Some [OF rm]
  show "0 \<le> lm" "rm < int (length dict)"
    using dict_windowD [OF w, of lm] dict_windowD [OF w, of rm] L(1,2) R(1,2) by auto
  fix i assume i: "0 \<le> i" "i < int (length dict)"
  show "(lm \<le> i \<and> i \<le> rm) = startsWith (dict ! nat i) (p @ [ch])"
  proof
    assume b: "lm \<le> i \<and> i \<le> rm"
    then have lr: "l \<le> i" "i \<le> r"
      using L R by auto
    then have "seek_cls dict ch (length p) lm \<le> seek_cls dict ch (length p) i"
      "seek_cls dict ch (length p) i \<le> seek_cls dict ch (length p) rm"
      using mono b L(1,2) R(1,2) unfolding seek_mono_def by (meson order.trans)+
    with L(3) R(3) have "seek_cls dict ch (length p) i = 0"
      by simp
    then show "startsWith (dict ! nat i) (p @ [ch])"
      using seek_cls_hit dict_windowD [OF w lr] by blast
  next
    assume sw: "startsWith (dict ! nat i) (p @ [ch])"
    then have p: "startsWith (dict ! nat i) p"
      by (auto simp: startsWith_iff)
    then have lr: "l \<le> i" "i \<le> r"
      using w i unfolding dict_window_def by blast+
    have z: "seek_cls dict ch (length p) i = 0"
      using seek_cls_hit [OF p] sw by blast
    have "lm \<le> i"
      using L(4) [OF lr(1)] z by (meson not_le)
    moreover have "i \<le> rm"
      using R(4) [OF _ lr(2)] z by (meson not_le)
    ultimately show "lm \<le> i \<and> i \<le> rm" ..
  qed
qed

lemma window_first_final:
  assumes "sorted dict" and w: "dict_window dict q l r" and "l \<le> r"
  shows "length (dict ! nat l) = length q \<longleftrightarrow> q \<in> set dict"
proof
  assume len: "length (dict ! nat l) = length q"
  have l: "0 \<le> l" "l < int (length dict)" "startsWith (dict ! nat l) q"
    using dict_windowD [OF w, of l] \<open>l \<le> r\<close> by auto
  with len have "dict ! nat l = q"
    by (auto simp: startsWith_iff)
  with l show "q \<in> set dict"
    by (metis nth_mem nat_less_iff)
next
  assume "q \<in> set dict"
  then obtain k where k: "k < length dict" "dict ! k = q"
    by (auto simp: in_set_conv_nth)
  then have "l \<le> int k"
    using dict_window_index [OF w k(1)] by simp
  moreover have l: "0 \<le> l" "startsWith (dict ! nat l) q"
    using dict_windowD [OF w, of l] \<open>l \<le> r\<close> by auto
  ultimately have "dict ! nat l \<le> q"
    using sorted_nth_mono [OF \<open>sorted dict\<close>, of "nat l" k] k by auto
  moreover obtain u where u: "dict ! nat l = q @ u"
    using l by (auto simp: startsWith_iff)
  ultimately have "u = []"
    using append_le_cancel [of q u "[]"] by (cases u) auto
  with u show "length (dict ! nat l) = length q"
    by simp
qed

lemma dict_transit_window:
  assumes "sorted dict" and w: "dict_window dict p l r" and off: "strOffset a = length p"
  shows "if \<exists>x \<in> set dict. startsWith x (p @ [ch])
    then \<exists>l' r'. dict_transit dict l r a ch =
        Inr (a\<lparr>kind := DictK dict l' r', strOffset := Suc (length p), isFinal := (p @ [ch] \<in> set dict)\<rparr>)
      \<and> dict_window dict (p @ [ch]) l' r' \<and> l' \<le> r'
    else dict_transit dict l r a ch = Inr (a\<lparr>isError := True\<rparr>)"
proof -
  have lr: "0 \<le> l" "r < int (length dict)"
    using w by (auto simp: dict_window_def)
  have mono: "seek_mono dict l r ch (length p)"
    by (rule window_mono [OF assms(1) w])
  have seek1: "dictSeek dict l r ch (length p) LEFT None = Inr (scan dict l r ch (length p) LEFT)"
    by (simp add: dictSeek_scan [OF lr mono] option.case_eq_if)
  show ?thesis
  proof (cases "scan dict l r ch (length p) LEFT")
    case None
    have "\<not> startsWith x (p @ [ch])" if x: "x \<in> set dict" for x
    proof
      assume sw: "startsWith x (p @ [ch])"
      obtain k where k: "k < length dict" "dict ! k = x"
        using x by (auto simp: in_set_conv_nth)
      have p: "startsWith (dict ! nat (int k)) p"
        using sw k by (auto simp: startsWith_iff)
      then show False
        using scan_None [OF None] dict_window_index [OF w k(1)] seek_cls_hit [OF p] sw k by auto
    qed
    then show ?thesis
      using None seek1 by (auto simp: dict_transit_def off)
  next
    case (Some lm)
    note L = scan_LEFT_Some [OF Some]
    have mono': "seek_mono dict lm r ch (length p)"
      using mono L(1) by (auto elim: seek_mono_sub)
    have "scan dict lm r ch (length p) RIGHT \<noteq> None"
      using scan_None [of dict lm r ch "length p" RIGHT lm] L by auto
    then obtain rm where rm: "scan dict lm r ch (length p) RIGHT = Some rm"
      by auto
    have seek2: "dictSeek dict lm r ch (length p) RIGHT None = Inr (Some rm)"
      using dictSeek_scan [of lm r dict ch "length p" RIGHT None] mono' lr L rm by simp
    have win: "dict_window dict (p @ [ch]) lm rm"
      by (rule window_narrow [OF w mono Some rm])
    have le: "lm \<le> rm"
      by (rule scan_RIGHT_Some(1) [OF rm])
    have lm: "0 \<le> lm" "lm < int (length dict)" "startsWith (dict ! nat lm) (p @ [ch])"
      using dict_windowD [OF win, of lm] le by auto
    have fin: "(length (dict ! nat lm) = Suc (length p)) = (p @ [ch] \<in> set dict)"
      using window_first_final [OF assms(1) win le] by simp
    have "\<exists>x \<in> set dict. startsWith x (p @ [ch])"
      using lm by (metis nth_mem nat_less_iff)
    moreover have "dict_transit dict l r a ch =
        Inr (a\<lparr>kind := DictK dict lm rm, strOffset := Suc (length p), isFinal := (p @ [ch] \<in> set dict)\<rparr>)"
      using Some seek1 seek2 lm fin by (auto simp: dict_transit_def off Let_def)
    ultimately show ?thesis
      using win le by auto
  qed
qed

end
