(* ===== verification/Wordcut_Acceptors.thy ===== *)
theory Wordcut_Acceptors
  imports Wordcut_Dict
begin

text \<open>
  The acceptors of the word segmenter: the rule objects for Latin words, numbers, spaces and
  symbols (\<^verbatim>\<open>latin_rules.js\<close>), the two Thai rules (\<^verbatim>\<open>thai_rules.js\<close>), the
  dictionary, and the object that runs them side by side over a text (\<^verbatim>\<open>acceptors.js\<close>),
  all inside \<^verbatim>\<open>assets/js/lunr/wordcut.js\<close>. The locale \<open>acceptor_contract\<close> is what the
  runner needs of every acceptor; it is interpreted on the rules and the dictionary together.
\<close>

subsection \<open>Latin rules\<close>

text \<open>
  \<^verbatim>\<open>toLowerCase\<close> of one code unit, exact on the units whose lower case starts with an ASCII
  letter: the capitals, the dotted capital I and the Kelvin sign. The lower case of every other
  unit starts with a unit that compares with the Latin letters as the unit itself does.
\<close>

definition toLowerCase :: "jschar \<Rightarrow> jsstring" where
  "toLowerCase ch =
     (if 65 \<le> ch \<and> ch \<le> 90 then [ch + 32]
      else if ch = 0x130 then [0x69, 0x307]
      else if ch = 0x212A then [0x6B]
      else [ch])"

definition word_char :: "jschar \<Rightarrow> bool" where
  "word_char ch = (let lch = toLowerCase ch in js ''a'' \<le> lch \<and> lch \<le> js ''z'')"

definition number_char :: "jschar \<Rightarrow> bool" where
  "number_char ch = (48 \<le> ch \<and> ch \<le> 57)"

definition space_char :: "jschar \<Rightarrow> bool" where
  "space_char ch = (ch = 32 \<or> ch = 9 \<or> ch = 13 \<or> ch = 10 \<or> ch = 0xA0 \<or> ch = 0x2003)"

definition symbol_char :: "jschar \<Rightarrow> bool" where
  "symbol_char ch = (ch \<in> set (js ''@()/,-.'') \<or> ch = 34 \<or> ch = 96)"

definition new_acceptor :: "acceptor_kind \<Rightarrow> string \<Rightarrow> nat option \<Rightarrow> acceptor" where
  "new_acceptor k t u =
     \<lparr>kind = k, strOffset = 0, isFinal = False, isError = False, acc_tag = t, acc_type = t,
      acc_w = 1, acc_unk = u, acc_mw = None\<rparr>"

definition accept_char :: "acceptor \<Rightarrow> acceptor" where
  "accept_char a = a\<lparr>isFinal := True, strOffset := strOffset a + 1\<rparr>"

definition WordRule_createAcceptor :: "(string, acceptor) jsmap \<Rightarrow> acceptor option" where
  "WordRule_createAcceptor tag =
     (if map_get tag ''WORD_RULE'' \<noteq> None then None
      else Some (new_acceptor WordK ''WORD_RULE'' None))"

definition WordRule_transit :: "acceptor \<Rightarrow> jschar \<Rightarrow> acceptor" where
  "WordRule_transit a ch = (if word_char ch then accept_char a else a\<lparr>isError := True\<rparr>)"

definition NumberRule_createAcceptor :: "(string, acceptor) jsmap \<Rightarrow> acceptor option" where
  "NumberRule_createAcceptor tag =
     (if map_get tag ''NUMBER_RULE'' \<noteq> None then None
      else Some (new_acceptor NumberK ''NUMBER_RULE'' None))"

definition NumberRule_transit :: "acceptor \<Rightarrow> jschar \<Rightarrow> acceptor" where
  "NumberRule_transit a ch = (if number_char ch then accept_char a else a\<lparr>isError := True\<rparr>)"

definition SpaceRule_createAcceptor :: "(string, acceptor) jsmap \<Rightarrow> acceptor option" where
  "SpaceRule_createAcceptor tag =
     (if map_get tag ''SPACE_RULE'' \<noteq> None then None
      else Some (new_acceptor SpaceK ''SPACE_RULE'' None))"

definition SpaceRule_transit :: "acceptor \<Rightarrow> jschar \<Rightarrow> acceptor" where
  "SpaceRule_transit a ch = (if space_char ch then accept_char a else a\<lparr>isError := True\<rparr>)"

definition SingleSymbolRule_createAcceptor :: "(string, acceptor) jsmap \<Rightarrow> acceptor option" where
  "SingleSymbolRule_createAcceptor tag = Some (new_acceptor SingleSymbolK ''SINSYM'' None)"

definition SingleSymbolRule_transit :: "acceptor \<Rightarrow> jschar \<Rightarrow> acceptor" where
  "SingleSymbolRule_transit a ch =
     (if strOffset a = 0 \<and> symbol_char ch then accept_char a else a\<lparr>isError := True\<rparr>)"

subsection \<open>Thai rules\<close>

definition isMatch :: "jsstring \<Rightarrow> nat \<Rightarrow> jschar \<Rightarrow> bool" where
  "isMatch pat offset ch =
     (if length pat \<le> offset then False
      else let c = pat ! offset in
        c = ch
        \<or> ((c = 0xE01 \<or> c = 0xE02) \<and> 0xE01 \<le> ch \<and> ch \<le> 0xE2E)
        \<or> ((c = 0xE21 \<or> c = 0xE1A) \<and> 0xE01 \<le> ch \<and> ch \<le> 0xE2E)
        \<or> (c = 0xE49 \<and> 0xE48 \<le> ch \<and> ch \<le> 0xE4B))"

definition Rule0_pat :: jsstring where
  "Rule0_pat = [0xE40, 0xE2B, 0xE01, 0xE47, 0xE21]"

definition Rule0_createAcceptor :: "(string, acceptor) jsmap \<Rightarrow> acceptor option" where
  "Rule0_createAcceptor tag = Some (new_acceptor Rule0K ''THAI_RULE'' None)"

definition Rule0_transit :: "acceptor \<Rightarrow> jschar \<Rightarrow> acceptor" where
  "Rule0_transit a ch =
     (if isMatch Rule0_pat (strOffset a) ch
      then a\<lparr>isFinal := (strOffset a + 1 = length Rule0_pat), strOffset := strOffset a + 1\<rparr>
      else a\<lparr>isError := True\<rparr>)"

definition PartRule_patterns :: "jsstring list" where
  "PartRule_patterns =
     [[0xE41, 0xE01], [0xE40, 0xE01], [0xE01, 0xE49], [0xE01, 0xE01, 0xE4C],
      [0xE01, 0xE32], [0xE01, 0xE35], [0xE01, 0xE34], [0xE01, 0xE37, 0xE01]]"

definition PartRule_createAcceptor :: "(string, acceptor) jsmap \<Rightarrow> acceptor option" where
  "PartRule_createAcceptor tag = Some (new_acceptor (PartK PartRule_patterns) ''PART'' (Some 1))"

definition PartRule_transit :: "jsstring list \<Rightarrow> acceptor \<Rightarrow> jschar \<Rightarrow> acceptor" where
  "PartRule_transit patterns a ch =
     (let offset = strOffset a;
          patterns' = filter (\<lambda>pat. isMatch pat offset ch) patterns;
          a' = a\<lparr>kind := PartK patterns'\<rparr>
      in if length patterns' > 0
         then a'\<lparr>isFinal := list_ex (\<lambda>pat. length pat = 1 + offset) patterns', strOffset := offset + 1\<rparr>
         else a'\<lparr>isError := True\<rparr>)"

subsection \<open>All creators and their acceptors\<close>

datatype creator =
    WordRule
  | SpaceRule
  | SingleSymbolRule
  | NumberRule
  | Rule0
  | PartRule
  | WordcutDict "jsstring list"

definition LatinRules :: "creator list" where
  "LatinRules = [WordRule, SpaceRule, SingleSymbolRule, NumberRule]"

definition ThaiRules :: "creator list" where
  "ThaiRules = [Rule0, PartRule]"

fun createAcceptor :: "creator \<Rightarrow> (string, acceptor) jsmap \<Rightarrow> acceptor option" where
  "createAcceptor WordRule tag = WordRule_createAcceptor tag"
| "createAcceptor SpaceRule tag = SpaceRule_createAcceptor tag"
| "createAcceptor SingleSymbolRule tag = SingleSymbolRule_createAcceptor tag"
| "createAcceptor NumberRule tag = NumberRule_createAcceptor tag"
| "createAcceptor Rule0 tag = Rule0_createAcceptor tag"
| "createAcceptor PartRule tag = PartRule_createAcceptor tag"
| "createAcceptor (WordcutDict dict) tag = Some (dict_createAcceptor dict)"

definition acceptor_transit :: "acceptor \<Rightarrow> jschar \<Rightarrow> acceptor jsresult" where
  "acceptor_transit a ch =
     (case kind a of
        WordK \<Rightarrow> Inr (WordRule_transit a ch)
      | NumberK \<Rightarrow> Inr (NumberRule_transit a ch)
      | SpaceK \<Rightarrow> Inr (SpaceRule_transit a ch)
      | SingleSymbolK \<Rightarrow> Inr (SingleSymbolRule_transit a ch)
      | Rule0K \<Rightarrow> Inr (Rule0_transit a ch)
      | PartK patterns \<Rightarrow> Inr (PartRule_transit patterns a ch)
      | DictK dict l r \<Rightarrow> dict_transit dict l r a ch)"

subsection \<open>Running the acceptors over a text\<close>

record acceptors =
  creators :: "creator list"
  current :: "acceptor list"
  tag :: "(string, acceptor) jsmap"

definition acceptors_init :: acceptors where
  "acceptors_init = \<lparr>creators = [], current = [], tag = []\<rparr>"

definition acceptors_reset :: "acceptors \<Rightarrow> acceptors" where
  "acceptors_reset self = self\<lparr>current := [], tag := []\<rparr>"

fun transit_loop ::
    "(acceptor \<Rightarrow> jschar \<Rightarrow> acceptor jsresult) \<Rightarrow> jschar \<Rightarrow> acceptor list \<Rightarrow>
     acceptor list \<Rightarrow> (string, acceptor) jsmap \<Rightarrow> (acceptor list \<times> (string, acceptor) jsmap) jsresult" where
  "transit_loop tr ch [] cur tg = Inr (cur, tg)"
| "transit_loop tr ch (a # as) cur tg =
     (case tr a ch of
        Inl e \<Rightarrow> Inl e
      | Inr a' \<Rightarrow>
          if isError a' then transit_loop tr ch as cur tg
          else transit_loop tr ch as (cur @ [a']) (map_set (acc_tag a') a' tg))"

definition acceptors_transit :: "acceptors \<Rightarrow> jschar \<Rightarrow> acceptors jsresult" where
  "acceptors_transit self ch =
     (let cur = current self @ List.map_filter (\<lambda>c. createAcceptor c (tag self)) (creators self)
      in case transit_loop acceptor_transit ch cur [] [] of
           Inl e \<Rightarrow> Inl e
         | Inr (cur', tag') \<Rightarrow> Inr (self\<lparr>current := cur', tag := tag'\<rparr>))"

definition getFinalAcceptors :: "acceptors \<Rightarrow> acceptor list" where
  "getFinalAcceptors self = filter isFinal (current self)"

subsection \<open>What the runner needs of an acceptor\<close>

locale acceptor_contract =
  fixes create :: "'c \<Rightarrow> (string, acceptor) jsmap \<Rightarrow> acceptor option"
    and transit :: "acceptor \<Rightarrow> jschar \<Rightarrow> acceptor jsresult"
    and ok :: "acceptor \<Rightarrow> bool"
  assumes create_ok: "create c tg = Some a \<Longrightarrow> ok a \<and> strOffset a = 0"
    and transit_total: "ok a \<Longrightarrow> \<exists>a'. transit a ch = Inr a'"
    and transit_ok: "ok a \<Longrightarrow> transit a ch = Inr a' \<Longrightarrow> \<not> isError a' \<Longrightarrow> ok a' \<and> strOffset a' = Suc (strOffset a)"
begin

lemma transit_loop_ok:
  "\<forall>a \<in> set as. ok a \<and> strOffset a \<le> n \<Longrightarrow>
   \<forall>a \<in> set cur. ok a \<and> 0 < strOffset a \<and> strOffset a \<le> Suc n \<Longrightarrow>
   \<exists>cur' tg'. transit_loop transit ch as cur tg = Inr (cur', tg')
     \<and> (\<forall>a \<in> set cur'. ok a \<and> 0 < strOffset a \<and> strOffset a \<le> Suc n)"
proof (induction as arbitrary: cur tg)
  case (Cons a as)
  then obtain a' where a': "transit a ch = Inr a'"
    using transit_total by fastforce
  show ?case
  proof (cases "isError a'")
    case True
    with Cons a' show ?thesis
      by simp
  next
    case False
    with Cons.prems a' have "ok a' \<and> strOffset a' = Suc (strOffset a)"
      using transit_ok [OF _ a'] by simp
    with Cons.prems have "\<forall>b \<in> set (cur @ [a']). ok b \<and> 0 < strOffset b \<and> strOffset b \<le> Suc n"
      by auto
    with Cons.IH [OF _ this, of "map_set (acc_tag a') a' tg"] Cons.prems a' False show ?thesis
      by simp
  qed
qed simp

lemma run_ok:
  assumes "\<forall>a \<in> set as. ok a \<and> strOffset a \<le> n"
  shows "\<exists>cur' tg'. transit_loop transit ch (as @ List.map_filter (\<lambda>c. create c tg) cs) [] [] = Inr (cur', tg')
     \<and> (\<forall>a \<in> set cur'. ok a \<and> 0 < strOffset a \<and> strOffset a \<le> Suc n)"
proof (rule transit_loop_ok)
  show "\<forall>a \<in> set (as @ List.map_filter (\<lambda>c. create c tg) cs). ok a \<and> strOffset a \<le> n"
    using assms create_ok by (fastforce simp: List.map_filter_def)
qed simp

end

definition acceptor_ok :: "acceptor \<Rightarrow> bool" where
  "acceptor_ok a = (case kind a of DictK dict l r \<Rightarrow> 0 \<le> l \<and> r < int (length dict) | _ \<Rightarrow> True)"

lemmas rule_defs =
  WordRule_transit_def NumberRule_transit_def SpaceRule_transit_def SingleSymbolRule_transit_def
  Rule0_transit_def PartRule_transit_def accept_char_def

lemmas create_defs =
  WordRule_createAcceptor_def NumberRule_createAcceptor_def SpaceRule_createAcceptor_def
  SingleSymbolRule_createAcceptor_def Rule0_createAcceptor_def PartRule_createAcceptor_def
  dict_createAcceptor_def new_acceptor_def

lemma dict_transit_ok:
  assumes "0 \<le> l" "r < int (length dict)"
  shows "dict_transit dict l r a ch = Inr (a\<lparr>isError := True\<rparr>) \<or>
    (\<exists>l' r' f. dict_transit dict l r a ch =
       Inr (a\<lparr>kind := DictK dict l' r', strOffset := Suc (strOffset a), isFinal := f\<rparr>)
     \<and> 0 \<le> l' \<and> r' < int (length dict))"
proof -
  obtain x where x: "dictSeek dict l r ch (strOffset a) LEFT None = Inr x"
    and xb: "x = None \<or> (\<exists>m. x = Some m \<and> l \<le> m \<and> m \<le> r)"
    using dictSeek_bounds [OF assms] unfolding in_window_def by metis
  show ?thesis
  proof (cases x)
    case None
    with x show ?thesis
      by (simp add: dict_transit_def)
  next
    case (Some m)
    with xb have m: "l \<le> m" "m \<le> r" by auto
    then obtain y where y: "dictSeek dict m r ch (strOffset a) RIGHT None = Inr y"
      and yb: "y = None \<or> (\<exists>k. y = Some k \<and> m \<le> k \<and> k \<le> r)"
      using dictSeek_bounds [of m r dict None ch "strOffset a" RIGHT] assms
      unfolding in_window_def by auto
    let ?r = "case y of None \<Rightarrow> 0 | Some k \<Rightarrow> k"
    have "dict_transit dict l r a ch = Inr (a\<lparr>kind := DictK dict m ?r, strOffset := Suc (strOffset a),
        isFinal := (length (dict ! nat m) = Suc (strOffset a))\<rparr>)"
      using x y Some m assms by (simp add: dict_transit_def Let_def)
    moreover have "0 \<le> m" "?r < int (length dict)"
      using m yb assms by (auto split: option.splits)
    ultimately show ?thesis
      by blast
  qed
qed

lemma acceptor_transit_ok:
  assumes "acceptor_ok a"
  shows "\<exists>a'. acceptor_transit a ch = Inr a' \<and>
    (\<not> isError a' \<longrightarrow> acceptor_ok a' \<and> strOffset a' = Suc (strOffset a))"
proof (cases "kind a")
  case (DictK dict l r)
  with assms have "0 \<le> l" "r < int (length dict)"
    by (auto simp: acceptor_ok_def)
  from dict_transit_ok [OF this, of a ch] DictK show ?thesis
    by (auto simp: acceptor_transit_def acceptor_ok_def)
qed (auto simp: acceptor_transit_def acceptor_ok_def rule_defs Let_def)

interpretation wc: acceptor_contract createAcceptor acceptor_transit acceptor_ok
proof
  fix c tg a assume "createAcceptor c tg = Some a"
  then show "acceptor_ok a \<and> strOffset a = 0"
    by (cases c) (auto simp: create_defs acceptor_ok_def split: if_splits)
next
  fix a ch assume "acceptor_ok a"
  then show "\<exists>a'. acceptor_transit a ch = Inr a'"
    using acceptor_transit_ok by blast
next
  fix a ch a' assume "acceptor_ok a" "acceptor_transit a ch = Inr a'" "\<not> isError a'"
  then show "acceptor_ok a' \<and> strOffset a' = Suc (strOffset a)"
    using acceptor_transit_ok [of a ch] by auto
qed

definition acceptors_ok :: "nat \<Rightarrow> acceptors \<Rightarrow> bool" where
  "acceptors_ok n A = (\<forall>a \<in> set (current A). acceptor_ok a \<and> 0 < strOffset a \<and> strOffset a \<le> n)"

lemma acceptors_ok_reset [simp]: "acceptors_ok 0 (acceptors_reset A)"
  by (simp add: acceptors_ok_def acceptors_reset_def)

lemma acceptors_transit_ok:
  assumes "acceptors_ok n A"
  shows "\<exists>A'. acceptors_transit A ch = Inr A' \<and> acceptors_ok (Suc n) A'"
proof -
  have "\<forall>a \<in> set (current A). acceptor_ok a \<and> strOffset a \<le> n"
    using assms by (auto simp: acceptors_ok_def)
  from wc.run_ok [OF this, of ch "tag A" "creators A"] show ?thesis
    by (auto simp: acceptors_transit_def acceptors_ok_def Let_def)
qed

subsection \<open>The dictionary acceptor accepts the dictionary\<close>

text \<open>An acceptor fed a text until it fails, which is how the runner treats it.\<close>

fun read_text :: "acceptor \<Rightarrow> jsstring \<Rightarrow> acceptor jsresult" where
  "read_text a [] = Inr a"
| "read_text a (c # cs) =
     (case acceptor_transit a c of
        Inl e \<Rightarrow> Inl e
      | Inr a' \<Rightarrow> if isError a' then Inr a' else read_text a' cs)"

lemma read_text_dict:
  assumes "sorted dict" "dict_window dict p l r" "strOffset a = length p" "kind a = DictK dict l r"
    "\<not> isError a" "isFinal a \<longleftrightarrow> p \<noteq> [] \<and> p \<in> set dict" "p = [] \<or> (\<exists>x \<in> set dict. startsWith x p)"
  shows "\<exists>b. read_text a s = Inr b
    \<and> (isError b \<longleftrightarrow> p @ s \<noteq> [] \<and> \<not> (\<exists>x \<in> set dict. startsWith x (p @ s)))
    \<and> (\<not> isError b \<longrightarrow> (isFinal b \<longleftrightarrow> p @ s \<noteq> [] \<and> p @ s \<in> set dict))"
  using assms
proof (induction s arbitrary: a p l r)
  case Nil
  then show ?case
    by auto
next
  case (Cons c s)
  note step = dict_transit_window [OF Cons.prems(1,2,3), of c]
  show ?case
  proof (cases "\<exists>x \<in> set dict. startsWith x (p @ [c])")
    case True
    then obtain l' r' where tr: "acceptor_transit a c =
        Inr (a\<lparr>kind := DictK dict l' r', strOffset := Suc (length p), isFinal := (p @ [c] \<in> set dict)\<rparr>)"
      and w: "dict_window dict (p @ [c]) l' r'"
      using step Cons.prems(4) by (auto simp: acceptor_transit_def)
    have "\<exists>b. read_text (a\<lparr>kind := DictK dict l' r', strOffset := Suc (length p),
          isFinal := (p @ [c] \<in> set dict)\<rparr>) s = Inr b
        \<and> (isError b \<longleftrightarrow> (p @ [c]) @ s \<noteq> [] \<and> \<not> (\<exists>x \<in> set dict. startsWith x ((p @ [c]) @ s)))
        \<and> (\<not> isError b \<longrightarrow> (isFinal b \<longleftrightarrow> (p @ [c]) @ s \<noteq> [] \<and> (p @ [c]) @ s \<in> set dict))"
      by (rule Cons.IH [OF Cons.prems(1) w]) (use True Cons.prems in auto)
    with tr Cons.prems(5) show ?thesis
      by simp
  next
    case False
    then have "acceptor_transit a c = Inr (a\<lparr>isError := True\<rparr>)"
      using step Cons.prems(4) by (auto simp: acceptor_transit_def)
    moreover have "\<not> startsWith x (p @ c # s)" if "x \<in> set dict" for x
      using False that by (auto simp: startsWith_iff)
    ultimately show ?thesis
      by auto
  qed
qed

text \<open>C28: on the finalized dictionary, whose words are sorted and without repetitions, the dictionary
  acceptor fed any non-empty text returns without a type error, fails exactly when no word of the
  dictionary starts with the text, and is otherwise final exactly when the text is a word of the
  dictionary: the two binary searches of each step never lose or invent a word.\<close>

theorem dict_acceptor_accepts_words:
  assumes "s \<noteq> []"
  shows "\<exists>a. read_text (dict_createAcceptor (finalizeDict words)) s = Inr a
    \<and> (isError a \<longleftrightarrow> \<not> (\<exists>x \<in> set words. startsWith x s))
    \<and> (\<not> isError a \<longrightarrow> (isFinal a \<longleftrightarrow> s \<in> set words))"
proof -
  let ?d = "finalizeDict words"
  have "sorted ?d" "set ?d = set words"
    by (simp_all add: finalizeDict_def sorted_sortuniq)
  then show ?thesis
    using read_text_dict [OF _ dict_window_all, of ?d "dict_createAcceptor ?d" s] assms
    by (auto simp: dict_createAcceptor_def)
qed

theorem dict_acceptor_accepts_words_witness:
  "\<exists>a. read_text (dict_createAcceptor (finalizeDict [js ''cat'', js ''car'', js ''ca''])) (js ''car'') = Inr a
    \<and> \<not> isError a \<and> isFinal a"
  using dict_acceptor_accepts_words [of "js ''car''" "[js ''cat'', js ''car'', js ''ca'']"]
  by (auto simp: js_def startsWith_def)

end
