(* ===== verification/Wordcut_Core.thy ===== *)
theory Wordcut_Core
  imports Wordcut_Acceptors
begin

text \<open>
  The segmenter itself: building the information of one text position from the acceptors that end
  there (\<^verbatim>\<open>path_info_builder.js\<close>), choosing among them (\<^verbatim>\<open>path_selector.js\<close>), the
  forward pass over the text and the walk back that turns the path into ranges
  (\<^verbatim>\<open>wordcut_core.js\<close>), and the set-up (\<^verbatim>\<open>wordcut.js\<close>), all inside
  \<^verbatim>\<open>assets/js/lunr/wordcut.js\<close>. For every text the segmenter returns, and its ranges
  partition the text.
\<close>

subsection \<open>Path information\<close>

record path_info =
  pi_p :: "nat option"
  pi_mw :: nat
  pi_w :: nat
  pi_unk :: nat
  pi_type :: string
  pi_merge :: "nat option"

definition set_merge :: "path_info list \<Rightarrow> nat \<Rightarrow> nat \<Rightarrow> path_info list" where
  "set_merge path p i =
     map (\<lambda>(j, x). if p < j \<and> j \<le> i then x\<lparr>pi_merge := Some p\<rparr> else x) (enumerate 0 path)"

fun buildByAcceptors ::
    "path_info list \<Rightarrow> acceptor list \<Rightarrow> nat \<Rightarrow> (path_info list \<times> path_info list) jsresult" where
  "buildByAcceptors path [] i = Inr ([], path)"
| "buildByAcceptors path (a # as) i =
     (let p = int i - int (strOffset a) + 1
      in if p < 0 \<or> int (length path) \<le> p then Inl TypeError
         else
           let q = nat p;
               inf = path ! q;
               info = \<lparr>pi_p = Some q,
                       pi_mw = pi_mw inf + (case acc_mw a of None \<Rightarrow> 0 | Some mw \<Rightarrow> mw),
                       pi_w = acc_w a + pi_w inf,
                       pi_unk = (case acc_unk a of None \<Rightarrow> 0 | Some u \<Rightarrow> u) + pi_unk inf,
                       pi_type = acc_type a,
                       pi_merge = (if acc_type a = ''PART'' then Some q else None)\<rparr>
           in if acc_type a = ''PART'' \<and> q < i \<and> length path \<le> i then Inl TypeError
              else
                let path' = (if acc_type a = ''PART'' then set_merge path q i else path)
                in case buildByAcceptors path' as i of
                     Inl e \<Rightarrow> Inl e
                   | Inr (infos, path'') \<Rightarrow> Inr (info # infos, path''))"

definition tone_mark :: "jschar \<Rightarrow> bool" where
  "tone_mark ch = (0xE48 \<le> ch \<and> ch \<le> 0xE4E)"

definition fallback :: "path_info list \<Rightarrow> nat \<Rightarrow> jsstring \<Rightarrow> nat \<Rightarrow> path_info jsresult" where
  "fallback path leftBoundary text i =
     (if length path \<le> leftBoundary \<or> length text \<le> i then Inl TypeError
      else
        let inf = path ! leftBoundary
        in if tone_mark (text ! i)
           then Inr \<lparr>pi_p = (if leftBoundary \<noteq> 0 then pi_p (path ! leftBoundary) else Some leftBoundary),
                     pi_mw = 0, pi_w = 1 + pi_w inf, pi_unk = 1 + pi_unk inf,
                     pi_type = ''UNK'', pi_merge = None\<rparr>
           else Inr \<lparr>pi_p = Some leftBoundary, pi_mw = pi_mw inf, pi_w = 1 + pi_w inf,
                     pi_unk = 1 + pi_unk inf, pi_type = ''UNK'', pi_merge = None\<rparr>)"

definition build ::
    "path_info list \<Rightarrow> acceptor list \<Rightarrow> nat \<Rightarrow> nat \<Rightarrow> jsstring \<Rightarrow>
     (path_info list \<times> path_info list) jsresult" where
  "build path finalAcceptors i leftBoundary text =
     (case buildByAcceptors path finalAcceptors i of
        Inl e \<Rightarrow> Inl e
      | Inr (basicPathInfos, path') \<Rightarrow>
          if length basicPathInfos > 0 then Inr (basicPathInfos, path')
          else (case fallback path' leftBoundary text i of
                  Inl e \<Rightarrow> Inl e
                | Inr info \<Rightarrow> Inr ([info], path')))"

subsection \<open>Choosing a path\<close>

definition better :: "path_info \<Rightarrow> path_info \<Rightarrow> bool" where
  "better path selectedPath =
     (pi_unk path < pi_unk selectedPath
      \<or> pi_unk path = pi_unk selectedPath
        \<and> (pi_mw path < pi_mw selectedPath
           \<or> pi_mw path = pi_mw selectedPath \<and> pi_w path < pi_w selectedPath))"

definition selectPath :: "path_info list \<Rightarrow> path_info option" where
  "selectPath paths =
     foldl (\<lambda>selectedPath path.
        case selectedPath of
          None \<Rightarrow> Some path
        | Some s \<Rightarrow> if better path s then Some path else Some s) None paths"

definition createPath :: "path_info list" where
  "createPath = [\<lparr>pi_p = None, pi_mw = 0, pi_w = 0, pi_unk = 0, pi_type = ''INIT'', pi_merge = None\<rparr>]"

subsection \<open>The segmenter\<close>

definition initNoDict :: acceptors where
  "initNoDict = acceptors_init\<lparr>creators := LatinRules @ ThaiRules\<rparr>"

definition wordcut_init ::
    "jsstring \<Rightarrow> jsstring \<Rightarrow> path_arg \<Rightarrow> bool \<Rightarrow> jsstring list option \<Rightarrow> acceptors" where
  "wordcut_init default_text defaultDict dict_path withDefault additionalWords =
     (let self = initNoDict;
          dict = dict_init default_text defaultDict dict_path withDefault additionalWords
      in self\<lparr>creators := creators self @ [WordcutDict dict]\<rparr>)"

fun buildPath_loop ::
    "acceptors \<Rightarrow> path_info list \<Rightarrow> nat \<Rightarrow> jsstring \<Rightarrow> nat \<Rightarrow> jsstring \<Rightarrow>
     (acceptors \<times> path_info list) jsresult" where
  "buildPath_loop self path leftBoundary text i [] = Inr (self, path)"
| "buildPath_loop self path leftBoundary text i (ch # chs) =
     (case acceptors_transit self ch of
        Inl e \<Rightarrow> Inl e
      | Inr self' \<Rightarrow>
          (case build path (getFinalAcceptors self') i leftBoundary text of
             Inl e \<Rightarrow> Inl e
           | Inr (possiblePathInfos, path') \<Rightarrow>
               (case selectPath possiblePathInfos of
                  None \<Rightarrow> Inl TypeError
                | Some selectedPath \<Rightarrow>
                    buildPath_loop self' (path' @ [selectedPath])
                      (if pi_type selectedPath \<noteq> ''UNK'' then i else leftBoundary) text (i + 1) chs)))"

definition buildPath :: "acceptors \<Rightarrow> jsstring \<Rightarrow> (acceptors \<times> path_info list) jsresult" where
  "buildPath self text = buildPath_loop (acceptors_reset self) createPath 0 text 0 text"

record range =
  r_s :: "nat option"
  r_e :: nat

partial_function (option) pathToRanges_loop ::
    "path_info list \<Rightarrow> nat option \<Rightarrow> range list \<Rightarrow> range list jsresult option" where
  "pathToRanges_loop path e ranges =
     (case e of
        None \<Rightarrow> Some (Inr ranges)
      | Some n \<Rightarrow>
          if n > 0 then
            if length path \<le> n then Some (Inl TypeError)
            else if pi_merge (path ! n) \<noteq> None \<and> length ranges > 0
              then pathToRanges_loop path (pi_merge (path ! n))
                     (butlast ranges @ [(last ranges)\<lparr>r_s := pi_merge (path ! n)\<rparr>])
              else pathToRanges_loop path (pi_p (path ! n))
                     (ranges @ [\<lparr>r_s = pi_p (path ! n), r_e = n\<rparr>])
          else Some (Inr ranges))"

declare pathToRanges_loop.simps [code]

definition pathToRanges :: "path_info list \<Rightarrow> range list jsresult option" where
  "pathToRanges path =
     (case pathToRanges_loop path (Some (length path - 1)) [] of
        None \<Rightarrow> None
      | Some (Inl e) \<Rightarrow> Some (Inl e)
      | Some (Inr ranges) \<Rightarrow> Some (Inr (rev ranges)))"

definition range_text :: "jsstring \<Rightarrow> range \<Rightarrow> jsstring" where
  "range_text text r = substring text (case r_s r of None \<Rightarrow> 0 | Some s \<Rightarrow> s) (r_e r)"

definition rangesToText :: "jsstring \<Rightarrow> range list \<Rightarrow> jsstring \<Rightarrow> jsstring" where
  "rangesToText text ranges delimiter = js_join delimiter (map (range_text text) ranges)"

definition with_ranges ::
    "acceptors \<Rightarrow> jsstring \<Rightarrow> (range list \<Rightarrow> 'a) \<Rightarrow> 'a jsresult option" where
  "with_ranges self text k =
     (case buildPath self text of
        Inl e \<Rightarrow> Some (Inl e)
      | Inr (_, path) \<Rightarrow>
          (case pathToRanges path of
             None \<Rightarrow> None
           | Some (Inl e) \<Rightarrow> Some (Inl e)
           | Some (Inr ranges) \<Rightarrow> Some (Inr (k ranges))))"

definition cut :: "acceptors \<Rightarrow> jsstring \<Rightarrow> jsstring option \<Rightarrow> jsstring jsresult option" where
  "cut self text delimiter =
     with_ranges self text
       (\<lambda>ranges. rangesToText text ranges (case delimiter of None \<Rightarrow> js ''|'' | Some d \<Rightarrow> d))"

definition cutIntoRanges ::
    "acceptors \<Rightarrow> jsstring \<Rightarrow> bool \<Rightarrow> (range \<times> jsstring option) list jsresult option" where
  "cutIntoRanges self text noText =
     with_ranges self text
       (map (\<lambda>r. (r, if noText then None else Some (range_text text r))))"

definition cutIntoArray :: "acceptors \<Rightarrow> jsstring \<Rightarrow> jsstring list jsresult option" where
  "cutIntoArray self text = with_ranges self text (map (range_text text))"

subsection \<open>Well-formed paths\<close>

text \<open>Every position but the first points back to an earlier one, and so does a merge mark.\<close>

definition info_ok :: "nat \<Rightarrow> path_info \<Rightarrow> bool" where
  "info_ok k x = ((\<exists>q. pi_p x = Some q \<and> q < k) \<and> (\<forall>m. pi_merge x = Some m \<longrightarrow> m < k))"

definition path_ok :: "path_info list \<Rightarrow> bool" where
  "path_ok path = (path \<noteq> [] \<and> (\<forall>k. 0 < k \<longrightarrow> k < length path \<longrightarrow> info_ok k (path ! k)))"

lemma length_set_merge [simp]: "length (set_merge path p i) = length path"
  by (simp add: set_merge_def)

lemma set_merge_Nil [simp]: "set_merge path p i = [] \<longleftrightarrow> path = []"
  by (simp add: set_merge_def enumerate_eq_zip)

lemma nth_set_merge:
  "j < length path \<Longrightarrow>
   set_merge path p i ! j = (if p < j \<and> j \<le> i then (path ! j)\<lparr>pi_merge := Some p\<rparr> else path ! j)"
  by (simp add: set_merge_def nth_enumerate_eq)

lemma path_ok_set_merge: "path_ok path \<Longrightarrow> path_ok (set_merge path p i)"
  by (simp add: path_ok_def nth_set_merge info_ok_def)

lemma path_ok_snoc: "path_ok path \<Longrightarrow> info_ok (length path) x \<Longrightarrow> path_ok (path @ [x])"
  by (auto simp: path_ok_def nth_append less_Suc_eq)

lemma path_ok_create: "path_ok createPath"
  by (simp add: path_ok_def createPath_def)

lemma buildByAcceptors_ok:
  assumes "path_ok path" "length path = Suc i"
    "\<forall>a \<in> set as. 0 < strOffset a \<and> strOffset a \<le> Suc i"
  shows "\<exists>infos path'. buildByAcceptors path as i = Inr (infos, path') \<and> path_ok path'
    \<and> length path' = Suc i \<and> (\<forall>x \<in> set infos. info_ok (Suc i) x)"
  using assms
proof (induction path as i rule: buildByAcceptors.induct)
  case (2 path a as i)
  define p where "p = int i - int (strOffset a) + 1"
  have p: "\<not> (p < 0 \<or> int (length path) \<le> p)" "nat p < Suc i"
    using "2.prems" by (auto simp: p_def)
  define path' where "path' = (if acc_type a = ''PART'' then set_merge path (nat p) i else path)"
  have "path_ok path'" "length path' = Suc i"
    using "2.prems" by (auto simp: path'_def path_ok_set_merge)
  moreover have nopart: "\<not> (acc_type a = ''PART'' \<and> nat p < i \<and> length path \<le> i)"
    using "2.prems" by simp
  ultimately have "\<exists>infos path''. buildByAcceptors path' as i = Inr (infos, path'') \<and> path_ok path''
    \<and> length path'' = Suc i \<and> (\<forall>x \<in> set infos. info_ok (Suc i) x)"
    using "2.IH" [OF p_def p(1) refl refl refl nopart path'_def] "2.prems" by simp
  then show ?case
    using p nopart by (auto simp: Let_def p_def [symmetric] path'_def [symmetric] info_ok_def)
qed auto

lemma fallback_ok:
  assumes "path_ok path" "length path = Suc i" "lb \<le> i" "i < length text"
  shows "\<exists>x. fallback path lb text i = Inr x \<and> info_ok (Suc i) x"
proof -
  have "lb \<noteq> 0 \<Longrightarrow> \<exists>q. pi_p (path ! lb) = Some q \<and> q < lb"
    using assms by (auto simp: path_ok_def info_ok_def)
  then show ?thesis
    using assms by (auto simp: fallback_def info_ok_def Let_def)
qed

lemma build_ok:
  assumes "path_ok path" "length path = Suc i" "lb \<le> i" "i < length text"
    "\<forall>a \<in> set as. 0 < strOffset a \<and> strOffset a \<le> Suc i"
  shows "\<exists>infos path'. build path as i lb text = Inr (infos, path') \<and> infos \<noteq> [] \<and> path_ok path'
    \<and> length path' = Suc i \<and> (\<forall>x \<in> set infos. info_ok (Suc i) x)"
proof -
  obtain infos path' where b: "buildByAcceptors path as i = Inr (infos, path')" "path_ok path'"
    "length path' = Suc i" "\<forall>x \<in> set infos. info_ok (Suc i) x"
    using buildByAcceptors_ok [OF assms(1,2,5)] by blast
  then obtain x where "fallback path' lb text i = Inr x" "info_ok (Suc i) x"
    using fallback_ok assms by blast
  with b show ?thesis
    by (auto simp: build_def)
qed

subsection \<open>The selector returns a best candidate\<close>

lemma better_irrefl [simp]: "\<not> better x x"
  by (simp add: better_def)

lemma not_better_trans: "\<not> better y x \<Longrightarrow> \<not> better z y \<Longrightarrow> \<not> better z x"
  by (auto simp: better_def)

lemma better_asym: "better x y \<Longrightarrow> \<not> better y x"
  by (auto simp: better_def)

lemma selectPath_fold:
  "\<exists>x. foldl (\<lambda>selectedPath path. case selectedPath of None \<Rightarrow> Some path
        | Some s \<Rightarrow> if better path s then Some path else Some s) (Some a) paths = Some x
     \<and> x \<in> insert a (set paths) \<and> (\<forall>y \<in> insert a (set paths). \<not> better y x)"
proof (induction paths arbitrary: a)
  case (Cons y ys)
  let ?b = "if better y a then y else a"
  obtain x where x: "x \<in> insert ?b (set ys)" "\<forall>z \<in> insert ?b (set ys). \<not> better z x"
    and f: "foldl (\<lambda>selectedPath path. case selectedPath of None \<Rightarrow> Some path
        | Some s \<Rightarrow> if better path s then Some path else Some s) (Some ?b) ys = Some x"
    using Cons.IH by blast
  have "\<not> better ?b x" "\<not> better a ?b" "\<not> better y ?b"
    using x better_asym by auto
  then have "\<not> better a x" "\<not> better y x"
    using not_better_trans by blast+
  with x f show ?case
    by (auto split: if_splits)
qed simp

lemma selectPath_best:
  assumes "paths \<noteq> []"
  shows "\<exists>x \<in> set paths. selectPath paths = Some x \<and> (\<forall>y \<in> set paths. \<not> better y x)"
proof -
  obtain a as where "paths = a # as"
    using assms by (cases paths) auto
  with selectPath_fold [of a as] show ?thesis
    by (auto simp: selectPath_def)
qed

subsection \<open>The forward pass\<close>

lemma buildPath_loop_ok:
  assumes "acceptors_ok i self" "path_ok path" "length path = Suc i" "lb \<le> i"
    "text = pre @ chs" "length pre = i"
  shows "\<exists>self' path'. buildPath_loop self path lb text i chs = Inr (self', path') \<and> path_ok path'
    \<and> length path' = Suc (length text)"
  using assms
proof (induction chs arbitrary: self path lb i pre)
  case (Cons ch chs)
  obtain self' where tr: "acceptors_transit self ch = Inr self'" and ok: "acceptors_ok (Suc i) self'"
    using acceptors_transit_ok [OF Cons.prems(1)] by blast
  have "\<forall>a \<in> set (getFinalAcceptors self'). 0 < strOffset a \<and> strOffset a \<le> Suc i"
    using ok by (auto simp: getFinalAcceptors_def acceptors_ok_def)
  moreover have "i < length text"
    using Cons.prems by auto
  ultimately obtain infos path' where b: "build path (getFinalAcceptors self') i lb text = Inr (infos, path')"
    "infos \<noteq> []" "path_ok path'" "length path' = Suc i" "\<forall>x \<in> set infos. info_ok (Suc i) x"
    using build_ok Cons.prems by blast
  obtain x where x: "x \<in> set infos" "selectPath infos = Some x"
    using selectPath_best [OF b(2)] by blast
  let ?lb = "if pi_type x \<noteq> ''UNK'' then i else lb"
  have "\<exists>self'' path''. buildPath_loop self' (path' @ [x]) ?lb text (Suc i) chs = Inr (self'', path'')
    \<and> path_ok path'' \<and> length path'' = Suc (length text)"
  proof (rule Cons.IH [OF ok])
    show "path_ok (path' @ [x])"
      using path_ok_snoc b x by auto
    show "text = (pre @ [ch]) @ chs"
      using Cons.prems by simp
  qed (use b Cons.prems in auto)
  with tr b x show ?case
    by simp
qed simp

lemma buildPath_ok:
  "\<exists>self' path. buildPath self text = Inr (self', path) \<and> path_ok path \<and> length path = Suc (length text)"
  using buildPath_loop_ok [of 0 "acceptors_reset self" createPath 0 "text" "[]" "text"]
  by (simp add: buildPath_def path_ok_create) (simp add: createPath_def)

subsection \<open>Ranges\<close>

fun range_partition :: "nat \<Rightarrow> nat \<Rightarrow> range list \<Rightarrow> bool" where
  "range_partition a b [] = (a = b)"
| "range_partition a b (r # rs) = (r_s r = Some a \<and> a < r_e r \<and> range_partition (r_e r) b rs)"

lemma range_partition_le: "range_partition a b rs \<Longrightarrow> a \<le> b"
  by (induction a b rs rule: range_partition.induct) auto

lemma pathToRanges_loop_ok:
  assumes "path_ok path" "n < length path" "range_partition n b (rev ranges)"
  shows "\<exists>rs. pathToRanges_loop path (Some n) ranges = Some (Inr rs) \<and> range_partition 0 b (rev rs)"
  using assms(2,3)
proof (induction n arbitrary: ranges rule: less_induct)
  case (less n)
  show ?case
  proof (cases "n = 0")
    case True
    with less.prems show ?thesis
      by (simp add: pathToRanges_loop.simps)
  next
    case False
    with assms(1) less.prems obtain q where q: "pi_p (path ! n) = Some q" "q < n"
      and mg: "\<And>m. pi_merge (path ! n) = Some m \<Longrightarrow> m < n"
      by (auto simp: path_ok_def info_ok_def)
    note unf = pathToRanges_loop.simps [of path "Some n" ranges]
    show ?thesis
    proof (cases "pi_merge (path ! n) \<noteq> None \<and> length ranges > 0")
      case True
      then obtain m where m: "pi_merge (path ! n) = Some m"
        by auto
      let ?rs = "butlast ranges @ [(last ranges)\<lparr>r_s := Some m\<rparr>]"
      have "rev ranges = last ranges # rev (butlast ranges)"
        using True by (metis append_butlast_last_id length_greater_0_conv rev.simps(2) rev_rev_ident rev_append
          rev_singleton_conv append_Cons append_Nil)
      with less.prems(2) have "range_partition m b (rev ?rs)"
        using mg [OF m] by auto
      with less.IH [OF mg [OF m], of ?rs] mg [OF m] less.prems True m False show ?thesis
        by (simp add: unf)
    next
      case no: False
      have "range_partition q b (rev (ranges @ [\<lparr>r_s = Some q, r_e = n\<rparr>]))"
        using q less.prems by simp
      with less.IH [OF q(2), of "ranges @ [\<lparr>r_s = Some q, r_e = n\<rparr>]"] q less.prems no False show ?thesis
        by (auto simp: unf)
    qed
  qed
qed

lemma pathToRanges_ok:
  assumes "path_ok path"
  shows "\<exists>rs. pathToRanges path = Some (Inr rs) \<and> range_partition 0 (length path - 1) rs"
proof -
  have "length path - 1 < length path"
    using assms by (simp add: path_ok_def)
  then obtain rs where "pathToRanges_loop path (Some (length path - 1)) [] = Some (Inr rs)"
    "range_partition 0 (length path - 1) (rev rs)"
    using pathToRanges_loop_ok [OF assms, of "length path - 1" "length path - 1" "[]"] by auto
  then show ?thesis
    by (simp add: pathToRanges_def)
qed

lemma range_partition_texts:
  "range_partition a b rs \<Longrightarrow> b \<le> length text \<Longrightarrow>
   concat (map (range_text text) rs) = substring text a b \<and> (\<forall>r \<in> set rs. range_text text r \<noteq> [])"
proof (induction a b rs rule: range_partition.induct)
  case (1 a b)
  then show ?case
    by (simp add: substring_def)
next
  case (2 a b r rs)
  then have r: "r_s r = Some a" "a < r_e r" "r_e r \<le> b"
    using range_partition_le by auto
  then have "length (range_text text r) = r_e r - a"
    using "2.prems" by (simp add: range_text_def)
  with r have "range_text text r \<noteq> []"
    by auto
  moreover have "range_text text r @ substring text (r_e r) b = substring text a b"
    using r by (simp add: range_text_def substring_append)
  ultimately show ?case
    using 2 by simp
qed

lemma with_ranges_ok:
  "\<exists>rs. with_ranges self text k = Some (Inr (k rs)) \<and> range_partition 0 (length text) rs"
proof -
  obtain self' path where p: "buildPath self text = Inr (self', path)" "path_ok path" "length path = Suc (length text)"
    using buildPath_ok by blast
  then obtain rs where "pathToRanges path = Some (Inr rs)" "range_partition 0 (length text) rs"
    using pathToRanges_ok by fastforce
  with p show ?thesis
    by (auto simp: with_ranges_def)
qed

subsection \<open>Properties of the segmenter\<close>

text \<open>C2: for every set of rules and dictionaries and every text, the segmenter returns (no type error, no
  endless walk back), the pieces it returns are non-empty and their concatenation is the text: no
  character is lost, repeated or moved.\<close>

theorem cutIntoArray_lossless:
  "\<exists>ws. cutIntoArray self text = Some (Inr ws) \<and> concat ws = text \<and> [] \<notin> set ws"
proof -
  obtain rs where rs: "cutIntoArray self text = Some (Inr (map (range_text text) rs))"
    "range_partition 0 (length text) rs"
    using with_ranges_ok unfolding cutIntoArray_def by blast
  with range_partition_texts [OF rs(2) order_refl] show ?thesis
    by auto
qed

text \<open>the ranges returned are consecutive, start at 0 and end at the length of the text, and each carries
  the text between its ends unless the caller asked for no text.\<close>

theorem cutIntoRanges_partition:
  "\<exists>rs. cutIntoRanges self text noText =
       Some (Inr (map (\<lambda>r. (r, if noText then None else Some (range_text text r))) rs))
     \<and> range_partition 0 (length text) rs"
  using with_ranges_ok unfolding cutIntoRanges_def by blast

text \<open>the delimited text is the pieces of the array form joined by the delimiter, by default a bar.\<close>

theorem cut_joins_pieces:
  "\<exists>ws. cutIntoArray self text = Some (Inr ws) \<and> concat ws = text
     \<and> cut self text delimiter = Some (Inr (js_join (case delimiter of None \<Rightarrow> js ''|'' | Some d \<Rightarrow> d) ws))"
proof -
  obtain self' path where p: "buildPath self text = Inr (self', path)" "path_ok path" "length path = Suc (length text)"
    using buildPath_ok by blast
  then obtain rs where rs: "pathToRanges path = Some (Inr rs)" "range_partition 0 (length text) rs"
    using pathToRanges_ok by fastforce
  with p range_partition_texts [OF rs(2) order_refl] show ?thesis
    by (simp add: cutIntoArray_def cut_def with_ranges_def rangesToText_def)
qed

text \<open>C12: among the candidates for a position the selector returns one of them, and none has fewer unknown
  parts, or as many and a smaller merge weight, or both equal and fewer words.\<close>

theorem selectPath_optimal:
  assumes "paths \<noteq> []"
  shows "\<exists>x \<in> set paths. selectPath paths = Some x \<and>
    (\<forall>y \<in> set paths. pi_unk x < pi_unk y \<or> pi_unk x = pi_unk y \<and>
       (pi_mw x < pi_mw y \<or> pi_mw x = pi_mw y \<and> pi_w x \<le> pi_w y))"
proof -
  obtain x where x: "x \<in> set paths" "selectPath paths = Some x" "\<forall>y \<in> set paths. \<not> better y x"
    using selectPath_best [OF assms] by blast
  then have "\<forall>y \<in> set paths. pi_unk x < pi_unk y \<or> pi_unk x = pi_unk y \<and>
       (pi_mw x < pi_mw y \<or> pi_mw x = pi_mw y \<and> pi_w x \<le> pi_w y)"
    by (auto simp: better_def not_less)
  with x show ?thesis
    by blast
qed

definition path_costs :: "nat \<Rightarrow> nat \<Rightarrow> nat \<Rightarrow> path_info" where
  "path_costs unk mw w = \<lparr>pi_p = Some 0, pi_mw = mw, pi_w = w, pi_unk = unk, pi_type = ''DICT'', pi_merge = None\<rparr>"

theorem selectPath_optimal_witness:
  "selectPath [path_costs 1 0 1, path_costs 0 2 3, path_costs 0 1 4, path_costs 0 1 2] = Some (path_costs 0 1 2)"
  using selectPath_optimal [of "[path_costs 1 0 1, path_costs 0 2 3, path_costs 0 1 4, path_costs 0 1 2]"]
  by (simp add: path_costs_def)

text \<open>a segmenter set up from the bundled word list knows exactly the bundled lines of more than one
  character and the additional words, sorted and without repetitions, whatever dictionary paths the
  caller passes: the paths are collected and never read.\<close>

theorem dict_init_words:
  "sorted (dict_init default_text defaultDict dictPathFile withDefault additional)
   \<and> distinct (dict_init default_text defaultDict dictPathFile withDefault additional)
   \<and> set (dict_init default_text defaultDict dictPathFile withDefault additional)
     = {w \<in> set (js_split_runs is_newline [] default_text). length w > 1}
       \<union> set (case additional of None \<Rightarrow> [] | Some ws \<Rightarrow> ws)"
  by (auto simp: dict_init_def finalizeDict_def sorted_sortuniq distinct_sortuniq addFiles_def
      addWords_def Let_def split: option.splits path_arg.splits)

end
