(* ===== verification/Orama_Util.thy ===== *)
theory Orama_Util
  imports Complex_Main Prelude
begin

text \<open>
  The helper functions at the top of \<^verbatim>\<open>assets/js/search-orama.js\<close>: appending in
  chunks (\<^verbatim>\<open>f\<close>), the score comparator (\<^verbatim>\<open>y\<close>), the intersection of
  posting lists (\<^verbatim>\<open>b\<close>), reading document properties by path (\<^verbatim>\<open>S\<close>,
  \<^verbatim>\<open>w\<close>), erasing vector properties (\<^verbatim>\<open>O\<close>), distances (\<^verbatim>\<open>I\<close>),
  document identifiers (\<^verbatim>\<open>g\<close>, \<^verbatim>\<open>k\<close>) and schema validation
  (\<^verbatim>\<open>R\<close>). Document values are a datatype with the kinds JSON has; numbers are
  rationals, so rounding and NaN are outside the model.
\<close>

subsection \<open>Values\<close>

datatype jsval =
    JUndef
  | JNull
  | JBool bool
  | JNum rat
  | JStr jsstring
  | JArr "jsval list"
  | JObj "(jsstring \<times> jsval) list"

fun js_typeof :: "jsval \<Rightarrow> jsstring" where
  "js_typeof JUndef = js ''undefined''"
| "js_typeof JNull = js ''object''"
| "js_typeof (JBool b) = js ''boolean''"
| "js_typeof (JNum n) = js ''number''"
| "js_typeof (JStr s) = js ''string''"
| "js_typeof (JArr xs) = js ''object''"
| "js_typeof (JObj kvs) = js ''object''"

definition is_object :: "jsval \<Rightarrow> bool" where
  "is_object v = (case v of JNull \<Rightarrow> True | JArr xs \<Rightarrow> True | JObj kvs \<Rightarrow> True | _ \<Rightarrow> False)"

definition is_array :: "jsval \<Rightarrow> bool" where
  "is_array v = (case v of JArr xs \<Rightarrow> True | _ \<Rightarrow> False)"

definition is_num :: "jsval \<Rightarrow> bool" where
  "is_num v = (case v of JNum n \<Rightarrow> True | _ \<Rightarrow> False)"

definition is_str :: "jsval \<Rightarrow> bool" where
  "is_str v = (case v of JStr n \<Rightarrow> True | _ \<Rightarrow> False)"

text \<open>Property access \<^verbatim>\<open>v[n]\<close> for a string \<open>n\<close>; it throws on null and undefined.\<close>

definition js_prop :: "jsval \<Rightarrow> jsstring \<Rightarrow> jsval jsresult" where
  "js_prop v n =
     (case v of
        JUndef \<Rightarrow> Inl TypeError
      | JNull \<Rightarrow> Inl TypeError
      | JObj kvs \<Rightarrow> Inr (case map_get kvs n of None \<Rightarrow> JUndef | Some x \<Rightarrow> x)
      | JArr xs \<Rightarrow>
          Inr (if n = js ''length'' then JNum (of_nat (length xs))
               else (case find (\<lambda>(i, x). nat_toString i = n) (enumerate 0 xs) of
                       None \<Rightarrow> JUndef | Some (i, x) \<Rightarrow> x))
      | JStr s \<Rightarrow>
          Inr (if n = js ''length'' then JNum (of_nat (length s))
               else (case find (\<lambda>(i, x). nat_toString i = n) (enumerate 0 s) of
                       None \<Rightarrow> JUndef | Some (i, x) \<Rightarrow> JStr [x]))
      | _ \<Rightarrow> Inr JUndef)"

definition lift_err :: "'a jsresult \<Rightarrow> ('a \<Rightarrow> 'b jsresult) \<Rightarrow> 'b jsresult" where
  "lift_err r k = (case r of Inl e \<Rightarrow> Inl e | Inr x \<Rightarrow> k x)"

lemma lift_err_simps [simp]: "lift_err (Inl e) k = Inl e" "lift_err (Inr x) k = k x"
  by (simp_all add: lift_err_def)

subsection \<open>Appending in chunks\<close>

definition max_args :: nat where
  "max_args = 65535"

function pushAll_chunks :: "nat \<Rightarrow> 'a list \<Rightarrow> 'a list \<Rightarrow> nat \<Rightarrow> 'a list" where
  "pushAll_chunks u e t r =
     (if u = 0 then e
      else if r < length t then pushAll_chunks u (e @ take u (drop r t)) t (r + u) else e)"
  by pat_completeness auto
termination
  by (relation "measure (\<lambda>(u, e, t, r). length t - r)") auto

declare pushAll_chunks.simps [simp del]

definition pushAll :: "'a list \<Rightarrow> 'a list \<Rightarrow> 'a list" where
  "pushAll e t = (if length t < max_args then e @ t else pushAll_chunks max_args e t 0)"

lemma pushAll_chunks_append: "u \<noteq> 0 \<Longrightarrow> pushAll_chunks u e t r = e @ drop r t"
proof (induction u e t r rule: pushAll_chunks.induct)
  case (1 u e t r)
  have "take u (drop r t) @ drop (r + u) t = drop r t"
    by (metis add.commute append_take_drop_id drop_drop)
  with 1 show ?case
    by (subst pushAll_chunks.simps) simp
qed

lemma pushAll_append [simp]: "pushAll e t = e @ t"
  by (simp add: pushAll_def pushAll_chunks_append max_args_def)

subsection \<open>Comparing scored documents\<close>

definition byScore :: "nat \<times> rat \<Rightarrow> nat \<times> rat \<Rightarrow> rat" where
  "byScore e t = (if snd t = snd e then of_nat (fst e) - of_nat (fst t) else snd t - snd e)"

interpretation score: js_comparator byScore
  by unfold_locales (auto simp: byScore_def split: if_splits)

subsection \<open>Intersection of posting lists\<close>

fun intersect_swap :: "'a list \<Rightarrow> 'a list list \<Rightarrow> 'a list \<times> 'a list list" where
  "intersect_swap h [] = (h, [])"
| "intersect_swap h (x # xs) =
     (if length x < length h then (let (h', xs') = intersect_swap x xs in (h', h # xs'))
      else (let (h', xs') = intersect_swap h xs in (h', x # xs')))"

definition intersect_pass :: "nat \<Rightarrow> 'a list \<Rightarrow> ('a, nat) jsmap \<Rightarrow> ('a, nat) jsmap \<times> nat" where
  "intersect_pass n xs t =
     foldl (\<lambda>(t, r) x. if map_get t x = Some n then (map_set x (n + 1) t, r + 1) else (t, r)) (t, 0) xs"

fun intersect_count :: "nat \<Rightarrow> 'a list list \<Rightarrow> ('a, nat) jsmap \<Rightarrow> ('a, nat) jsmap option" where
  "intersect_count n [] t = Some t"
| "intersect_count n (x # xs) t =
     (let (t', r) = intersect_pass n x t in if r = 0 then None else intersect_count (n + 1) xs t')"

fun intersect_filter :: "nat \<Rightarrow> ('a, nat) jsmap \<Rightarrow> 'a list \<Rightarrow> 'a list" where
  "intersect_filter len t [] = []"
| "intersect_filter len t (x # xs) =
     (case map_get t x of
        None \<Rightarrow> intersect_filter len t xs
      | Some r \<Rightarrow>
          (if r = len then x # intersect_filter len (map_set x 0 t) xs
           else intersect_filter len (map_set x 0 t) xs))"

definition intersect :: "'a list list \<Rightarrow> 'a list" where
  "intersect e =
     (case e of
        [] \<Rightarrow> []
      | [x] \<Rightarrow> x
      | x # xs \<Rightarrow>
          (let (h, rest) = intersect_swap x xs; t = foldl (\<lambda>t n. map_set n 1 t) [] h
           in case intersect_count 1 rest t of
                None \<Rightarrow> []
              | Some t \<Rightarrow> intersect_filter (length e) t h))"

lemma intersect_swap_mset: "intersect_swap h xs = (h', xs') \<Longrightarrow> mset (h' # xs') = mset (h # xs)"
  by (induction h xs arbitrary: h' xs' rule: intersect_swap.induct) (auto simp: Let_def split: if_splits prod.splits)

lemma intersect_pass_spec:
  assumes "intersect_pass n xs t = (t', r)"
  shows "map_get t' x = (if map_get t x = Some n \<and> x \<in> set xs then Some (n + 1) else map_get t x)"
    "r = 0 \<longleftrightarrow> (\<forall>x \<in> set xs. map_get t x \<noteq> Some n)"
proof -
  let ?f = "\<lambda>(t, r::nat) x. if map_get t x = Some n then (map_set x (n + 1) t, r + 1) else (t, r)"
  have *: "map_get (fst (foldl ?f (t, r) xs)) x
      = (if map_get t x = Some n \<and> x \<in> set xs then Some (n + 1) else map_get t x)
    \<and> (snd (foldl ?f (t, r) xs) = 0 \<longleftrightarrow> r = 0 \<and> (\<forall>x \<in> set xs. map_get t x \<noteq> Some n))" for t r
    by (induction xs arbitrary: t r) auto
  show "map_get t' x = (if map_get t x = Some n \<and> x \<in> set xs then Some (n + 1) else map_get t x)"
    "r = 0 \<longleftrightarrow> (\<forall>x \<in> set xs. map_get t x \<noteq> Some n)"
    using *[of t 0] assms by (auto simp: intersect_pass_def)
qed

definition counted :: "nat \<Rightarrow> 'a set \<Rightarrow> ('a, nat) jsmap \<Rightarrow> bool" where
  "counted n A t = (\<forall>x. (map_get t x = Some n \<longleftrightarrow> x \<in> A) \<and> (\<forall>c. map_get t x = Some c \<longrightarrow> c \<le> n))"

lemma counted_pass:
  assumes "counted n A t" "intersect_pass n xs t = (t', r)"
  shows "counted (n + 1) (A \<inter> set xs) t'" "r = 0 \<longleftrightarrow> A \<inter> set xs = {}"
proof -
  have le: "map_get t x = Some c \<Longrightarrow> c \<le> n" and mem: "map_get t x = Some n \<longleftrightarrow> x \<in> A" for x c
    using assms(1) by (auto simp: counted_def)
  have ne: "map_get t x \<noteq> Some (Suc n)" for x
    using le [of x "Suc n"] by auto
  show "counted (n + 1) (A \<inter> set xs) t'"
    unfolding counted_def intersect_pass_spec(1) [OF assms(2)] using le mem ne by (auto simp: le_SucI)
  show "r = 0 \<longleftrightarrow> A \<inter> set xs = {}"
    unfolding intersect_pass_spec(2) [OF assms(2)] mem by blast
qed

lemma intersect_count_spec:
  "counted n A t \<Longrightarrow>
   (case intersect_count n xs t of
      None \<Rightarrow> A \<inter> \<Inter> (set ` set xs) = {}
    | Some t' \<Rightarrow> counted (n + length xs) (A \<inter> \<Inter> (set ` set xs)) t')"
proof (induction xs arbitrary: n A t)
  case (Cons x xs)
  obtain t' r where p: "intersect_pass n x t = (t', r)"
    by fastforce
  show ?case
    using Cons.IH [OF counted_pass(1) [OF Cons.prems p]] counted_pass(2) [OF Cons.prems p] p
    by (auto simp: Int_assoc split: option.splits)
qed simp

lemma intersect_filter_spec:
  "len \<noteq> 0 \<Longrightarrow> set (intersect_filter len t xs) = {x \<in> set xs. map_get t x = Some len} \<and> distinct (intersect_filter len t xs)"
  by (induction xs arbitrary: t) (auto split: option.splits)

lemma intersect_correct:
  assumes "2 \<le> length e"
  shows "set (intersect e) = \<Inter> (set ` set e)" "distinct (intersect e)"
proof -
  obtain x y ys where e: "e = x # y # ys"
    using assms by (metis One_nat_def Suc_1 Suc_le_length_iff)
  obtain h rest where sw: "intersect_swap x (y # ys) = (h, rest)"
    by fastforce
  have m: "set e = set (h # rest)" "length e = Suc (length rest)"
    using intersect_swap_mset [OF sw] e by (metis set_mset_mset, metis length_Cons size_mset)
  let ?t = "foldl (\<lambda>t n. map_set n (1::nat) t) [] h"
  have "map_get (foldl (\<lambda>t n. map_set n (1::nat) t) t0 h) z = (if z \<in> set h then Some 1 else map_get t0 z)" for t0 z
    by (induction h arbitrary: t0) auto
  then have c: "counted 1 (set h) ?t"
    by (simp add: counted_def)
  have i: "intersect e = (case intersect_count 1 rest ?t of None \<Rightarrow> [] | Some t \<Rightarrow> intersect_filter (length e) t h)"
    unfolding e by (simp add: intersect_def sw del: intersect_swap.simps)
  have "set (intersect e) = set h \<inter> \<Inter> (set ` set rest) \<and> distinct (intersect e)"
    using intersect_count_spec [OF c, of rest] intersect_filter_spec [of "length e"] m(2)
    unfolding i by (auto simp: counted_def split: option.splits)
  with m show "set (intersect e) = \<Inter> (set ` set e)" "distinct (intersect e)"
    by auto
qed

text \<open>The union of sets, whose first argument may be missing.\<close>

definition set_union :: "'a list option \<Rightarrow> 'a list \<Rightarrow> 'a list" where
  "set_union e t = (case e of None \<Rightarrow> set_new t | Some e \<Rightarrow> set_add_all e t)"

subsection \<open>Properties by path\<close>

text \<open>\<^verbatim>\<open>s.split(c)\<close> for a one-character separator; there is always a piece.\<close>

fun js_split_on :: "jschar \<Rightarrow> jsstring \<Rightarrow> jsstring \<Rightarrow> jsstring list" where
  "js_split_on c acc [] = [acc]"
| "js_split_on c acc (x # xs) = (if x = c then acc # js_split_on c [] xs else js_split_on c (acc @ [x]) xs)"

definition dot :: jschar where
  "dot = 46"

definition is_geopoint :: "jsval \<Rightarrow> bool" where
  "is_geopoint v =
     (case v of
        JObj kvs \<Rightarrow>
          (case (map_get kvs (js ''lat''), map_get kvs (js ''lon'')) of
             (Some (JNum a), Some (JNum b)) \<Rightarrow> True | _ \<Rightarrow> False)
      | _ \<Rightarrow> False)"

fun property_walk :: "jsval \<Rightarrow> jsstring list \<Rightarrow> jsval jsresult" where
  "property_walk i [] = Inr i"
| "property_walk i (s # rest) =
     lift_err (js_prop i s) (\<lambda>i.
       if is_object i then
         (if is_geopoint i then Inr i
          else if \<not> is_array i \<and> i \<noteq> JNull \<and> rest = [] then Inr JUndef
          else property_walk i rest)
       else if rest \<noteq> [] then Inr JUndef
       else Inr i)"

fun getDocumentProperties :: "jsval \<Rightarrow> jsstring list \<Rightarrow> (jsstring, jsval) jsmap \<Rightarrow> (jsstring, jsval) jsmap jsresult" where
  "getDocumentProperties e [] n = Inr n"
| "getDocumentProperties e (r # rs) n =
     lift_err (property_walk e (js_split_on dot [] r)) (\<lambda>i.
       getDocumentProperties e rs (if i \<noteq> JUndef then map_set r i n else n))"

definition getNested :: "jsval \<Rightarrow> jsstring \<Rightarrow> jsval jsresult" where
  "getNested e t =
     lift_err (getDocumentProperties e [t] []) (\<lambda>n. Inr (case map_get n t of None \<Rightarrow> JUndef | Some v \<Rightarrow> v))"

lemma getNested_walk: "getNested e t = property_walk e (js_split_on dot [] t)"
  by (cases "property_walk e (js_split_on dot [] t)") (auto simp: getNested_def)

lemma getDocumentProperties_get:
  "getDocumentProperties e rs n = Inr n' \<Longrightarrow> r \<in> set rs \<Longrightarrow>
   (case property_walk e (js_split_on dot [] r) of
      Inl x \<Rightarrow> False
    | Inr i \<Rightarrow> map_get n' r = (if i = JUndef then map_get n r else Some i))"
proof (induction rs arbitrary: n)
  case (Cons q rs)
  have keep: "r \<notin> set rs \<Longrightarrow> getDocumentProperties e rs m = Inr n' \<Longrightarrow> map_get n' r = map_get m r" for m
    by (induction rs arbitrary: m) (auto simp: lift_err_def split: sum.splits)
  show ?case
    using Cons keep
    by (cases "property_walk e (js_split_on dot [] q)"; cases "r \<in> set rs") (fastforce split: sum.splits if_splits)+
qed simp

subsection \<open>Erasing properties\<close>

text \<open>
  The path is created where it is missing or null; writing to a property of a string, number or
  boolean throws in strict mode. Arrays in the middle of a path are not modelled as receivers of
  named properties: \<open>None\<close> is that case.
\<close>

fun erase_path :: "jsval \<Rightarrow> jsstring list \<Rightarrow> jsval jsresult option" where
  "erase_path (JObj kvs) [] = Some (Inr (JObj kvs))"
| "erase_path (JObj kvs) [s] = Some (Inr (JObj (map_set s JNull kvs)))"
| "erase_path (JObj kvs) (s # t # rest) =
     (let o1 = (case map_get kvs s of None \<Rightarrow> JObj [] | Some JNull \<Rightarrow> JObj [] | Some JUndef \<Rightarrow> JObj [] | Some v \<Rightarrow> v)
      in case erase_path o1 (t # rest) of
           None \<Rightarrow> None
         | Some (Inl e) \<Rightarrow> Some (Inl e)
         | Some (Inr v) \<Rightarrow> Some (Inr (JObj (map_set s v kvs))))"
| "erase_path (JArr xs) p = None"
| "erase_path v p = Some (Inl TypeError)"

fun removeVectors :: "jsval \<Rightarrow> jsstring list \<Rightarrow> jsval jsresult option" where
  "removeVectors d [] = Some (Inr d)"
| "removeVectors d (t # ts) =
     (case erase_path d (js_split_on dot [] t) of
        None \<Rightarrow> None
      | Some (Inl e) \<Rightarrow> Some (Inl e)
      | Some (Inr d) \<Rightarrow> removeVectors d ts)"

subsection \<open>Distances and identifiers\<close>

definition distance_units :: "(jsstring, rat) jsmap" where
  "distance_units =
     [(js ''cm'', 1 / 100), (js ''m'', 1), (js ''km'', 1000), (js ''ft'', 3048 / 10000),
      (js ''yd'', 9144 / 10000), (js ''mi'', 1609344 / 1000)]"

definition convertDistanceToMeters :: "rat \<Rightarrow> jsstring \<Rightarrow> rat jsresult" where
  "convertDistanceToMeters e t =
     (case map_get distance_units t of
        None \<Rightarrow> Inl (JsError (js ''INVALID_DISTANCE_SUFFIX''))
      | Some n \<Rightarrow> Inr (e * n))"

definition uniqueId :: "jsstring \<Rightarrow> nat \<Rightarrow> nat \<times> jsstring" where
  "uniqueId s i = (i + 1, s @ [45] @ nat_toString i)"

definition js_truthy :: "jsval \<Rightarrow> bool" where
  "js_truthy v = (case v of JUndef \<Rightarrow> False | JNull \<Rightarrow> False | JBool b \<Rightarrow> b | JNum n \<Rightarrow> n \<noteq> 0 | JStr s \<Rightarrow> s \<noteq> [] | _ \<Rightarrow> True)"

definition getDocumentIndexId :: "jsstring \<Rightarrow> nat \<Rightarrow> jsval \<Rightarrow> (nat \<times> jsstring) jsresult" where
  "getDocumentIndexId s i e =
     lift_err (js_prop e (js ''id'')) (\<lambda>v.
       if js_truthy v then
         (case v of JStr x \<Rightarrow> Inr (i, x) | _ \<Rightarrow> Inl (JsError (js ''DOCUMENT_ID_MUST_BE_STRING'')))
       else Inr (uniqueId s i))"

lemma uniqueId_fresh: "i \<noteq> j \<Longrightarrow> snd (uniqueId s i) \<noteq> snd (uniqueId s j)"
  using nat_toString_inj by (auto simp: uniqueId_def)

subsection \<open>Schemas\<close>

datatype schema = TyName jsstring | TyObj "(jsstring \<times> schema) list"

definition digit :: "jschar \<Rightarrow> bool" where
  "digit c = (48 \<le> c \<and> c \<le> 57)"

definition isVectorType :: "jsstring \<Rightarrow> bool" where
  "isVectorType e =
     (let m = drop 7 e
      in startsWith e (js ''vector['') \<and> m \<noteq> [] \<and> last m = 93 \<and> butlast m \<noteq> [] \<and> list_all digit (butlast m))"

definition array_types :: "(jsstring, jsstring) jsmap" where
  "array_types =
     [(js ''string[]'', js ''string''), (js ''number[]'', js ''number''),
      (js ''boolean[]'', js ''boolean''), (js ''enum[]'', js ''enum'')]"

definition isArrayType :: "jsstring \<Rightarrow> bool" where
  "isArrayType e = (map_get array_types e \<noteq> None)"

definition getInnerType :: "jsstring \<Rightarrow> jsstring option" where
  "getInnerType e = map_get array_types e"

definition parse_digits :: "jsstring \<Rightarrow> nat" where
  "parse_digits s = foldl (\<lambda>a c. 10 * a + (c - 48)) 0 s"

text \<open>Only called on names that \<open>isVectorType\<close> accepts, so the text between the brackets is a number.\<close>

definition getVectorSize :: "jsstring \<Rightarrow> nat jsresult" where
  "getVectorSize e =
     (let t = parse_digits (butlast (drop 7 e))
      in if t \<le> 0 then Inl (JsError (js ''INVALID_VECTOR_SIZE'')) else Inr t)"

definition first_bad :: "jsstring \<Rightarrow> (jsval \<Rightarrow> bool) \<Rightarrow> jsval list \<Rightarrow> jsstring option" where
  "first_bad n P xs = map_option (\<lambda>(i, x). n @ [dot] @ nat_toString i) (find (\<lambda>(i, x). \<not> P x) (enumerate 0 xs))"

definition scalar_accepted :: "jsval \<Rightarrow> jsstring \<Rightarrow> bool jsresult" where
  "scalar_accepted t r =
     (if r = js ''geopoint'' \<and> is_object t then
        lift_err (js_prop t (js ''lon'')) (\<lambda>lon.
          lift_err (js_prop t (js ''lat'')) (\<lambda>lat. Inr (is_num lon \<and> is_num lat)))
      else Inr (r = js ''enum'' \<and> (is_str t \<or> is_num t)))"

definition validate_name :: "jsval \<Rightarrow> jsstring \<Rightarrow> jsstring \<Rightarrow> jsstring option jsresult" where
  "validate_name t n r =
     (if t = JUndef then Inr None
      else lift_err (scalar_accepted t r) (\<lambda>ok.
        if ok then Inr None
        else (case t of
                JArr xs \<Rightarrow>
                  if r = js ''enum[]'' then Inr (first_bad n (\<lambda>x. is_str x \<or> is_num x) xs)
                  else if isVectorType r then
                    lift_err (getVectorSize r) (\<lambda>e.
                      if length xs \<noteq> e then Inl (JsError (js ''INVALID_INPUT_VECTOR'')) else Inr None)
                  else if isArrayType r then
                    Inr (first_bad n (\<lambda>x. Some (js_typeof x) = getInnerType r) xs)
                  else Inr (if js_typeof t \<noteq> r then Some n else None)
              | _ \<Rightarrow>
                  if isVectorType r then
                    lift_err (getVectorSize r) (\<lambda>e.
                      lift_err (js_prop t (js ''length'')) (\<lambda>l. Inl (JsError (js ''INVALID_INPUT_VECTOR''))))
                  else if isArrayType r then Inr (Some n)
                  else Inr (if js_typeof t \<noteq> r then Some n else None))))"

function validateSchema :: "jsval \<Rightarrow> (jsstring \<times> schema) list \<Rightarrow> jsstring option jsresult" where
  "validateSchema e [] = Inr None"
| "validateSchema e ((n, TyName r) # rest) =
     lift_err (js_prop e n) (\<lambda>t.
       lift_err (validate_name t n r) (\<lambda>p.
         case p of Some p \<Rightarrow> Inr (Some p) | None \<Rightarrow> validateSchema e rest))"
| "validateSchema e ((n, TyObj r) # rest) =
     lift_err (js_prop e n) (\<lambda>t.
       if t = JUndef then validateSchema e rest
       else if \<not> js_truthy t \<or> \<not> is_object t then Inr (Some n)
       else lift_err (validateSchema t r) (\<lambda>p.
              case p of
                Some p \<Rightarrow> if p = [] then validateSchema e rest else Inr (Some (n @ [dot] @ p))
              | None \<Rightarrow> validateSchema e rest))"
  by pat_completeness auto
termination
  by (relation "measure (\<lambda>(e, kvs). size_list (size_prod (\<lambda>_. 0) size) kvs)") auto

text \<open>What a schema demands of a value, stated without the order of the checks.\<close>

definition field :: "jsval \<Rightarrow> jsstring \<Rightarrow> jsval" where
  "field e n = (case js_prop e n of Inl x \<Rightarrow> JUndef | Inr v \<Rightarrow> v)"

definition typed_name :: "jsval \<Rightarrow> jsstring \<Rightarrow> bool" where
  "typed_name t r =
     (t = JUndef \<or> js_typeof t = r
      \<or> r = js ''enum'' \<and> (is_str t \<or> is_num t)
      \<or> r = js ''geopoint'' \<and> is_object t \<and> t \<noteq> JNull \<and> is_num (field t (js ''lon'')) \<and> is_num (field t (js ''lat''))
      \<or> (case t of
            JArr xs \<Rightarrow>
              r = js ''enum[]'' \<and> (\<forall>x \<in> set xs. is_str x \<or> is_num x)
              \<or> isVectorType r \<and> getVectorSize r = Inr (length xs)
              \<or> isArrayType r \<and> r \<noteq> js ''enum[]'' \<and> (\<forall>x \<in> set xs. Some (js_typeof x) = getInnerType r)
          | _ \<Rightarrow> False))"

function typed :: "jsval \<Rightarrow> schema \<Rightarrow> bool" where
  "typed t (TyName r) = typed_name t r"
| "typed t (TyObj kvs) =
     (t = JUndef \<or> is_object t \<and> t \<noteq> JNull \<and> (\<forall>p \<in> set kvs. typed (field t (fst p)) (snd p)))"
  by pat_completeness auto
termination
proof (relation "measure (\<lambda>(t, s). size s)", goal_cases)
  case (2 t kvs p)
  then show ?case
    using size_list_snd [of p kvs size] by simp
qed simp

function named :: "schema \<Rightarrow> bool" where
  "named (TyName r) = True"
| "named (TyObj kvs) = (\<forall>p \<in> set kvs. fst p \<noteq> [] \<and> named (snd p))"
  by pat_completeness auto
termination
proof (relation "measure size", goal_cases)
  case (2 kvs p)
  then show ?case
    using size_list_snd [of p kvs size] by simp
qed simp

lemma js_distinct_names [simp]:
  "js ''object'' \<noteq> js ''enum''" "js ''object'' \<noteq> js ''geopoint''" "js ''object'' \<noteq> js ''enum[]''"
  "\<not> isArrayType (js ''geopoint'')" "\<not> isVectorType (js ''geopoint'')" "\<not> isArrayType (js ''enum'')" "\<not> isVectorType (js ''enum'')"
  "\<not> isVectorType (js ''enum[]'')" "isArrayType (js ''enum[]'')"
  "\<not> isVectorType (js ''object'')" "\<not> isArrayType (js ''object'')"
  by code_simp+

lemma typeof_plain [simp]: "\<not> isVectorType (js_typeof t)" "\<not> isArrayType (js_typeof t)" "js_typeof t \<noteq> js ''enum''"
  "js_typeof t \<noteq> js ''geopoint''" "js_typeof t \<noteq> js ''enum[]''"
  by (cases t; simp; code_simp)+

lemma isArrayType_vector: "isArrayType r \<Longrightarrow> \<not> isVectorType r"
  by (auto simp: isArrayType_def array_types_def split: if_splits) code_simp+

lemma first_bad_None: "first_bad n P xs = None \<longleftrightarrow> (\<forall>x \<in> set xs. P x)"
  unfolding set_enumerate_snd [of 0 xs, symmetric] by (auto simp: first_bad_def find_None_iff split: prod.splits)

lemma js_prop_object: "is_object e \<Longrightarrow> e \<noteq> JNull \<Longrightarrow> js_prop e n = Inr (field e n)"
  by (cases e) (auto simp: js_prop_def is_object_def field_def split: option.splits)

lemma scalar_accepted_spec:
  "scalar_accepted t r = Inr True \<longleftrightarrow> r = js ''enum'' \<and> (is_str t \<or> is_num t) \<or>
    r = js ''geopoint'' \<and> is_object t \<and> t \<noteq> JNull \<and> is_num (field t (js ''lon'')) \<and> is_num (field t (js ''lat''))"
  "(\<exists>e. scalar_accepted t r = Inl e) \<longleftrightarrow> r = js ''geopoint'' \<and> t = JNull"
proof -
  have ge: "js ''geopoint'' \<noteq> js ''enum''"
    by code_simp
  show "scalar_accepted t r = Inr True \<longleftrightarrow> r = js ''enum'' \<and> (is_str t \<or> is_num t) \<or>
    r = js ''geopoint'' \<and> is_object t \<and> t \<noteq> JNull \<and> is_num (field t (js ''lon'')) \<and> is_num (field t (js ''lat''))"
    using ge js_prop_object [of t] js_prop_object [of t]
    by (cases "t = JNull") (auto simp: scalar_accepted_def js_prop_def is_object_def)
  show "(\<exists>e. scalar_accepted t r = Inl e) \<longleftrightarrow> r = js ''geopoint'' \<and> t = JNull"
    using js_prop_object [of t]
    by (cases "t = JNull") (auto simp: scalar_accepted_def js_prop_def is_object_def)
qed

lemma validate_name_typed: "validate_name t n r = Inr None \<longleftrightarrow> typed_name t r"
proof (cases "scalar_accepted t r")
  case (Inl e)
  then have "r = js ''geopoint''" "t = JNull"
    using scalar_accepted_spec(2) [of t r] by auto
  then show ?thesis
    using Inl by (auto simp: validate_name_def typed_name_def is_str_def is_num_def is_object_def)
next
  case (Inr ok)
  show ?thesis
  proof (cases ok)
    case True
    with Inr scalar_accepted_spec(1) [of t r] show ?thesis
      by (auto simp: validate_name_def typed_name_def)
  next
    case False
    have na: "\<not> (r = js ''enum'' \<and> (is_str t \<or> is_num t))"
      "\<not> (r = js ''geopoint'' \<and> is_object t \<and> t \<noteq> JNull \<and> is_num (field t (js ''lon'')) \<and> is_num (field t (js ''lat'')))"
      using Inr False scalar_accepted_spec(1) [of t r] by auto
    have ty: "typed_name t r \<longleftrightarrow> t = JUndef \<or> js_typeof t = r \<or> (case t of
            JArr xs \<Rightarrow>
              r = js ''enum[]'' \<and> (\<forall>x \<in> set xs. is_str x \<or> is_num x)
              \<or> isVectorType r \<and> getVectorSize r = Inr (length xs)
              \<or> isArrayType r \<and> r \<noteq> js ''enum[]'' \<and> (\<forall>x \<in> set xs. Some (js_typeof x) = getInnerType r)
          | _ \<Rightarrow> False)"
      unfolding typed_name_def using na by blast
    show ?thesis
      unfolding ty using Inr False typeof_plain [of t] isArrayType_vector [of r]
      by (cases t)
        (auto simp: validate_name_def first_bad_None lift_err_def simp del: typeof_plain js_typeof.simps
          split: sum.splits)
  qed
qed

lemma validateSchema_named: "validateSchema e kvs = Inr (Some p) \<Longrightarrow> \<forall>q \<in> set kvs. fst q \<noteq> [] \<Longrightarrow> p \<noteq> []"
proof (induction e kvs rule: validateSchema.induct)
  case (2 e n r rest)
  have "validate_name t n r = Inr (Some p) \<Longrightarrow> n \<noteq> [] \<Longrightarrow> p \<noteq> []" for t
    by (auto simp: validate_name_def first_bad_def lift_err_def split: if_splits sum.splits jsval.splits)
  with 2 show ?case
    by (auto simp: lift_err_def split: sum.splits option.splits)
next
  case (3 e n r rest)
  then show ?case
    by (auto simp: lift_err_def split: sum.splits option.splits if_splits)
qed simp

text \<open>
  C33: A document passes schema validation exactly when every field the schema names is absent or
  has the type the schema gives it, at every depth.
\<close>

theorem validateSchema_correct:
  assumes "named (TyObj kvs)" "is_object e" "e \<noteq> JNull"
  shows "validateSchema e kvs = Inr None \<longleftrightarrow> typed e (TyObj kvs)"
proof -
  have "validateSchema e kvs = Inr None \<longleftrightarrow> (\<forall>p \<in> set kvs. typed (field e (fst p)) (snd p))"
    using assms
  proof (induction e kvs rule: validateSchema.induct)
    case (2 e n r rest)
    have "validateSchema e ((n, TyName r) # rest) = Inr None \<longleftrightarrow>
      validate_name (field e n) n r = Inr None \<and> validateSchema e rest = Inr None"
      by (cases "validate_name (field e n) n r")
        (auto simp: js_prop_object [OF "2.prems"(2,3)] split: option.splits)
    with 2 show ?case
      by (simp add: validate_name_typed)
  next
    case (3 e n r rest)
    let ?t = "field e n"
    have ne: "validateSchema ?t r \<noteq> Inr (Some [])"
      using validateSchema_named [of ?t r "[]"] "3.prems"(1) by auto
    have tr: "is_object ?t \<Longrightarrow> js_truthy ?t \<longleftrightarrow> ?t \<noteq> JNull"
      by (cases ?t) (auto simp: is_object_def js_truthy_def)
    have "validateSchema e ((n, TyObj r) # rest) = Inr None \<longleftrightarrow>
      (?t = JUndef \<or> is_object ?t \<and> ?t \<noteq> JNull \<and> validateSchema ?t r = Inr None) \<and> validateSchema e rest = Inr None"
      using ne tr by (cases "validateSchema ?t r")
        (auto simp: js_prop_object [OF "3.prems"(2,3)] split: option.splits)
    with 3 tr show ?case
      by auto
  qed simp
  with assms show ?thesis
    by (auto simp: is_object_def)
qed

theorem validateSchema_correct_witness:
  "validateSchema (JObj [(js ''title'', JStr (js ''x'')), (js ''n'', JObj [(js ''v'', JArr [JNum 1, JNum 2])])])
     [(js ''title'', TyName (js ''string'')), (js ''n'', TyObj [(js ''v'', TyName (js ''vector[2]''))])] = Inr None"
proof -
  let ?e = "JObj [(js ''title'', JStr (js ''x'')), (js ''n'', JObj [(js ''v'', JArr [JNum 1, JNum 2])])]"
  let ?s = "[(js ''title'', TyName (js ''string'')), (js ''n'', TyObj [(js ''v'', TyName (js ''vector[2]''))])]"
  have "named (TyObj ?s)" "is_object ?e" "?e \<noteq> JNull" "typed ?e (TyObj ?s)"
    by (code_simp, simp add: is_object_def, simp, code_simp)
  then show ?thesis
    using validateSchema_correct [of ?s ?e] by blast
qed

end
