(* ===== verification/Wordcut_Path.thy ===== *)
theory Wordcut_Path
  imports Orama_Util
begin

text \<open>
  The path module that \<^verbatim>\<open>assets/js/lunr/wordcut.js\<close> bundles (module 22): resolving, normalising,
  joining and comparing slash-separated paths, and their split into directory, name and extension.
  Arguments are strings; the working directory of the process is a parameter.
\<close>

subsection \<open>Dot segments\<close>

abbreviation slash :: jschar where
  "slash \<equiv> 47"

abbreviation one_dot :: jsstring where
  "one_dot \<equiv> [46]"

abbreviation two_dots :: jsstring where
  "two_dots \<equiv> [46, 46]"

fun normalize_loop :: "nat \<Rightarrow> jsstring list \<Rightarrow> nat \<Rightarrow> jsstring list \<times> nat" where
  "normalize_loop 0 parts up = (parts, up)"
| "normalize_loop (Suc i) parts up =
     (let last = parts ! i; removed = take i parts @ drop (Suc i) parts
      in if last = one_dot then normalize_loop i removed up
         else if last = two_dots then normalize_loop i removed (up + 1)
         else if 0 < up then normalize_loop i removed (up - 1)
         else normalize_loop i parts up)"

definition normalizeArray :: "jsstring list \<Rightarrow> bool \<Rightarrow> jsstring list" where
  "normalizeArray parts allowAboveRoot =
     (let (parts, up) = normalize_loop (length parts) parts 0
      in if allowAboveRoot then replicate up two_dots @ parts else parts)"

subsection \<open>Paths\<close>

fun join_slash :: "jsstring list \<Rightarrow> jsstring" where
  "join_slash [] = []"
| "join_slash [p] = p"
| "join_slash (p # ps) = p @ slash # join_slash ps"

definition split_slash :: "jsstring \<Rightarrow> jsstring list" where
  "split_slash p = js_split_on slash [] p"

definition components_of :: "jsstring \<Rightarrow> jsstring list" where
  "components_of p = filter (\<lambda>x. x \<noteq> []) (split_slash p)"

definition isAbsolute :: "jsstring \<Rightarrow> bool" where
  "isAbsolute p = (p \<noteq> [] \<and> hd p = slash)"

fun resolve_loop :: "jsstring list \<Rightarrow> jsstring \<Rightarrow> jsstring \<times> bool" where
  "resolve_loop [] r = (r, False)"
| "resolve_loop (p # ps) r =
     (if p = [] then resolve_loop ps r
      else if isAbsolute p then (p @ slash # r, True)
      else resolve_loop ps (p @ slash # r))"

definition resolve :: "jsstring \<Rightarrow> jsstring list \<Rightarrow> jsstring" where
  "resolve cwd args =
     (let (r, absolute) = resolve_loop (rev args @ [cwd]) [];
          p = (if absolute then [slash] else []) @ join_slash (normalizeArray (components_of r) (\<not> absolute))
      in if p = [] then one_dot else p)"

definition normalize :: "jsstring \<Rightarrow> jsstring" where
  "normalize path =
     (let absolute = isAbsolute path; trailingSlash = (path \<noteq> [] \<and> last path = slash);
          p = join_slash (normalizeArray (components_of path) (\<not> absolute));
          p = (if p = [] \<and> \<not> absolute then one_dot else p);
          p = (if p \<noteq> [] \<and> trailingSlash then p @ [slash] else p)
      in (if absolute then [slash] else []) @ p)"

definition path_join :: "jsstring list \<Rightarrow> jsstring" where
  "path_join paths = normalize (join_slash (filter (\<lambda>p. p \<noteq> []) paths))"

definition trim_parts :: "jsstring list \<Rightarrow> jsstring list" where
  "trim_parts arr =
     (let start = length (takeWhile (\<lambda>x. x = []) arr); after = length (takeWhile (\<lambda>x. x = []) (rev arr))
      in if start = length arr then [] else take (length arr - after - start - start) (drop start arr))"

fun same_parts :: "jsstring list \<Rightarrow> jsstring list \<Rightarrow> nat" where
  "same_parts (x # xs) (y # ys) = (if x = y then Suc (same_parts xs ys) else 0)"
| "same_parts xs ys = 0"

definition relative :: "jsstring \<Rightarrow> jsstring \<Rightarrow> jsstring \<Rightarrow> jsstring" where
  "relative cwd from to =
     (let fromParts = trim_parts (split_slash (drop 1 (resolve cwd [from])));
          toParts = trim_parts (split_slash (drop 1 (resolve cwd [to])));
          n = same_parts fromParts toParts
      in join_slash (replicate (length fromParts - n) two_dots @ drop n toParts))"

subsection \<open>Directory, name and extension\<close>

text \<open>
  The regular expression tries the shortest directory first; for each, the name is one or two dots, else
  the shortest run without a slash, else empty; the extension is a dot with the longest run without dots
  and slashes, else empty; what is left must be slashes.
\<close>

definition ext_candidates :: "jsstring \<Rightarrow> nat list" where
  "ext_candidates r =
     (case r of
        c # cs \<Rightarrow> if c = 46 then rev [1..<Suc (Suc (length (takeWhile (\<lambda>x. x \<noteq> 46 \<and> x \<noteq> slash) cs)))] @ [0] else [0]
      | [] \<Rightarrow> [0])"

definition base_candidates :: "jsstring \<Rightarrow> nat list" where
  "base_candidates r =
     (if take 2 r = two_dots then [2] else []) @ (if take 1 r = one_dot then [1] else []) @
     [1..<Suc (length (takeWhile (\<lambda>x. x \<noteq> slash) r))] @ [0]"

definition match_tail :: "jsstring \<Rightarrow> (nat \<times> nat) option" where
  "match_tail r =
     find (\<lambda>(b, e). list_all (\<lambda>x. x = slash) (drop (b + e) r))
       (concat (map (\<lambda>b. map (\<lambda>e. (b, e)) (ext_candidates (drop b r))) (base_candidates r)))"

record path_parts =
  pp_root :: jsstring
  pp_dir :: jsstring
  pp_base :: jsstring
  pp_ext :: jsstring

definition splitPath :: "jsstring \<Rightarrow> path_parts option" where
  "splitPath filename =
     (let root = (if isAbsolute filename then [slash] else []); r = drop (length root) filename
      in case find (\<lambda>d. match_tail (drop d r) \<noteq> None) [0..<Suc (length r)] of
           None \<Rightarrow> None
         | Some d \<Rightarrow>
             (case match_tail (drop d r) of
                None \<Rightarrow> None
              | Some (b, e) \<Rightarrow>
                  Some \<lparr>pp_root = root, pp_dir = take d r, pp_base = take (b + e) (drop d r), pp_ext = take e (drop (d + b) r)\<rparr>))"

definition dirname :: "jsstring \<Rightarrow> jsstring option" where
  "dirname path =
     map_option (\<lambda>r. if pp_root r = [] \<and> pp_dir r = [] then one_dot else pp_root r @ butlast (pp_dir r)) (splitPath path)"

definition basename :: "jsstring \<Rightarrow> jsstring \<Rightarrow> jsstring option" where
  "basename path ext =
     map_option (\<lambda>r.
       let f = pp_base r
       in if ext \<noteq> [] \<and> drop (length f - length ext) f = ext then take (length f - length ext) f else f) (splitPath path)"

definition extname :: "jsstring \<Rightarrow> jsstring option" where
  "extname path = map_option pp_ext (splitPath path)"

subsection \<open>Normal forms of lists of segments\<close>

definition clean :: "jsstring list \<Rightarrow> bool" where
  "clean ps = list_all (\<lambda>p. p \<noteq> [] \<and> p \<noteq> one_dot \<and> p \<noteq> two_dots \<and> slash \<notin> set p) ps"

definition segment_step :: "jsstring \<Rightarrow> jsstring list \<times> nat \<Rightarrow> jsstring list \<times> nat" where
  "segment_step p = (\<lambda>(acc, up).
     if p = one_dot then (acc, up) else if p = two_dots then (acc, up + 1)
     else if 0 < up then (acc, up - 1) else (p # acc, up))"

text \<open>The loop works from the last segment to the first.\<close>

lemma normalize_loop_foldr:
  "normalize_loop (length xs) (xs @ ys) up = (let (acc, u) = foldr segment_step xs (ys, up) in (acc, u))"
proof (induction xs arbitrary: ys up rule: rev_induct)
  case (snoc x xs)
  have "(xs @ x # ys) ! length xs = x" "take (length xs) (xs @ x # ys) @ drop (Suc (length xs)) (xs @ x # ys) = xs @ ys"
    by simp_all
  with snoc.IH [of ys] snoc.IH [of "x # ys"] show ?case
    by (simp add: Let_def segment_step_def del: nth_append_length)
qed simp

lemma normalizeArray_foldr:
  "normalizeArray xs b = (let (acc, u) = foldr segment_step xs ([], 0) in if b then replicate u two_dots @ acc else acc)"
  using normalize_loop_foldr [of xs "[]" 0] by (simp add: normalizeArray_def Let_def split: prod.splits)

text \<open>Segments to the right that go up take away segments to the left.\<close>

lemma foldr_up:
  assumes "foldr segment_step xs ([], 0) = (f, u)"
  shows "foldr segment_step xs (d, k) = (take (length f - k) f @ d, u + (k - length f))"
  using assms
proof (induction xs arbitrary: f u)
  case (Cons x xs)
  obtain g v where g: "foldr segment_step xs ([], 0) = (g, v)"
    by fastforce
  note IH = Cons.IH [OF g]
  have f: "segment_step x (g, v) = (f, u)"
    using Cons.prems g by simp
  show ?case
  proof (cases "x = one_dot \<or> x = two_dots")
    case True
    then show ?thesis
      using f IH by (auto simp: segment_step_def)
  next
    case False
    show ?thesis
    proof (cases "0 < v")
      case True
      then show ?thesis
        using f IH False by (auto simp: segment_step_def)
    next
      case v: False
      then have "f = x # g" "u = 0"
        using f False by (auto simp: segment_step_def)
      then show ?thesis
        using IH False v by (auto simp: segment_step_def Suc_diff_le)
    qed
  qed
qed simp

lemma foldr_clean: "clean xs \<Longrightarrow> foldr segment_step xs (d, 0) = (xs @ d, 0)"
  by (induction xs) (auto simp: clean_def segment_step_def)

lemma foldr_dots: "foldr segment_step (replicate k two_dots) (d, n) = (d, n + k)"
  by (induction k) (simp_all add: segment_step_def)

lemma clean_foldr: "list_all (\<lambda>p. p \<noteq> [] \<and> slash \<notin> set p) xs \<Longrightarrow> clean d \<Longrightarrow> clean (fst (foldr segment_step xs (d, k)))"
proof (induction xs)
  case (Cons x xs)
  obtain acc up where a: "foldr segment_step xs (d, k) = (acc, up)"
    by fastforce
  then have "clean acc" "foldr segment_step (x # xs) (d, k) = segment_step x (acc, up)"
    using Cons by simp_all
  moreover have "clean (fst (segment_step x (acc, up)))" if "clean acc"
    using that Cons.prems(1) by (auto simp: segment_step_def clean_def)
  ultimately show ?case
    by (simp del: foldr.simps)
qed simp

lemma normalizeArray_simps:
  assumes "foldr segment_step xs ([], 0) = (f, u)"
  shows "normalizeArray xs True = replicate u two_dots @ f" "normalizeArray xs False = f"
  using assms by (simp_all add: normalizeArray_foldr)

lemma normalizeArray_again:
  assumes "list_all (\<lambda>p. p \<noteq> [] \<and> slash \<notin> set p) xs"
  shows "normalizeArray (normalizeArray xs b) b = normalizeArray xs b"
proof -
  obtain f u where f: "foldr segment_step xs ([], 0) = (f, u)"
    by fastforce
  have "clean f"
    using clean_foldr [OF assms, of "[]" 0] f by (simp add: clean_def)
  then have "foldr segment_step f ([], 0) = (f, 0)" "foldr segment_step (replicate u two_dots @ f) ([], 0) = (f, u)"
    using foldr_clean [of f "[]"] foldr_dots [of u f 0] by simp_all
  then show ?thesis
    using normalizeArray_simps [OF f] by (cases b) (simp_all add: normalizeArray_simps)
qed

subsection \<open>Segments of strings\<close>

definition segments :: "jsstring list \<Rightarrow> bool" where
  "segments ps = list_all (\<lambda>p. p \<noteq> [] \<and> slash \<notin> set p) ps"

lemma clean_segments: "clean ps \<Longrightarrow> segments ps"
  by (auto simp: clean_def segments_def list_all_iff)

lemma split_slash_acc: "slash \<notin> set acc \<Longrightarrow> \<forall>x \<in> set (js_split_on slash acc p). slash \<notin> set x"
proof (induction p arbitrary: acc)
  case (Cons c p)
  show ?case
    using Cons.IH [of "[]"] Cons.IH [of "acc @ [c]"] Cons.prems by simp
qed simp

lemma components_segments: "segments (components_of p)"
  using split_slash_acc [of "[]"] by (auto simp: segments_def components_of_def split_slash_def list_all_iff)

lemma split_slash_append: "js_split_on slash acc (p @ slash # q) = js_split_on slash acc p @ js_split_on slash [] q"
  by (induction p arbitrary: acc) simp_all

lemma components_append: "components_of (p @ slash # q) = components_of p @ components_of q"
  by (simp add: components_of_def split_slash_def split_slash_append)

lemma split_slash_word: "slash \<notin> set p \<Longrightarrow> js_split_on slash acc p = [acc @ p]"
  by (induction p arbitrary: acc) auto

lemma split_slash_join: "segments ps \<Longrightarrow> ps \<noteq> [] \<Longrightarrow> split_slash (join_slash ps) = ps"
  unfolding split_slash_def
  by (induction ps rule: join_slash.induct) (simp_all add: segments_def split_slash_word split_slash_append)

lemma components_Nil [simp]: "components_of [] = []"
  by (simp add: components_of_def split_slash_def)

lemma components_join: "segments ps \<Longrightarrow> components_of (join_slash ps) = ps"
proof (cases "ps = []")
  case False
  assume "segments ps"
  with False split_slash_join show ?thesis
    by (auto simp: components_of_def segments_def list_all_iff intro!: filter_True)
qed simp

lemma components_slash: "components_of (slash # p) = components_of p" "components_of (p @ [slash]) = components_of p"
  using components_append [of "[]" p] components_append [of p "[]"] by simp_all

lemma join_slash_ends:
  "segments ps \<Longrightarrow> ps \<noteq> [] \<Longrightarrow> join_slash ps \<noteq> [] \<and> hd (join_slash ps) \<noteq> slash \<and> last (join_slash ps) \<noteq> slash"
proof (induction ps rule: join_slash.induct)
  case (2 p)
  then show ?case
    by (auto simp: segments_def) (metis list.set_sel(1), metis last_in_set)
next
  case (3 p q ps)
  then have "hd p \<noteq> slash" "p \<noteq> []"
    by (auto simp: segments_def) (metis list.set_sel(1))
  with 3 show ?case
    by (auto simp: segments_def)
qed simp

lemma normalizeArray_segments: "segments xs \<Longrightarrow> segments (normalizeArray xs b)"
proof -
  assume xs: "segments xs"
  obtain f u where f: "foldr segment_step xs ([], 0) = (f, u)"
    by fastforce
  have "clean f"
    using clean_foldr [of xs "[]" 0] xs f by (simp add: clean_def segments_def)
  from clean_segments [OF this] show ?thesis
    using normalizeArray_simps [OF f] by (cases b) (auto simp: segments_def list_all_iff)
qed

subsection \<open>Properties\<close>

text \<open>
  Normalising a path is idempotent.
\<close>

theorem normalize_idempotent: "normalize (normalize path) = normalize path"
proof -
  define a where "a = isAbsolute path"
  define t where "t = (path \<noteq> [] \<and> last path = slash)"
  define ns where "ns = normalizeArray (components_of path) (\<not> a)"
  have segs: "segments ns"
    unfolding ns_def by (rule normalizeArray_segments [OF components_segments])
  have again: "normalizeArray ns (\<not> a) = ns"
    using normalizeArray_again components_segments unfolding ns_def segments_def by blast
  note run = normalize_def [of path, unfolded Let_def, folded a_def t_def, folded ns_def]
  show ?thesis
  proof (cases "ns = []")
    case True
    have "normalize path \<in> {[slash], one_dot, one_dot @ [slash]}"
      unfolding run using True by simp
    moreover have "list_all (\<lambda>p. normalize p = p) [[slash], one_dot, one_dot @ [slash]]"
      by code_simp
    ultimately show ?thesis
      by auto
  next
    case False
    note ends = join_slash_ends [OF segs False]
    have run: "normalize path = (if a then [slash] else []) @ join_slash ns @ (if t then [slash] else [])"
      unfolding run using ends by simp
    have comps: "components_of (normalize path) = ns"
      unfolding run using components_join [OF segs] by (simp add: components_slash)
    have absolute: "isAbsolute (normalize path) = a"
      unfolding run using ends by (simp add: isAbsolute_def)
    have slashes: "(normalize path \<noteq> [] \<and> last (normalize path) = slash) = t"
      unfolding run using ends by simp
    show ?thesis
      unfolding normalize_def [of "normalize path"] Let_def comps absolute slashes again using ends by (simp add: run)
  qed
qed

text \<open>The segments of an absolute path.\<close>

definition resolved :: "jsstring \<Rightarrow> jsstring \<Rightarrow> jsstring list" where
  "resolved cwd p = (if isAbsolute p then components_of p else components_of cwd @ components_of p)"

lemma normalized_clean: "segments xs \<Longrightarrow> clean (normalizeArray xs False)"
proof -
  assume xs: "segments xs"
  obtain f u where f: "foldr segment_step xs ([], 0) = (f, u)"
    by fastforce
  show ?thesis
    using clean_foldr [of xs "[]" 0] xs f by (simp add: normalizeArray_simps [OF f] segments_def clean_def)
qed

lemma resolved_segments: "segments (resolved cwd p)"
  using components_segments by (simp add: resolved_def segments_def)

lemma resolve_absolute:
  assumes "isAbsolute cwd"
  shows "resolve cwd [p] = slash # join_slash (normalizeArray (resolved cwd p) False)"
proof -
  have "resolve_loop (rev [p] @ [cwd]) [] = (if p = [] then cwd @ [slash] else if isAbsolute p then p @ [slash] else cwd @ slash # p @ [slash], True)"
    using assms by (auto simp: isAbsolute_def)
  then show ?thesis
    by (auto simp: resolve_def resolved_def components_append components_slash isAbsolute_def)
qed

lemma resolve_two:
  assumes "isAbsolute cwd" "r \<noteq> []" "\<not> isAbsolute r"
  shows "resolve cwd [p, r] = slash # join_slash (normalizeArray (resolved cwd p @ components_of r) False)"
proof -
  have "resolve_loop (rev [p, r] @ [cwd]) [] =
      (if p = [] then cwd @ slash # r @ [slash] else if isAbsolute p then p @ slash # r @ [slash] else cwd @ slash # p @ slash # r @ [slash], True)"
    using assms by (auto simp: isAbsolute_def)
  then show ?thesis
    by (auto simp: resolve_def resolved_def components_append components_slash isAbsolute_def)
qed

lemma trim_clean: "clean ps \<Longrightarrow> trim_parts (split_slash (join_slash ps)) = ps"
proof (cases "ps = []")
  case True
  then show ?thesis
    by (simp add: trim_parts_def split_slash_def)
next
  case False
  assume c: "clean ps"
  have "takeWhile (\<lambda>x. x = []) ps = []" "takeWhile (\<lambda>x. x = []) (rev ps) = []"
    using c False by (auto simp: takeWhile_eq_Nil_iff clean_def list_all_iff hd_rev)
  then show ?thesis
    using split_slash_join [OF clean_segments [OF c] False] False by (simp add: trim_parts_def)
qed

lemma same_parts_take: "take (same_parts xs ys) xs = take (same_parts xs ys) ys \<and> same_parts xs ys \<le> length xs"
  by (induction xs ys rule: same_parts.induct) auto

lemma normalizeArray_up:
  assumes "clean d"
  shows "normalizeArray (xs @ replicate k two_dots @ d) False = take (length (normalizeArray xs False) - k) (normalizeArray xs False) @ d"
proof -
  obtain f u where f: "foldr segment_step xs ([], 0) = (f, u)"
    by fastforce
  have "foldr segment_step (xs @ replicate k two_dots @ d) ([], 0) = (take (length f - k) f @ d, u + (k - length f))"
    using foldr_clean [OF assms, of "[]"] foldr_dots [of k d 0] foldr_up [OF f, of d k] by simp
  from normalizeArray_simps(2) [OF this] show ?thesis
    by (simp add: normalizeArray_simps(2) [OF f])
qed

text \<open>
  C17: Under an absolute working directory the relative path from one path to another leads there: resolved
  against the first path it gives what the second path resolves to.
\<close>

theorem resolve_relative:
  assumes "isAbsolute cwd"
  shows "resolve cwd [from, relative cwd from to] = resolve cwd [to]"
proof -
  let ?f = "normalizeArray (resolved cwd from) False" and ?t = "normalizeArray (resolved cwd to) False"
  let ?n = "same_parts ?f ?t"
  let ?ps = "replicate (length ?f - ?n) two_dots @ drop ?n ?t"
  have clean: "clean ?f" "clean ?t"
    by (simp_all add: normalized_clean resolved_segments)
  have rel: "relative cwd from to = join_slash ?ps"
    by (simp add: relative_def resolve_absolute [OF assms] trim_clean clean Let_def)
  have n: "take ?n ?f = take ?n ?t" "?n \<le> length ?f"
    using same_parts_take by blast+
  have d: "clean (drop ?n ?t)"
    using clean(2) by (auto simp: clean_def list_all_iff dest: in_set_dropD)
  then have segs: "segments ?ps"
    using clean_segments [OF d] by (auto simp: segments_def list_all_iff)
  show ?thesis
  proof (cases "?ps = []")
    case True
    then have "?f = ?t"
      using n by simp
    moreover have "resolve cwd [from, relative cwd from to] = resolve cwd [from]"
      using True by (simp add: rel resolve_def)
    ultimately show ?thesis
      by (simp add: resolve_absolute [OF assms])
  next
    case False
    have "relative cwd from to \<noteq> []" "\<not> isAbsolute (relative cwd from to)"
      using join_slash_ends [OF segs False] unfolding rel by (auto simp: isAbsolute_def)
    then have "resolve cwd [from, relative cwd from to] = slash # join_slash (normalizeArray (resolved cwd from @ ?ps) False)"
      using components_join [OF segs] by (simp add: resolve_two [OF assms] rel)
    also have "normalizeArray (resolved cwd from @ ?ps) False = take (length ?f - (length ?f - ?n)) ?f @ drop ?n ?t"
      by (rule normalizeArray_up [OF d])
    also have "\<dots> = ?t"
      using n by simp
    finally show ?thesis
      by (simp add: resolve_absolute [OF assms])
  qed
qed

theorem resolve_relative_witness:
  "resolve (js ''/site'') [js ''docs/a'', relative (js ''/site'') (js ''docs/a'') (js ''img/../css'')] = js ''/site/css'' \<and>
   relative (js ''/site'') (js ''docs/a'') (js ''img/../css'') = js ''../../css''"
proof -
  have "isAbsolute (js ''/site'')" "resolve (js ''/site'') [js ''img/../css''] = js ''/site/css''"
      "relative (js ''/site'') (js ''docs/a'') (js ''img/../css'') = js ''../../css''"
    by code_simp+
  with resolve_relative [of "js ''/site''" "js ''docs/a''" "js ''img/../css''"] show ?thesis
    by simp
qed

text \<open>
  The parts of a path, and slashes at its end, joined are the path; the name ends with the extension.
\<close>

theorem splitPath_parts:
  assumes "splitPath p = Some r"
  shows "\<exists>k. p = pp_root r @ pp_dir r @ pp_base r @ replicate k slash" "\<exists>b. pp_base r = b @ pp_ext r"
proof -
  define root where "root = (if isAbsolute p then [slash] else [])"
  define q where "q = drop (length root) p"
  have p: "p = root @ q"
    by (cases p) (auto simp: root_def q_def isAbsolute_def)
  obtain d b e where d: "match_tail (drop d q) = Some (b, e)"
    "r = \<lparr>pp_root = root, pp_dir = take d q, pp_base = take (b + e) (drop d q), pp_ext = take e (drop (d + b) q)\<rparr>"
    using assms unfolding splitPath_def Let_def root_def [symmetric] q_def [symmetric] by (auto split: option.splits)
  have "list_all (\<lambda>x. x = slash) (drop (b + e) (drop d q))"
    using d(1) by (auto simp: match_tail_def find_Some_iff)
  then have "drop (b + e) (drop d q) = replicate (length (drop (b + e) (drop d q))) slash"
    by (intro replicate_length_same [symmetric]) (simp add: list_all_iff)
  moreover have "q = take d q @ take (b + e) (drop d q) @ drop (b + e) (drop d q)"
    by (simp only: append_take_drop_id)
  ultimately show "\<exists>k. p = pp_root r @ pp_dir r @ pp_base r @ replicate k slash"
    using p d(2) by auto
  show "\<exists>b. pp_base r = b @ pp_ext r"
    using d(2) by (simp add: take_add add.commute)
qed

end
