(* ===== verification/Orama_Store.thy ===== *)
theory Orama_Store
  imports Prelude
begin

text \<open>
  The two stores at the bottom of the search engine bundled in
  \<^verbatim>\<open>assets/js/search-orama.js\<close>: the table that numbers document identifiers
  (\<^verbatim>\<open>V\<close>, \<^verbatim>\<open>F\<close>, \<^verbatim>\<open>j\<close>, \<^verbatim>\<open>W\<close>) and the document store
  (\<^verbatim>\<open>$\<close>, \<^verbatim>\<open>G\<close>, \<^verbatim>\<open>J\<close>, \<^verbatim>\<open>H\<close>, \<^verbatim>\<open>K\<close>,
  \<^verbatim>\<open>q\<close>, \<^verbatim>\<open>X\<close>, \<^verbatim>\<open>Z\<close>). The numbering is a bijection between the
  identifiers seen and \<open>1..n\<close>; the locale \<open>id_numbering\<close> is what the rest of the engine
  uses of it.
\<close>

subsection \<open>The identifier table\<close>

record id_store =
  idToInternalId :: "(jsstring, nat) jsmap"
  internalIdToId :: "jsstring list"

datatype doc_id = IdString jsstring | IdNumber nat

definition id_store_empty :: id_store where
  "id_store_empty = \<lparr>idToInternalId = [], internalIdToId = []\<rparr>"

definition getInternalId_string :: "id_store \<Rightarrow> jsstring \<Rightarrow> id_store \<times> nat" where
  "getInternalId_string e t =
     (case map_get (idToInternalId e) t of
        Some n \<Rightarrow>
          if n \<noteq> 0 then (e, n)
          else (let r = length (idToInternalId e) + 1
                in (\<lparr>idToInternalId = map_set t r (idToInternalId e), internalIdToId = internalIdToId e @ [t]\<rparr>, r))
      | None \<Rightarrow>
          (let r = length (idToInternalId e) + 1
           in (\<lparr>idToInternalId = map_set t r (idToInternalId e), internalIdToId = internalIdToId e @ [t]\<rparr>, r)))"

fun getInternalDocumentId :: "id_store \<Rightarrow> doc_id \<Rightarrow> id_store \<times> nat" where
  "getInternalDocumentId e (IdString t) = getInternalId_string e t"
| "getInternalDocumentId e (IdNumber t) =
     (if t > length (internalIdToId e) then getInternalId_string e (nat_toString t) else (e, t))"

definition getDocumentIdFromInternalId :: "id_store \<Rightarrow> nat \<Rightarrow> jsstring option jsresult" where
  "getDocumentIdFromInternalId e t =
     (if length (internalIdToId e) < t then Inl (JsError (js ''Invalid internalId '' @ nat_toString t))
      else if t = 0 then Inr None
      else Inr (Some (internalIdToId e ! (t - 1))))"

definition id_store_save :: "id_store \<Rightarrow> jsstring list" where
  "id_store_save e = internalIdToId e"

definition id_store_load :: "jsstring list \<Rightarrow> id_store" where
  "id_store_load n =
     foldl (\<lambda>e (t, r). \<lparr>idToInternalId = map_set r (t + 1) (idToInternalId e),
                        internalIdToId = internalIdToId e @ [r]\<rparr>)
       id_store_empty (enumerate 0 n)"

subsection \<open>The numbering is a bijection\<close>

definition ids_ok :: "id_store \<Rightarrow> bool" where
  "ids_ok e \<longleftrightarrow> distinct (internalIdToId e)
     \<and> idToInternalId e = zip (internalIdToId e) (map Suc [0..<length (internalIdToId e)])"

lemma ids_ok_empty [simp]: "ids_ok id_store_empty"
  by (simp add: ids_ok_def id_store_empty_def)

lemma ids_ok_get:
  assumes "ids_ok e"
  shows "map_get (idToInternalId e) t = Some n \<longleftrightarrow>
    0 < n \<and> n \<le> length (internalIdToId e) \<and> internalIdToId e ! (n - 1) = t"
proof
  assume *: "0 < n \<and> n \<le> length (internalIdToId e) \<and> internalIdToId e ! (n - 1) = t"
  have "map_get (zip (internalIdToId e) (map Suc [0..<length (internalIdToId e)])) (internalIdToId e ! (n - 1))
      = Some (map Suc [0..<length (internalIdToId e)] ! (n - 1))"
    by (rule map_get_zip_distinct) (use assms * in \<open>auto simp: ids_ok_def\<close>)
  moreover have "map Suc [0..<length (internalIdToId e)] ! (n - 1) = n"
    using * by (subst nth_map) auto
  ultimately have "map_get (idToInternalId e) (internalIdToId e ! (n - 1)) = Some n"
    using assms by (simp add: ids_ok_def)
  with * show "map_get (idToInternalId e) t = Some n"
    by simp
next
  assume "map_get (idToInternalId e) t = Some n"
  then have "(t, n) \<in> set (zip (internalIdToId e) (map Suc [0..<length (internalIdToId e)]))"
    using assms by (metis ids_ok_def map_of_SomeD)
  then obtain i where "i < length (internalIdToId e)" "internalIdToId e ! i = t" "n = Suc i"
    by (auto simp: in_set_zip)
  then show "0 < n \<and> n \<le> length (internalIdToId e) \<and> internalIdToId e ! (n - 1) = t"
    by simp
qed

lemma ids_ok_get_None:
  "ids_ok e \<Longrightarrow> map_get (idToInternalId e) t = None \<longleftrightarrow> t \<notin> set (internalIdToId e)"
  by (simp add: ids_ok_def map_get_zip_None)

lemma ids_ok_length: "ids_ok e \<Longrightarrow> length (idToInternalId e) = length (internalIdToId e)"
  by (simp add: ids_ok_def)

lemma ids_ok_snoc:
  assumes "ids_ok e" "t \<notin> set (internalIdToId e)"
  shows "ids_ok \<lparr>idToInternalId = map_set t (Suc (length (internalIdToId e))) (idToInternalId e),
                  internalIdToId = internalIdToId e @ [t]\<rparr>"
proof -
  have "map_get (idToInternalId e) t = None"
    using assms by (simp add: ids_ok_get_None)
  then have "map_set t (Suc (length (internalIdToId e))) (idToInternalId e)
      = idToInternalId e @ [(t, Suc (length (internalIdToId e)))]"
    by (rule map_set_new)
  then show ?thesis
    using assms by (simp add: ids_ok_def)
qed

lemma getInternalId_string_old:
  "ids_ok e \<Longrightarrow> n < length (internalIdToId e) \<Longrightarrow>
   getInternalId_string e (internalIdToId e ! n) = (e, Suc n)"
  using ids_ok_get [of e "internalIdToId e ! n" "Suc n"] by (simp add: getInternalId_string_def)

lemma getInternalId_string_new:
  "ids_ok e \<Longrightarrow> t \<notin> set (internalIdToId e) \<Longrightarrow>
   getInternalId_string e t =
     (\<lparr>idToInternalId = map_set t (Suc (length (internalIdToId e))) (idToInternalId e),
       internalIdToId = internalIdToId e @ [t]\<rparr>, Suc (length (internalIdToId e)))"
  by (simp add: getInternalId_string_def ids_ok_get_None [THEN iffD2] ids_ok_length)

subsection \<open>What the engine uses of the numbering\<close>

locale id_numbering =
  fixes ok :: "'s \<Rightarrow> bool"
    and intern :: "'s \<Rightarrow> 'i \<Rightarrow> 's \<times> nat"
    and extern :: "'s \<Rightarrow> nat \<Rightarrow> 'i option"
  assumes intern_ok: "ok s \<Longrightarrow> intern s t = (s', n) \<Longrightarrow> ok s' \<and> 0 < n \<and> extern s' n = Some t"
    and intern_keeps: "ok s \<Longrightarrow> intern s t = (s', n) \<Longrightarrow> extern s m = Some u \<Longrightarrow> extern s' m = Some u"
    and intern_known: "ok s \<Longrightarrow> extern s m = Some u \<Longrightarrow> intern s u = (s, m)"
begin

lemma intern_idem: "ok s \<Longrightarrow> intern s t = (s', n) \<Longrightarrow> intern s' t = (s', n)"
  using intern_ok intern_known by blast

lemma intern_stable:
  assumes "ok s" "intern s t = (s', n)" "intern s' u = (s'', k)"
  shows "intern s'' t = (s'', n)"
  using assms by (meson intern_keeps intern_known intern_ok)

lemma intern_inj:
  assumes "ok s" "intern s t = (s', n)" "intern s' u = (s'', k)"
  shows "n = k \<longleftrightarrow> t = u"
proof
  assume "n = k"
  then have "extern s'' n = Some u"
    using assms intern_ok by blast
  moreover have "extern s'' n = Some t"
    using assms intern_ok intern_keeps by blast
  ultimately show "t = u"
    by simp
next
  assume "t = u"
  then show "n = k"
    using assms intern_idem [of s t s' n] by simp
qed

lemma extern_inj: "ok s \<Longrightarrow> extern s m = Some u \<Longrightarrow> extern s k = Some u \<Longrightarrow> m = k"
  using intern_known [of s m u] intern_known [of s k u] by simp

end

definition extern_id :: "id_store \<Rightarrow> nat \<Rightarrow> jsstring option" where
  "extern_id e n = (case getDocumentIdFromInternalId e n of Inl _ \<Rightarrow> None | Inr t \<Rightarrow> t)"

lemma extern_id_Some:
  "extern_id e n = Some t \<longleftrightarrow> 0 < n \<and> n \<le> length (internalIdToId e) \<and> internalIdToId e ! (n - 1) = t"
  by (auto simp: extern_id_def getDocumentIdFromInternalId_def)

interpretation ids: id_numbering ids_ok getInternalId_string extern_id
proof
  fix s t s' n assume ok: "ids_ok s" and i: "getInternalId_string s t = (s', n)"
  show "ids_ok s' \<and> 0 < n \<and> extern_id s' n = Some t"
  proof (cases "t \<in> set (internalIdToId s)")
    case True
    then obtain k where "k < length (internalIdToId s)" "internalIdToId s ! k = t"
      by (auto simp: in_set_conv_nth)
    with getInternalId_string_old [OF ok, of k] ok i show ?thesis
      by (auto simp: extern_id_Some)
  next
    case False
    with getInternalId_string_new [OF ok False] ok i ids_ok_snoc [OF ok False] show ?thesis
      by (auto simp: extern_id_Some)
  qed
next
  fix s t s' n m u
  assume ok: "ids_ok s" and i: "getInternalId_string s t = (s', n)" and e: "extern_id s m = Some u"
  show "extern_id s' m = Some u"
  proof (cases "t \<in> set (internalIdToId s)")
    case True
    then obtain k where "k < length (internalIdToId s)" "internalIdToId s ! k = t"
      by (auto simp: in_set_conv_nth)
    with getInternalId_string_old [OF ok, of k] i e show ?thesis
      by auto
  next
    case False
    with getInternalId_string_new [OF ok False] i e show ?thesis
      by (auto simp: extern_id_Some nth_append)
  qed
next
  fix s m u assume "ids_ok s" "extern_id s m = Some u"
  then show "getInternalId_string s u = (s, m)"
    using getInternalId_string_old [of s "m - 1"] by (auto simp: extern_id_Some)
qed

subsection \<open>The document store\<close>

record 'd docs_store =
  docs :: "(nat, 'd) jsmap"
  doc_count :: int

definition docs_create :: "'d docs_store" where
  "docs_create = \<lparr>docs = [], doc_count = 0\<rparr>"

definition docs_get :: "id_store \<Rightarrow> 'd docs_store \<Rightarrow> doc_id \<Rightarrow> id_store \<times> 'd option" where
  "docs_get ids e t = (let (ids', n) = getInternalDocumentId ids t in (ids', map_get (docs e) n))"

fun docs_getMultiple :: "id_store \<Rightarrow> 'd docs_store \<Rightarrow> doc_id list \<Rightarrow> id_store \<times> 'd option list" where
  "docs_getMultiple ids e [] = (ids, [])"
| "docs_getMultiple ids e (t # ts) =
     (let (ids', d) = docs_get ids e t; (ids'', ds) = docs_getMultiple ids' e ts in (ids'', d # ds))"

definition docs_getAll :: "'d docs_store \<Rightarrow> (nat, 'd) jsmap" where
  "docs_getAll e = docs e"

definition docs_put :: "'d docs_store \<Rightarrow> nat \<Rightarrow> 'd \<Rightarrow> 'd docs_store \<times> bool" where
  "docs_put e n r =
     (if map_get (docs e) n = None
      then (\<lparr>docs = map_set n r (docs e), doc_count = doc_count e + 1\<rparr>, True)
      else (e, False))"

definition docs_remove :: "id_store \<Rightarrow> 'd docs_store \<Rightarrow> doc_id \<Rightarrow> id_store \<times> 'd docs_store \<times> bool" where
  "docs_remove ids e t =
     (let (ids', n) = getInternalDocumentId ids t
      in if map_get (docs e) n \<noteq> None
         then (ids', \<lparr>docs = map_del n (docs e), doc_count = doc_count e - 1\<rparr>, True)
         else (ids', e, False))"

definition docs_count :: "'d docs_store \<Rightarrow> int" where
  "docs_count e = doc_count e"

definition docs_load :: "(nat, 'd) jsmap \<times> int \<Rightarrow> 'd docs_store" where
  "docs_load raw = \<lparr>docs = fst raw, doc_count = snd raw\<rparr>"

definition docs_save :: "'d docs_store \<Rightarrow> (nat, 'd) jsmap \<times> int" where
  "docs_save e = (docs e, doc_count e)"

definition docs_ok :: "'d docs_store \<Rightarrow> bool" where
  "docs_ok e \<longleftrightarrow> wf_map (docs e) \<and> doc_count e = int (length (docs e))"

lemma docs_ok_create [simp]: "docs_ok docs_create"
  by (simp add: docs_ok_def docs_create_def)

lemma length_map_del:
  "wf_map m \<Longrightarrow> map_get m k = Some v \<Longrightarrow> Suc (length (map_del k m)) = length m"
proof (induction m)
  case (Cons p m)
  show ?case
  proof (cases "fst p = k")
    case True
    with Cons.prems have "map_get m k = None"
      by (auto simp: wf_map_def map_of_eq_None_iff)
    with True show ?thesis
      by (cases p) (simp add: map_del_new)
  next
    case False
    with Cons show ?thesis
      by (cases p) (auto simp: wf_map_def)
  qed
qed simp

lemma docs_ok_put: "docs_ok e \<Longrightarrow> docs_put e n r = (e', b) \<Longrightarrow> docs_ok e'"
  by (auto simp: docs_ok_def docs_put_def map_set_new split: if_splits) (metis map_set_new wf_map_set)

lemma docs_ok_remove: "docs_ok e \<Longrightarrow> docs_remove ids e t = (ids', e', b) \<Longrightarrow> docs_ok e'"
  using length_map_del by (fastforce simp: docs_ok_def docs_remove_def Let_def split: if_splits prod.splits)

subsection \<open>Properties of the stores\<close>

lemma id_store_load_fold:
  "ids_ok e \<Longrightarrow> distinct (internalIdToId e @ xs) \<Longrightarrow> k = length (internalIdToId e) \<Longrightarrow>
   foldl (\<lambda>e (t, r). \<lparr>idToInternalId = map_set r (t + 1) (idToInternalId e),
       internalIdToId = internalIdToId e @ [r]\<rparr>) e (enumerate k xs)
   = \<lparr>idToInternalId = zip (internalIdToId e @ xs) (map Suc [0..<length (internalIdToId e @ xs)]),
      internalIdToId = internalIdToId e @ xs\<rparr>"
proof (induction xs arbitrary: e k)
  case Nil
  then show ?case
    by (cases e) (simp add: ids_ok_def)
next
  case (Cons x xs)
  let ?e = "\<lparr>idToInternalId = map_set x (Suc (length (internalIdToId e))) (idToInternalId e),
       internalIdToId = internalIdToId e @ [x]\<rparr>"
  have "ids_ok ?e"
    using Cons.prems by (intro ids_ok_snoc) auto
  from Cons.IH [OF this, of "Suc k"] Cons.prems show ?case
    by simp
qed

text \<open>interning an identifier gives it a positive number that maps back to it, leaves every number
  given before as it was, and interning it again later, after any other identifier, gives the same
  number: different identifiers have different numbers.\<close>

theorem internal_ids_bijective:
  assumes "ids_ok e" and "getInternalDocumentId e (IdString t) = (e', n)"
    and "getInternalDocumentId e' (IdString u) = (e'', k)"
  shows "ids_ok e'' \<and> 0 < n
    \<and> getDocumentIdFromInternalId e'' n = Inr (Some t)
    \<and> getDocumentIdFromInternalId e'' k = Inr (Some u)
    \<and> getInternalDocumentId e'' (IdString t) = (e'', n)
    \<and> (n = k \<longleftrightarrow> t = u)"
proof -
  have a: "getInternalId_string e t = (e', n)" and b: "getInternalId_string e' u = (e'', k)"
    using assms by auto
  have e': "ids_ok e'" "0 < n" "extern_id e' n = Some t"
    using ids.intern_ok [OF assms(1) a] by auto
  have e'': "ids_ok e''" "extern_id e'' k = Some u"
    using ids.intern_ok [OF e'(1) b] by auto
  have "extern_id e'' n = Some t"
    using ids.intern_keeps [OF e'(1) b e'(3)] .
  with e' e'' show ?thesis
    using ids.intern_stable [OF assms(1) a b] ids.intern_inj [OF assms(1) a b]
    by (auto simp: extern_id_Some getDocumentIdFromInternalId_def)
qed

theorem internal_ids_bijective_witness:
  "getDocumentIdFromInternalId
     (fst (getInternalDocumentId (fst (getInternalDocumentId id_store_empty (IdString (js ''a'')))) (IdString (js ''b'')))) 1
   = Inr (Some (js ''a''))"
  using internal_ids_bijective [OF ids_ok_empty, of "js ''a''"
    "fst (getInternalDocumentId id_store_empty (IdString (js ''a'')))" 1 "js ''b''"
    "fst (getInternalDocumentId (fst (getInternalDocumentId id_store_empty (IdString (js ''a'')))) (IdString (js ''b'')))" 2]
  by (simp add: getInternalId_string_def id_store_empty_def js_def)

text \<open>loading a saved identifier table gives back the table.\<close>

theorem id_store_roundtrip:
  assumes "ids_ok e"
  shows "id_store_load (id_store_save e) = e"
  using id_store_load_fold [OF ids_ok_empty, of "internalIdToId e" 0] assms
  by (cases e) (simp add: id_store_load_def id_store_save_def ids_ok_def id_store_empty_def)

theorem id_store_roundtrip_witness:
  "id_store_load (id_store_save (id_store_load [js ''a'', js ''b''])) = id_store_load [js ''a'', js ''b'']"
  using id_store_roundtrip [of "id_store_load [js ''a'', js ''b'']"]
  by (simp add: ids_ok_def id_store_load_def id_store_empty_def js_def)

text \<open>storing a document under a free number succeeds and changes only that entry, storing under a
  taken number fails and changes nothing, and the counter is always the number of documents held;
  removing the document just stored gives back the store.\<close>

theorem docs_store_correct:
  assumes "docs_ok e" "ids_ok ids" "getInternalDocumentId ids (IdString t) = (ids', n)"
    and "docs_put e n d = (e', stored)"
  shows "docs_ok e' \<and> docs_count e' = int (card (dom (map_get (docs e'))))
    \<and> (stored \<longleftrightarrow> map_get (docs e) n = None)
    \<and> (stored \<longrightarrow> docs_get ids' e' (IdString t) = (ids', Some d)
          \<and> docs_remove ids' e' (IdString t) = (ids', e, True))
    \<and> (\<not> stored \<longrightarrow> e' = e)"
proof -
  have ok': "docs_ok e'"
    by (rule docs_ok_put [OF assms(1,4)])
  then have "docs_count e' = int (card (dom (map_get (docs e'))))"
    by (simp add: docs_ok_def docs_count_def card_dom_map)
  moreover have "getInternalId_string ids' t = (ids', n)"
    by (rule ids.intern_idem [OF assms(2)]) (use assms(3) in simp)
  ultimately show ?thesis
    using ok' assms(4)
    by (auto simp: docs_put_def docs_get_def docs_remove_def map_del_set_new split: if_splits)
qed

theorem docs_store_correct_witness:
  "docs_count (fst (docs_put docs_create 1 (js ''doc''))) = 1"
  using docs_store_correct [OF docs_ok_create ids_ok_empty, of "js ''a''"
      "fst (getInternalDocumentId id_store_empty (IdString (js ''a'')))" 1 "js ''doc''"
      "fst (docs_put docs_create 1 (js ''doc''))" True]
  by (simp add: getInternalId_string_def id_store_empty_def docs_put_def docs_create_def)

end
