(* ===== verification/Orama_AVL.thy ===== *)
theory Orama_AVL
  imports Prelude
begin

text \<open>
  The search tree for numeric fields (classes \<^verbatim>\<open>ae\<close> and \<^verbatim>\<open>ce\<close> of
  \<^verbatim>\<open>assets/js/search-orama.js\<close>). A node maps a key to a set of documents; insertion walks
  down with an explicit path, then back up updating heights and, on some insertions only,
  rebalancing. Keys are the numbers of the language without NaN, that is, any linear order.
  Removal links nodes by reference; the model gives the final state of every object that stays
  reachable, including the ones whose links the code forgets.
\<close>

subsection \<open>Nodes\<close>

datatype ('k, 'd) avl_node =
    Null
  | AvlNode (nk: 'k) (nv: "'d list") (nl: "('k, 'd) avl_node") (nr: "('k, 'd) avl_node") (nh: nat)

definition new_node :: "'k \<Rightarrow> 'd list \<Rightarrow> ('k, 'd) avl_node" where
  "new_node k v = AvlNode k (set_new v) Null Null 1"

fun getHeight :: "('k, 'd) avl_node \<Rightarrow> nat" where
  "getHeight Null = 0"
| "getHeight (AvlNode k v l r h) = h"

fun updateHeight :: "('k, 'd) avl_node \<Rightarrow> ('k, 'd) avl_node" where
  "updateHeight Null = Null"
| "updateHeight (AvlNode k v l r h) = AvlNode k v l r (max (getHeight l) (getHeight r) + 1)"

fun getBalanceFactor :: "('k, 'd) avl_node \<Rightarrow> int" where
  "getBalanceFactor Null = 0"
| "getBalanceFactor (AvlNode k v l r h) = int (getHeight l) - int (getHeight r)"

text \<open>The rotations are only reached with the child they lift present: a height above 0 is a node.\<close>

fun rotateLeft :: "('k, 'd) avl_node \<Rightarrow> ('k, 'd) avl_node" where
  "rotateLeft (AvlNode k v l (AvlNode k2 v2 l2 r2 h2) h) =
     updateHeight (AvlNode k2 v2 (updateHeight (AvlNode k v l l2 h)) r2 h2)"
| "rotateLeft e = e"

fun rotateRight :: "('k, 'd) avl_node \<Rightarrow> ('k, 'd) avl_node" where
  "rotateRight (AvlNode k v (AvlNode k2 v2 l2 r2 h2) r h) =
     updateHeight (AvlNode k2 v2 l2 (updateHeight (AvlNode k v r2 r h)) h2)"
| "rotateRight e = e"

fun rebalanceNode :: "('k, 'd) avl_node \<Rightarrow> ('k, 'd) avl_node" where
  "rebalanceNode Null = Null"
| "rebalanceNode (AvlNode k v l r h) =
     (let e = AvlNode k v l r h; t = getBalanceFactor e
      in if t > 1 \<and> l \<noteq> Null then
           (if getBalanceFactor l \<ge> 0 then rotateRight e
            else rotateRight (AvlNode k v (rotateLeft l) r h))
         else if t < - 1 \<and> r \<noteq> Null then
           (if getBalanceFactor r \<le> 0 then rotateLeft e
            else rotateLeft (AvlNode k v l (rotateRight r) h))
         else e)"

subsection \<open>Insertion\<close>

record ('k, 'd) avl_tree =
  root :: "('k, 'd) avl_node"
  insertCount :: nat

datatype ('k, 'd) frame =
    FrameL 'k "'d list" "('k, 'd) avl_node" nat
  | FrameR 'k "'d list" "('k, 'd) avl_node" nat

fun plug :: "('k, 'd) frame \<Rightarrow> ('k, 'd) avl_node \<Rightarrow> ('k, 'd) avl_node" where
  "plug (FrameL k v r h) x = AvlNode k v x r h"
| "plug (FrameR k v l h) x = AvlNode k v l x h"

fun plug_all :: "('k, 'd) frame list \<Rightarrow> ('k, 'd) avl_node \<Rightarrow> ('k, 'd) avl_node" where
  "plug_all [] x = x"
| "plug_all (f # fs) x = plug_all fs (plug f x)"

text \<open>
  The walk down to a key: the frames of the path, innermost first, and the node with the key, or
  \<open>Null\<close> where a new node belongs.
\<close>

fun descend ::
    "'k::linorder \<Rightarrow> ('k, 'd) avl_node \<Rightarrow> ('k, 'd) frame list \<Rightarrow> ('k, 'd) frame list \<times> ('k, 'd) avl_node" where
  "descend t Null fs = (fs, Null)"
| "descend t (AvlNode k v l r h) fs =
     (if t < k then descend t l (FrameL k v r h # fs)
      else if t > k then descend t r (FrameR k v l h # fs)
      else (fs, AvlNode k v l r h))"

definition settle :: "bool \<Rightarrow> ('k, 'd) avl_node \<Rightarrow> ('k, 'd) avl_node" where
  "settle a x = (let x' = updateHeight x in if a then rebalanceNode x' else x')"

fun ascend :: "bool \<Rightarrow> ('k, 'd) frame list \<Rightarrow> ('k, 'd) avl_node \<Rightarrow> ('k, 'd) avl_node" where
  "ascend a [] x = settle a x"
| "ascend a (f # fs) x = ascend a fs (plug f (settle a x))"

definition insertNode ::
    "('k::linorder, 'd) avl_tree \<Rightarrow> 'k \<Rightarrow> 'd \<Rightarrow> nat \<Rightarrow> ('k, 'd) avl_tree" where
  "insertNode self t n r =
     (if root self = Null then self\<lparr>root := new_node t [n]\<rparr>
      else
        (case descend t (root self) [] of
           (fs, AvlNode k v x y h) \<Rightarrow> self\<lparr>root := plug_all fs (AvlNode k (set_add n v) x y h)\<rparr>
         | (fs, Null) \<Rightarrow>
             let a = (r \<noteq> 0 \<and> insertCount self mod r = 0)
             in \<lparr>root = ascend a fs (new_node t [n]), insertCount = insertCount self + 1\<rparr>))"

definition avl_insert :: "'k::linorder \<Rightarrow> 'd \<Rightarrow> nat option \<Rightarrow> ('k, 'd) avl_tree \<Rightarrow> ('k, 'd) avl_tree" where
  "avl_insert e t n self = insertNode self e t (case n of None \<Rightarrow> 1000 | Some n \<Rightarrow> n)"

definition avl_insertMultiple ::
    "'k::linorder \<Rightarrow> 'd list \<Rightarrow> nat option \<Rightarrow> ('k, 'd) avl_tree \<Rightarrow> ('k, 'd) avl_tree" where
  "avl_insertMultiple e t n self = foldl (\<lambda>self r. avl_insert e r n self) self t"

definition avl_rebalance :: "('k, 'd) avl_tree \<Rightarrow> ('k, 'd) avl_tree" where
  "avl_rebalance self = (if root self \<noteq> Null then self\<lparr>root := rebalanceNode (root self)\<rparr> else self)"

definition avl_new :: "('k \<times> 'd list) option \<Rightarrow> ('k, 'd) avl_tree" where
  "avl_new e = \<lparr>root = (case e of None \<Rightarrow> Null | Some (k, v) \<Rightarrow> new_node k v), insertCount = 0\<rparr>"

subsection \<open>Lookup\<close>

fun findNodeByKey :: "'k::linorder \<Rightarrow> ('k, 'd) avl_node \<Rightarrow> ('k, 'd) avl_node" where
  "findNodeByKey e Null = Null"
| "findNodeByKey e (AvlNode k v l r h) =
     (if e < k then findNodeByKey e l else if e > k then findNodeByKey e r else AvlNode k v l r h)"

definition avl_find :: "('k::linorder, 'd) avl_tree \<Rightarrow> 'k \<Rightarrow> 'd list option" where
  "avl_find self e =
     (case findNodeByKey e (root self) of Null \<Rightarrow> None | AvlNode k v l r h \<Rightarrow> Some v)"

definition avl_contains :: "('k::linorder, 'd) avl_tree \<Rightarrow> 'k \<Rightarrow> bool" where
  "avl_contains self e = (avl_find self e \<noteq> None)"

subsection \<open>Walks in key order\<close>

text \<open>
  The loops of \<^verbatim>\<open>getSize\<close>, \<^verbatim>\<open>rangeSearch\<close>, \<^verbatim>\<open>greaterThan\<close> and
  \<^verbatim>\<open>lessThan\<close> keep the current node and a stack: go down one side pushing, pop a node, use
  it, stop or go to its other side.
\<close>

fun push_side :: "bool \<Rightarrow> ('k, 'd) avl_node \<Rightarrow> ('k, 'd) avl_node list \<Rightarrow> ('k, 'd) avl_node list" where
  "push_side desc Null st = st"
| "push_side desc (AvlNode k v l r h) st =
     push_side desc (if desc then r else l) (AvlNode k v l r h # st)"

definition other_side :: "bool \<Rightarrow> ('k, 'd) avl_node \<Rightarrow> ('k, 'd) avl_node" where
  "other_side desc n = (if desc then nl n else nr n)"

fun count_nodes :: "('k, 'd) avl_node \<Rightarrow> nat" where
  "count_nodes Null = 0"
| "count_nodes (AvlNode k v l r h) = 1 + count_nodes l + count_nodes r"

definition stack_size :: "bool \<Rightarrow> ('k, 'd) avl_node list \<Rightarrow> nat" where
  "stack_size desc st = sum_list (map (\<lambda>n. 1 + (if n = Null then 0 else count_nodes (other_side desc n))) st)"

lemma push_side_size:
  "stack_size desc (push_side desc x st) = count_nodes x + stack_size desc st"
  by (induction desc x st rule: push_side.induct) (auto simp: stack_size_def other_side_def)

function walk ::
    "bool \<Rightarrow> ('s \<Rightarrow> ('k, 'd) avl_node \<Rightarrow> 's \<times> bool) \<Rightarrow>
     ('k, 'd) avl_node \<Rightarrow> ('k, 'd) avl_node list \<Rightarrow> 's \<Rightarrow> 's" where
  "walk desc visit cur st s =
     (case push_side desc cur st of
        [] \<Rightarrow> s
      | x # st' \<Rightarrow>
          if x = Null then s
          else (case visit s x of
                  (s', True) \<Rightarrow> s'
                | (s', False) \<Rightarrow> walk desc visit (other_side desc x) st' s'))"
  by pat_completeness auto
termination
proof (relation "measure (\<lambda>(desc, visit, cur, st, s). count_nodes cur + stack_size desc st)", goal_cases)
  case (2 desc visit cur st s x st')
  then have "count_nodes cur + stack_size desc st = stack_size desc (x # st')"
    by (metis push_side_size)
  with 2 show ?case
    by (simp add: stack_size_def)
qed simp

declare walk.simps [simp del]

definition avl_getSize :: "('k, 'd) avl_tree \<Rightarrow> nat" where
  "avl_getSize self = walk False (\<lambda>e n. (e + 1, False)) (root self) [] 0"

definition rangeSearch :: "('k::linorder, 'd) avl_tree \<Rightarrow> 'k \<Rightarrow> 'k \<Rightarrow> 'd list" where
  "rangeSearch self e t =
     walk False
       (\<lambda>n x. (if nk x \<ge> e \<and> nk x \<le> t then set_add_all n (nv x) else n, nk x > t))
       (root self) [] []"

definition greaterThan :: "('k::linorder, 'd) avl_tree \<Rightarrow> 'k \<Rightarrow> bool \<Rightarrow> 'd list" where
  "greaterThan self e t =
     walk True
       (\<lambda>n x. if (t \<and> nk x \<ge> e) \<or> (\<not> t \<and> nk x > e) then (set_add_all n (nv x), False)
              else (n, nk x \<le> e))
       (root self) [] []"

definition lessThan :: "('k::linorder, 'd) avl_tree \<Rightarrow> 'k \<Rightarrow> bool \<Rightarrow> 'd list" where
  "lessThan self e t =
     walk False
       (\<lambda>n x. if (t \<and> nk x \<le> e) \<or> (\<not> t \<and> nk x < e) then (set_add_all n (nv x), False)
              else (n, nk x > e))
       (root self) [] []"

subsection \<open>Balance check and serialisation\<close>

definition live :: "('k, 'd) avl_node \<Rightarrow> ('k, 'd) avl_node list" where
  "live x = (if x = Null then [] else [x])"

lemma live_size [simp]: "sum_list (map count_nodes (live x)) = count_nodes x"
  by (simp add: live_def)

function isBalanced_loop :: "('k, 'd) avl_node list \<Rightarrow> bool" where
  "isBalanced_loop [] = True"
| "isBalanced_loop (Null # e) = isBalanced_loop e"
| "isBalanced_loop (AvlNode k v l r h # e) =
     (if abs (getBalanceFactor (AvlNode k v l r h)) > 1 then False
      else isBalanced_loop (live r @ live l @ e))"
  by pat_completeness auto
termination
  by (relation "measures [\<lambda>e. sum_list (map count_nodes e), length]") auto

definition isBalanced :: "('k, 'd) avl_tree \<Rightarrow> bool" where
  "isBalanced self = (if root self = Null then True else isBalanced_loop [root self])"

datatype ('k, 'd) avl_json =
    JNullNode
  | JNode 'k "'d list" "('k, 'd) avl_json" "('k, 'd) avl_json" nat

fun node_toJSON :: "('k, 'd) avl_node \<Rightarrow> ('k, 'd) avl_json" where
  "node_toJSON Null = JNullNode"
| "node_toJSON (AvlNode k v l r h) = JNode k v (node_toJSON l) (node_toJSON r) h"

fun node_fromJSON :: "('k, 'd) avl_json \<Rightarrow> ('k, 'd) avl_node" where
  "node_fromJSON JNullNode = Null"
| "node_fromJSON (JNode k v l r h) = AvlNode k (set_new v) (node_fromJSON l) (node_fromJSON r) h"

definition avl_toJSON :: "('k, 'd) avl_tree \<Rightarrow> ('k, 'd) avl_json \<times> nat" where
  "avl_toJSON self = (node_toJSON (root self), insertCount self)"

definition avl_fromJSON :: "('k, 'd) avl_json \<times> nat option \<Rightarrow> ('k, 'd) avl_tree" where
  "avl_fromJSON e = \<lparr>root = node_fromJSON (fst e), insertCount = (case snd e of None \<Rightarrow> 0 | Some n \<Rightarrow> n)\<rparr>"

subsection \<open>Removal\<close>

text \<open>
  \<^verbatim>\<open>removeNode\<close> rebalances the removed node (or the parent of the successor it took its
  content from) and links the result only if the next node of its path still points to it. What
  the rest of the tree keeps is the state of that object, or of its child, after the rotations:
  \<open>rebalanceNode_self\<close> and \<open>rebalanceNode_child\<close>.
\<close>

fun rebalanceNode_self :: "('k, 'd) avl_node \<Rightarrow> ('k, 'd) avl_node" where
  "rebalanceNode_self Null = Null"
| "rebalanceNode_self (AvlNode k v l r h) =
     (let e = AvlNode k v l r h; t = getBalanceFactor e
      in if t > 1 \<and> l \<noteq> Null then
           updateHeight (AvlNode k v (nr (if getBalanceFactor l \<ge> 0 then l else rotateLeft l)) r h)
         else if t < - 1 \<and> r \<noteq> Null then
           updateHeight (AvlNode k v l (nl (if getBalanceFactor r \<le> 0 then r else rotateRight r)) h)
         else e)"

fun rotateLeft_self :: "('k, 'd) avl_node \<Rightarrow> ('k, 'd) avl_node" where
  "rotateLeft_self Null = Null"
| "rotateLeft_self (AvlNode k v l r h) = updateHeight (AvlNode k v l (nl r) h)"

fun rotateRight_self :: "('k, 'd) avl_node \<Rightarrow> ('k, 'd) avl_node" where
  "rotateRight_self Null = Null"
| "rotateRight_self (AvlNode k v l r h) = updateHeight (AvlNode k v (nr l) r h)"

fun rebalanceNode_child :: "('k, 'd) avl_node \<Rightarrow> ('k, 'd) avl_node" where
  "rebalanceNode_child Null = Null"
| "rebalanceNode_child (AvlNode k v l r h) =
     (let e = AvlNode k v l r h; t = getBalanceFactor e
      in if t > 1 \<and> l \<noteq> Null then
           (if getBalanceFactor l \<ge> 0 then rotateRight e else rotateLeft_self l)
         else if t < - 1 \<and> r \<noteq> Null then
           (if getBalanceFactor r \<le> 0 then rotateLeft e else rotateRight_self r)
         else if l \<noteq> Null then l else r)"

fun leftmost :: "('k, 'd) avl_node \<Rightarrow> ('k, 'd) avl_node" where
  "leftmost Null = Null"
| "leftmost (AvlNode k v l r h) = (if l = Null then AvlNode k v l r h else leftmost l)"

text \<open>The parent of the leftmost node once that node is unlinked, and the subtree that keeps it.\<close>

fun leftmost_parent :: "('k, 'd) avl_node \<Rightarrow> ('k, 'd) avl_node" where
  "leftmost_parent Null = Null"
| "leftmost_parent (AvlNode k v l r h) =
     (if l = Null then AvlNode k v l r h
      else if nl l = Null then AvlNode k v (nr l) r h
      else leftmost_parent l)"

fun unlink_leftmost :: "('k, 'd) avl_node \<Rightarrow> ('k, 'd) avl_node" where
  "unlink_leftmost Null = Null"
| "unlink_leftmost (AvlNode k v l r h) =
     (if l = Null then AvlNode k v l r h
      else if nl l = Null then rebalanceNode_self (updateHeight (AvlNode k v (nr l) r h))
      else AvlNode k v (unlink_leftmost l) r h)"

definition removeNode :: "('k::linorder, 'd) avl_node \<Rightarrow> 'k \<Rightarrow> ('k, 'd) avl_node" where
  "removeNode e t =
     (case descend t e [] of
        (fs, Null) \<Rightarrow> e
      | (fs, AvlNode k v l r h) \<Rightarrow>
          if l = Null \<or> r = Null then
            (case fs of
               [] \<Rightarrow> rebalanceNode (updateHeight (AvlNode k v l r h))
             | f # fs' \<Rightarrow> ascend True fs' (plug f (rebalanceNode_child (updateHeight (AvlNode k v l r h)))))
          else
            let m = leftmost r
            in if nl r = Null then ascend True fs (AvlNode (nk m) (nv m) l (nr r) h)
               else (case fs of
                       [] \<Rightarrow> rebalanceNode (updateHeight (leftmost_parent r))
                     | f # fs' \<Rightarrow> ascend True fs' (plug f (AvlNode (nk m) (nv m) l (unlink_leftmost r) h))))"

definition avl_remove :: "'k::linorder \<Rightarrow> ('k, 'd) avl_tree \<Rightarrow> ('k, 'd) avl_tree" where
  "avl_remove e self = self\<lparr>root := removeNode (root self) e\<rparr>"

definition avl_removeDocument :: "'k::linorder \<Rightarrow> 'd \<Rightarrow> ('k, 'd) avl_tree \<Rightarrow> ('k, 'd) avl_tree" where
  "avl_removeDocument e t self =
     (case descend e (root self) [] of
        (fs, Null) \<Rightarrow> self
      | (fs, AvlNode k v l r h) \<Rightarrow>
          if length v = 1 then self\<lparr>root := removeNode (root self) e\<rparr>
          else self\<lparr>root := plug_all fs (AvlNode k (filter (\<lambda>e. e \<noteq> t) v) l r h)\<rparr>)"

subsection \<open>Contents and invariants\<close>

fun inorder :: "('k, 'd) avl_node \<Rightarrow> ('k \<times> 'd list) list" where
  "inorder Null = []"
| "inorder (AvlNode k v l r h) = inorder l @ (k, v) # inorder r"

abbreviation keys :: "('k \<times> 'd list) list \<Rightarrow> 'k list" where
  "keys xs \<equiv> map fst xs"

definition bst :: "('k::linorder, 'd) avl_node \<Rightarrow> bool" where
  "bst t = sorted_wrt (<) (keys (inorder t))"

fun heights_ok :: "('k, 'd) avl_node \<Rightarrow> bool" where
  "heights_ok Null = True"
| "heights_ok (AvlNode k v l r h) = (heights_ok l \<and> heights_ok r \<and> h = max (getHeight l) (getHeight r) + 1)"

fun balanced :: "('k, 'd) avl_node \<Rightarrow> bool" where
  "balanced Null = True"
| "balanced (AvlNode k v l r h) =
     (balanced l \<and> balanced r \<and> getHeight l \<le> getHeight r + 1 \<and> getHeight r \<le> getHeight l + 1)"

fun children_ok :: "('k, 'd) avl_node \<Rightarrow> bool" where
  "children_ok Null = True"
| "children_ok (AvlNode k v l r h) = (heights_ok l \<and> heights_ok r)"

definition avl_inv :: "('k::linorder, 'd) avl_tree \<Rightarrow> bool" where
  "avl_inv self = (bst (root self) \<and> heights_ok (root self) \<and> (\<forall>(k, v) \<in> set (inorder (root self)). distinct v))"

definition avl_docs :: "('k::linorder, 'd) avl_tree \<Rightarrow> 'k \<Rightarrow> 'd set" where
  "avl_docs self k = (case avl_find self k of None \<Rightarrow> {} | Some v \<Rightarrow> set v)"

lemma inorder_updateHeight [simp]: "inorder (updateHeight t) = inorder t"
  by (cases t) auto

lemma inorder_rotateLeft [simp]: "inorder (rotateLeft t) = inorder t"
  by (cases t rule: rotateLeft.cases) auto

lemma inorder_rotateRight [simp]: "inorder (rotateRight t) = inorder t"
  by (cases t rule: rotateRight.cases) auto

lemma inorder_rebalanceNode [simp]: "inorder (rebalanceNode t) = inorder t"
  by (cases t) (auto simp: Let_def simp del: rotateLeft.simps rotateRight.simps)

lemma inorder_settle [simp]: "inorder (settle a t) = inorder t"
  by (simp add: settle_def Let_def)

lemma heights_ok_updateHeight: "children_ok t \<Longrightarrow> heights_ok (updateHeight t)"
  by (cases t) auto

lemma heights_ok_children: "heights_ok t \<Longrightarrow> children_ok t"
  by (cases t) auto

lemma heights_ok_rotateLeft: "children_ok t \<Longrightarrow> nr t \<noteq> Null \<Longrightarrow> t \<noteq> Null \<Longrightarrow> heights_ok (rotateLeft t)"
  by (cases t rule: rotateLeft.cases) auto

lemma heights_ok_rotateRight: "children_ok t \<Longrightarrow> nl t \<noteq> Null \<Longrightarrow> t \<noteq> Null \<Longrightarrow> heights_ok (rotateRight t)"
  by (cases t rule: rotateRight.cases) auto

lemma rotate_not_Null [simp]:
  "rotateLeft t = Null \<longleftrightarrow> t = Null" "rotateRight t = Null \<longleftrightarrow> t = Null"
  by (cases t rule: rotateLeft.cases; simp) (cases t rule: rotateRight.cases; simp)

lemma balance_child:
  "t \<noteq> Null \<Longrightarrow> \<not> 0 \<le> getBalanceFactor t \<Longrightarrow> nr t \<noteq> Null"
  "t \<noteq> Null \<Longrightarrow> \<not> getBalanceFactor t \<le> 0 \<Longrightarrow> nl t \<noteq> Null"
  by (cases t; auto)+

lemma heights_ok_rebalanceNode: "heights_ok t \<Longrightarrow> heights_ok (rebalanceNode t)"
  by (cases t)
    (simp_all add: Let_def heights_ok_rotateLeft heights_ok_rotateRight heights_ok_children balance_child
      del: rotateLeft.simps rotateRight.simps)

lemma heights_ok_settle: "children_ok t \<Longrightarrow> heights_ok (settle a t)"
  by (simp add: settle_def Let_def heights_ok_updateHeight heights_ok_rebalanceNode)

subsection \<open>Paths\<close>

fun fpre :: "('k, 'd) frame list \<Rightarrow> ('k \<times> 'd list) list" where
  "fpre [] = []"
| "fpre (FrameL k v r h # fs) = fpre fs"
| "fpre (FrameR k v l h # fs) = fpre fs @ inorder l @ [(k, v)]"

fun fpost :: "('k, 'd) frame list \<Rightarrow> ('k \<times> 'd list) list" where
  "fpost [] = []"
| "fpost (FrameL k v r h # fs) = (k, v) # inorder r @ fpost fs"
| "fpost (FrameR k v l h # fs) = fpost fs"

lemma inorder_plug_all: "inorder (plug_all fs x) = fpre fs @ inorder x @ fpost fs"
proof (induction fs arbitrary: x)
  case (Cons f fs)
  then show ?case
    by (cases f) auto
qed simp

lemma inorder_ascend: "inorder (ascend a fs x) = fpre fs @ inorder x @ fpost fs"
proof (induction fs arbitrary: x)
  case (Cons f fs)
  then show ?case
    by (cases f) auto
qed simp

definition splits_at :: "'k::linorder \<Rightarrow> ('k \<times> 'd list) list \<Rightarrow> ('k \<times> 'd list) list \<Rightarrow> bool" where
  "splits_at t xs ys = ((\<forall>k \<in> set (keys xs). k < t) \<and> (\<forall>k \<in> set (keys ys). t < k))"

lemma splits_at_left: "splits_at t xs ys \<Longrightarrow> t < k \<Longrightarrow> \<forall>k' \<in> set (keys zs). k < k' \<Longrightarrow> splits_at t xs ((k, v) # zs @ ys)"
  unfolding splits_at_def by (fastforce intro: less_trans)

lemma splits_at_right: "splits_at t xs ys \<Longrightarrow> k < t \<Longrightarrow> \<forall>k' \<in> set (keys zs). k' < k \<Longrightarrow> splits_at t (xs @ zs @ [(k, v)]) ys"
  unfolding splits_at_def by (fastforce intro: less_trans)

lemma descend_spec:
  assumes "sorted_wrt (<) (keys (fpre fs @ inorder x @ fpost fs))" "splits_at t (fpre fs) (fpost fs)"
    and "descend t x fs = (fs', y)"
  shows "fpre fs' @ inorder y @ fpost fs' = fpre fs @ inorder x @ fpost fs
    \<and> splits_at t (fpre fs') (fpost fs') \<and> (y \<noteq> Null \<longrightarrow> nk y = t)"
  using assms
proof (induction t x fs rule: descend.induct)
  case (2 t k v l r h fs)
  have le: "\<forall>k' \<in> set (keys (inorder l)). k' < k" and ri: "\<forall>k' \<in> set (keys (inorder r)). k < k'"
    using "2.prems"(1) by (simp_all add: sorted_wrt_append)
  consider (left) "t < k" | (right) "\<not> t < k" "k < t" | (here) "t = k"
    using linorder_less_linear by fastforce
  then show ?case
  proof cases
    case left
    show ?thesis
      using "2.IH"(1) [OF left] "2.prems" splits_at_left [OF "2.prems"(2) left ri, of v] left
      by (simp del: list.set_map)
  next
    case right
    show ?thesis
      using "2.IH"(2) [OF right] "2.prems" splits_at_right [OF "2.prems"(2) right(2) le, of v] right
      by (simp del: list.set_map)
  next
    case here
    with "2.prems" show ?thesis
      by auto
  qed
qed auto

lemma descend_root:
  assumes "bst x" "descend t x [] = (fs, y)"
  shows "inorder x = fpre fs @ inorder y @ fpost fs" "splits_at t (fpre fs) (fpost fs)" "y \<noteq> Null \<Longrightarrow> nk y = t"
    "plug_all fs y = x"
proof -
  have "plug_all fs y = plug_all fs' x'" if "descend t x' fs' = (fs, y)" for x' fs'
    using that by (induction t x' fs' rule: descend.induct) (auto split: if_splits)
  then show "plug_all fs y = x"
    using assms(2) by fastforce
qed (use descend_spec [of "[]" x t fs y] assms in \<open>auto simp: bst_def splits_at_def\<close>)

lemma map_of_split:
  assumes "splits_at t xs ys"
  shows "map_of (xs @ (t, v) # ys) = (map_of (xs @ ys))(t \<mapsto> v)" "map_of (xs @ ys) t = None"
proof -
  have "t \<notin> fst ` set xs" "t \<notin> fst ` set ys"
    using assms by (auto simp: splits_at_def)
  then have none: "map_of xs t = None" "map_of ys t = None"
    by (simp_all add: map_of_eq_None_iff)
  then show "map_of (xs @ ys) t = None"
    by simp
  show "map_of (xs @ (t, v) # ys) = (map_of (xs @ ys))(t \<mapsto> v)"
    using none by (auto simp: map_add_def fun_eq_iff split: option.splits)
qed

lemma sorted_split:
  "sorted_wrt (<) (keys (xs @ ys)) \<Longrightarrow> splits_at t xs ys \<Longrightarrow> sorted_wrt (<) (keys (xs @ (t, v) # ys))"
  by (auto simp: splits_at_def sorted_wrt_append)

text \<open>Insertion in terms of the contents: the new pair goes between the smaller and larger keys.\<close>

lemma insertNode_inorder:
  assumes "bst (root self)"
  obtains xs ys where "splits_at t xs ys"
    "inorder (root (insertNode self t n r)) =
       xs @ (t, case map_of (inorder (root self)) t of None \<Rightarrow> [n] | Some v \<Rightarrow> set_add n v) # ys"
    "inorder (root self) = xs @ (case map_of (inorder (root self)) t of None \<Rightarrow> [] | Some v \<Rightarrow> [(t, v)]) @ ys"
proof (cases "root self = Null")
  case True
  then show ?thesis
    by (intro that [of "[]" "[]"]) (simp_all add: splits_at_def insertNode_def new_node_def set_new_def set_add_def)
next
  case False
  obtain fs y where d: "descend t (root self) [] = (fs, y)"
    by fastforce
  note f = descend_root [OF assms d]
  show ?thesis
  proof (cases y)
    case Null
    then have "inorder (root self) = fpre fs @ fpost fs"
      using f by simp
    with Null False f map_of_split(2) [OF f(2)] d show ?thesis
      by (intro that [of "fpre fs" "fpost fs"])
        (simp_all add: insertNode_def Let_def inorder_ascend new_node_def set_new_def set_add_def map_add_def)
  next
    case (AvlNode k v l r' h)
    have k: "k = t"
      using f(3) AvlNode by simp
    have sp: "splits_at t (fpre fs @ inorder l) (inorder r' @ fpost fs)"
      using f AvlNode k assms by (auto simp: bst_def splits_at_def sorted_wrt_append)
    have "inorder (root self) = (fpre fs @ inorder l) @ (t, v) # (inorder r' @ fpost fs)"
      using f AvlNode k by simp
    moreover from this have "map_of (inorder (root self)) t = Some v"
      using map_of_split(1) [OF sp, of v] by simp
    ultimately show ?thesis
      using AvlNode False d k
      by (intro that [OF sp]) (simp_all add: insertNode_def inorder_plug_all)
  qed
qed

lemma insertNode_map:
  assumes "bst (root self)"
  shows "map_of (inorder (root (insertNode self t n r))) = (map_of (inorder (root self)))
    (t \<mapsto> (case map_of (inorder (root self)) t of None \<Rightarrow> [n] | Some v \<Rightarrow> set_add n v))"
proof -
  obtain xs ys where s: "splits_at t xs ys"
    and n: "inorder (root (insertNode self t n r)) =
       xs @ (t, case map_of (inorder (root self)) t of None \<Rightarrow> [n] | Some v \<Rightarrow> set_add n v) # ys"
    and e: "inorder (root self) = xs @ (case map_of (inorder (root self)) t of None \<Rightarrow> [] | Some v \<Rightarrow> [(t, v)]) @ ys"
    using insertNode_inorder [OF assms] by metis
  have "(map_of (xs @ ys))(t \<mapsto> w) = (map_of (inorder (root self)))(t \<mapsto> w)" for w
    by (cases "map_of (inorder (root self)) t") (use e map_of_split(1) [OF s] in \<open>auto simp del: map_of_append\<close>)
  then show ?thesis
    using n map_of_split(1) [OF s] by metis
qed

lemma insertNode_bst: "bst (root self) \<Longrightarrow> bst (root (insertNode self t n r))"
proof -
  assume b: "bst (root self)"
  obtain xs ys where s: "splits_at t xs ys"
    and n: "inorder (root (insertNode self t n r)) =
       xs @ (t, case map_of (inorder (root self)) t of None \<Rightarrow> [n] | Some v \<Rightarrow> set_add n v) # ys"
    and e: "inorder (root self) = xs @ (case map_of (inorder (root self)) t of None \<Rightarrow> [] | Some v \<Rightarrow> [(t, v)]) @ ys"
    using insertNode_inorder [OF b] by metis
  have "sorted_wrt (<) (keys (xs @ ys))"
    using b arg_cong [OF e, of keys]
    by (cases "map_of (inorder (root self)) t") (auto simp: bst_def sorted_wrt_append)
  then show ?thesis
    using n sorted_split [OF _ s] by (simp add: bst_def)
qed

fun frames_ok :: "('k, 'd) frame list \<Rightarrow> bool" where
  "frames_ok [] = True"
| "frames_ok (FrameL k v r h # fs) = (heights_ok r \<and> frames_ok fs)"
| "frames_ok (FrameR k v l h # fs) = (heights_ok l \<and> frames_ok fs)"

lemma frames_ok_descend:
  "descend t x fs = (fs', y) \<Longrightarrow> heights_ok x \<Longrightarrow> frames_ok fs \<Longrightarrow> frames_ok fs' \<and> heights_ok y"
  by (induction t x fs rule: descend.induct) (auto split: if_splits)

lemma heights_ok_ascend: "children_ok x \<Longrightarrow> frames_ok fs \<Longrightarrow> heights_ok (ascend a fs x)"
proof (induction fs arbitrary: x)
  case (Cons f fs)
  then show ?case
    by (cases f) (auto simp: heights_ok_settle)
qed (simp add: heights_ok_settle)

lemma heights_ok_plug_all:
  "heights_ok (plug_all fs x) \<Longrightarrow> heights_ok x' \<Longrightarrow> getHeight x' = getHeight x \<Longrightarrow> heights_ok (plug_all fs x')"
proof (induction fs arbitrary: x x')
  case (Cons f fs)
  have "heights_ok (plug f x)"
    using Cons.prems(1) by (induction fs arbitrary: f x) (auto, (case_tac a; fastforce))
  with Cons show ?case
    by (cases f) auto
qed simp

lemma insertNode_heights:
  assumes "bst (root self)" "heights_ok (root self)"
  shows "heights_ok (root (insertNode self t n r))"
proof -
  obtain fs y where d: "descend t (root self) [] = (fs, y)"
    by fastforce
  note f = descend_root [OF assms(1) d] and ok = frames_ok_descend [OF d assms(2)]
  show ?thesis
  proof (cases y)
    case Null
    with d ok show ?thesis
      by (auto simp: insertNode_def Let_def new_node_def intro!: heights_ok_ascend)
  next
    case (AvlNode k v l r' h)
    have "heights_ok (plug_all fs (AvlNode k (set_add n v) l r' h))"
      by (rule heights_ok_plug_all [of fs y]) (use AvlNode f ok assms in auto)
    with AvlNode d show ?thesis
      by (auto simp: insertNode_def new_node_def)
  qed
qed

lemma find_map_of: "bst x \<Longrightarrow> (case findNodeByKey e x of Null \<Rightarrow> None | AvlNode k v l r h \<Rightarrow> Some v) = map_of (inorder x) e"
proof (induction e x rule: findNodeByKey.induct)
  case (2 e k v l r h)
  have b: "bst l" "bst r" and sp: "splits_at k (inorder l) (inorder r)"
    using "2.prems" by (auto simp: bst_def splits_at_def sorted_wrt_append)
  have "e < k \<Longrightarrow> map_of (inorder r) e = None" "k < e \<Longrightarrow> map_of (inorder l) e = None"
    using sp by (fastforce simp: splits_at_def map_of_eq_None_iff)+
  with 2 b map_of_split(1) [OF sp, of v] show ?case
    by (auto simp: map_add_def split: option.splits)
qed simp

lemma avl_find_map_of: "bst (root self) \<Longrightarrow> avl_find self = map_of (inorder (root self))"
  by (rule ext) (simp add: avl_find_def find_map_of)

lemma avl_inv_insertNode:
  assumes "avl_inv self"
  shows "avl_inv (insertNode self t n r)"
proof -
  have b: "bst (root self)" "heights_ok (root self)" and s: "\<forall>(k, v) \<in> set (inorder (root self)). distinct v"
    using assms by (auto simp: avl_inv_def)
  have dist: "distinct (map fst (inorder (root (insertNode self t n r))))" "distinct (map fst (inorder (root self)))"
    using insertNode_bst [OF b(1)] b(1) by (auto simp: bst_def strict_sorted_iff)
  have "distinct v" if "(k, v) \<in> set (inorder (root (insertNode self t n r)))" for k v
  proof -
    have "map_of (inorder (root (insertNode self t n r))) k = Some v"
      using that dist by simp
    then show ?thesis
      using s dist by (auto simp: insertNode_map [OF b(1)] split: if_splits option.splits dest!: map_of_SomeD)
  qed
  then show ?thesis
    using insertNode_bst insertNode_heights b by (auto simp: avl_inv_def)
qed

lemma avl_docs_insertNode:
  "bst (root self) \<Longrightarrow> avl_docs (insertNode self t n r) k = (if k = t then insert n (avl_docs self t) else avl_docs self k)"
  by (auto simp: avl_docs_def avl_find_map_of insertNode_bst insertNode_map split: option.splits)

interpretation avl: doc_index avl_inv "\<lambda>k d. avl_insert k d n" avl_docs
  by unfold_locales
    (auto simp: avl_insert_def avl_inv_insertNode avl_docs_insertNode, auto simp: avl_inv_def avl_docs_insertNode)

subsection \<open>Balance\<close>

lemma settle_balanced:
  assumes "balanced l" "balanced r" "heights_ok l" "heights_ok r"
    and "getHeight l \<le> getHeight r + 2" "getHeight r \<le> getHeight l + 2"
    and t: "t = settle True (AvlNode k v l r h)"
  shows "balanced t \<and> heights_ok t \<and>
    getHeight t \<le> max (getHeight l) (getHeight r) + 1 \<and> max (getHeight l) (getHeight r) \<le> getHeight t \<and>
    (getHeight l \<le> getHeight r + 1 \<and> getHeight r \<le> getHeight l + 1 \<longrightarrow>
       getHeight t = max (getHeight l) (getHeight r) + 1)"
proof -
  consider (left) "getHeight l = getHeight r + 2" | (right) "getHeight r = getHeight l + 2"
    | (none) "getHeight l \<le> getHeight r + 1" "getHeight r \<le> getHeight l + 1"
    using assms by linarith
  then show ?thesis
  proof cases
    case left
    then show ?thesis
      using assms
      by (cases l; cases "nr l")
        (auto simp: settle_def Let_def max_def split: if_splits)
  next
    case right
    then show ?thesis
      using assms
      by (cases r; cases "nl r")
        (auto simp: settle_def Let_def max_def split: if_splits)
  next
    case none
    then have "int (getHeight l) - int (getHeight r) \<le> 1" "- 1 \<le> int (getHeight l) - int (getHeight r)"
      by linarith+
    with none t assms show ?thesis
      by (auto simp: settle_def Let_def)
  qed
qed

fun ctx_balanced :: "('k, 'd) frame list \<Rightarrow> nat \<Rightarrow> bool" where
  "ctx_balanced [] n = True"
| "ctx_balanced (f # fs) n =
     (case f of
        FrameL k v x h \<Rightarrow> balanced x \<and> heights_ok x \<and> getHeight x \<le> n + 1 \<and> n \<le> getHeight x + 1
          \<and> ctx_balanced fs (max n (getHeight x) + 1)
      | FrameR k v x h \<Rightarrow> balanced x \<and> heights_ok x \<and> getHeight x \<le> n + 1 \<and> n \<le> getHeight x + 1
          \<and> ctx_balanced fs (max n (getHeight x) + 1))"

lemma ctx_balanced_descend:
  "descend t x fs = (fs', Null) \<Longrightarrow> balanced x \<Longrightarrow> heights_ok x \<Longrightarrow> ctx_balanced fs (getHeight x) \<Longrightarrow> ctx_balanced fs' 0"
  by (induction t x fs rule: descend.induct) (auto simp: max.commute split: if_splits)

lemma balanced_ascend:
  "ctx_balanced fs n \<Longrightarrow> balanced (settle True x) \<Longrightarrow> heights_ok (settle True x) \<Longrightarrow>
   n \<le> getHeight (settle True x) \<Longrightarrow> getHeight (settle True x) \<le> n + 1 \<Longrightarrow> balanced (ascend True fs x)"
proof (induction fs arbitrary: n x)
  case (Cons f fs)
  let ?z = "settle True x"
  show ?case
  proof (cases f)
    case (FrameL k v s h)
    have "balanced (settle True (AvlNode k v ?z s h)) \<and> heights_ok (settle True (AvlNode k v ?z s h)) \<and>
      max n (getHeight s) + 1 \<le> getHeight (settle True (AvlNode k v ?z s h)) \<and>
      getHeight (settle True (AvlNode k v ?z s h)) \<le> max n (getHeight s) + 1 + 1"
      using settle_balanced [of ?z s _ k v h, OF _ _ _ _ _ _ refl] FrameL Cons.prems by fastforce
    with FrameL Cons.prems show ?thesis
      by (auto intro: Cons.IH)
  next
    case (FrameR k v s h)
    have "balanced (settle True (AvlNode k v s ?z h)) \<and> heights_ok (settle True (AvlNode k v s ?z h)) \<and>
      max n (getHeight s) + 1 \<le> getHeight (settle True (AvlNode k v s ?z h)) \<and>
      getHeight (settle True (AvlNode k v s ?z h)) \<le> max n (getHeight s) + 1 + 1"
      using settle_balanced [of s ?z _ k v h, OF _ _ _ _ _ _ refl] FrameR Cons.prems by fastforce
    with FrameR Cons.prems show ?thesis
      by (auto intro: Cons.IH)
  qed
qed simp

lemma balanced_plug_all:
  "balanced (plug_all fs x) \<Longrightarrow> balanced x' \<Longrightarrow> getHeight x' = getHeight x \<Longrightarrow> balanced (plug_all fs x')"
proof (induction fs arbitrary: x x')
  case (Cons f fs)
  have "balanced (plug f x)"
    using Cons.prems(1) by (induction fs arbitrary: f x) (auto, (case_tac a; fastforce))
  with Cons show ?case
    by (cases f) auto
qed simp

lemma balanced_plug_all_hole: "balanced (plug_all fs x) \<Longrightarrow> balanced x"
  by (induction fs arbitrary: x) (simp, (case_tac a; fastforce))

lemma insertNode_balanced:
  assumes "avl_inv self" "balanced (root self)" "r = 1"
  shows "balanced (root (insertNode self t n r))"
proof -
  have ok: "bst (root self)" "heights_ok (root self)"
    using assms by (auto simp: avl_inv_def)
  obtain fs y where d: "descend t (root self) [] = (fs, y)"
    by fastforce
  note f = descend_root [OF ok(1) d]
  show ?thesis
  proof (cases y)
    case Null
    then have "ctx_balanced fs 0"
      using ctx_balanced_descend d assms(2) ok(2) by fastforce
    then have "balanced (ascend True fs (new_node t [n]))"
      by (rule balanced_ascend) (auto simp: settle_def new_node_def)
    with Null d assms(3) show ?thesis
      by (auto simp: insertNode_def Let_def new_node_def)
  next
    case (AvlNode k v l r' h)
    have "balanced (plug_all fs (AvlNode k (set_add n v) l r' h))"
      by (rule balanced_plug_all [of fs y])
        (use AvlNode f assms balanced_plug_all_hole [of fs y] in auto)
    with AvlNode d show ?thesis
      by (auto simp: insertNode_def new_node_def)
  qed
qed

lemma isBalanced_loop_iff: "isBalanced_loop e = (\<forall>x \<in> set e. balanced x)"
  by (induction e rule: isBalanced_loop.induct) (auto simp: live_def)

lemma isBalanced_iff: "isBalanced self = balanced (root self)"
  by (simp add: isBalanced_def isBalanced_loop_iff)

subsection \<open>Walks visit the keys in order\<close>

fun fold_stop :: "('s \<Rightarrow> 'k \<times> 'd list \<Rightarrow> 's \<times> bool) \<Rightarrow> ('k \<times> 'd list) list \<Rightarrow> 's \<Rightarrow> 's" where
  "fold_stop f [] s = s"
| "fold_stop f (p # ps) s = (case f s p of (s', True) \<Rightarrow> s' | (s', False) \<Rightarrow> fold_stop f ps s')"

definition items :: "bool \<Rightarrow> ('k, 'd) avl_node \<Rightarrow> ('k \<times> 'd list) list" where
  "items desc x = (if desc then rev (inorder x) else inorder x)"

definition stack_items :: "bool \<Rightarrow> ('k, 'd) avl_node list \<Rightarrow> ('k \<times> 'd list) list" where
  "stack_items desc st = concat (map (\<lambda>x. (nk x, nv x) # items desc (other_side desc x)) st)"

lemma stack_items_push: "stack_items desc (push_side desc x st) = items desc x @ stack_items desc st"
  by (induction desc x st rule: push_side.induct) (auto simp: stack_items_def items_def other_side_def)

lemma push_side_not_Null: "Null \<notin> set st \<Longrightarrow> Null \<notin> set (push_side desc x st)"
  by (induction desc x st rule: push_side.induct) auto

lemma walk_fold_stop:
  assumes "\<And>s x. x \<noteq> Null \<Longrightarrow> visit s x = f s (nk x, nv x)" "Null \<notin> set st"
  shows "walk desc visit cur st s = fold_stop f (items desc cur @ stack_items desc st) s"
  using assms
proof (induction desc visit cur st s rule: walk.induct)
  case (1 desc visit cur st s)
  show ?case
  proof (cases "push_side desc cur st")
    case Nil
    then show ?thesis
      using stack_items_push [of desc cur st] by (subst walk.simps) (simp add: stack_items_def)
  next
    case (Cons x st')
    have x: "x \<noteq> Null" "Null \<notin> set st'"
      using push_side_not_Null [OF "1.prems"(2), of desc cur] Cons by auto
    have e: "items desc cur @ stack_items desc st = (nk x, nv x) # items desc (other_side desc x) @ stack_items desc st'"
      using stack_items_push [of desc cur st] Cons by (simp add: stack_items_def)
    obtain s' b where v: "visit s x = (s', b)"
      by fastforce
    have "b \<or> walk desc visit (other_side desc x) st' s' = fold_stop f (items desc (other_side desc x) @ stack_items desc st') s'"
      using "1.IH" [OF Cons] v x "1.prems"(1) by auto
    then show ?thesis
      using v x Cons e trans [OF "1.prems"(1) [OF x(1), of s, symmetric] v]
      by (subst walk.simps) (auto split: bool.splits)
  qed
qed

lemma set_add_all_append: "set_add_all (set_add_all s xs) ys = set_add_all s (xs @ ys)"
  by (simp add: set_add_all_def)

text \<open>
  A walk that collects the documents of the keys it selects and stops at a key after which none
  is selected collects exactly the selected keys.
\<close>

lemma fold_stop_filter:
  assumes "\<And>s k v. f s (k, v) = (if sel k then set_add_all s v else s, stop k)"
    and "sorted_wrt (\<lambda>p q. stop (fst p) \<longrightarrow> \<not> sel (fst q)) ps"
  shows "fold_stop f ps s = set_add_all s (concat (map snd (filter (\<lambda>(k, v). sel k) ps)))"
  using assms(2)
proof (induction ps arbitrary: s)
  case (Cons p ps)
  obtain k v where p: "p = (k, v)"
    by fastforce
  have "stop k \<Longrightarrow> filter (\<lambda>(k, v). sel k) ps = []"
    using Cons.prems p by (auto simp: filter_empty_conv)
  with Cons p show ?case
    by (auto simp: assms(1) set_add_all_append split: bool.splits)
qed simp

lemma sorted_wrt_keys: "sorted_wrt P (map fst ps) = sorted_wrt (\<lambda>p q. P (fst p) (fst q)) ps"
  by (simp add: sorted_wrt_map)

lemma walk_filter:
  assumes "bst x" "\<And>s y. y \<noteq> Null \<Longrightarrow> visit s y = (if sel (nk y) then set_add_all s (nv y) else s, stop (nk y))"
    and "\<And>a b. stop a \<Longrightarrow> (if desc then b < a else a < b) \<Longrightarrow> \<not> sel b"
  shows "walk desc visit x [] [] = set_new (concat (map snd (filter (\<lambda>(k, v). sel k) (items desc x))))"
proof -
  let ?f = "\<lambda>s (k, v). (if sel k then set_add_all s v else s, stop k)"
  have "sorted_wrt (\<lambda>p q. stop (fst p) \<longrightarrow> \<not> sel (fst q)) (items desc x)"
  proof (cases desc)
    case True
    have "sorted_wrt (\<lambda>p q. fst q > fst p) (inorder x)"
      using assms(1) by (simp add: bst_def sorted_wrt_keys)
    then have "sorted_wrt (\<lambda>p q. stop (fst q) \<longrightarrow> \<not> sel (fst p)) (inorder x)"
      by (rule sorted_wrt_mono_rel [rotated]) (use assms(3) True in auto)
    then show ?thesis
      using True by (simp add: items_def sorted_wrt_rev)
  next
    case False
    have "sorted_wrt (\<lambda>p q. fst p < fst q) (inorder x)"
      using assms(1) by (simp add: bst_def sorted_wrt_keys)
    then have "sorted_wrt (\<lambda>p q. stop (fst p) \<longrightarrow> \<not> sel (fst q)) (inorder x)"
      by (rule sorted_wrt_mono_rel [rotated]) (use assms(3) False in auto)
    then show ?thesis
      using False by (simp add: items_def)
  qed
  then have "fold_stop ?f (items desc x) [] = set_new (concat (map snd (filter (\<lambda>(k, v). sel k) (items desc x))))"
    unfolding set_new_def by (rule fold_stop_filter [rotated]) simp
  moreover have "walk desc visit x [] [] = fold_stop ?f (items desc x @ stack_items desc []) []"
    by (rule walk_fold_stop) (simp_all add: assms(2))
  ultimately show ?thesis
    by (simp add: stack_items_def)
qed

lemma rangeSearch_filter:
  "bst (root self) \<Longrightarrow> rangeSearch self e t =
   set_new (concat (map snd (filter (\<lambda>(k, v). e \<le> k \<and> k \<le> t) (inorder (root self)))))"
  unfolding rangeSearch_def
  by (subst walk_filter [where sel = "\<lambda>k. e \<le> k \<and> k \<le> t" and stop = "\<lambda>k. t < k"]) (auto simp: items_def)

lemma lessThan_filter:
  "bst (root self) \<Longrightarrow> lessThan self e t =
   set_new (concat (map snd (filter (\<lambda>(k, v). k < e \<or> t \<and> k = e) (inorder (root self)))))"
  unfolding lessThan_def
  by (subst walk_filter [where sel = "\<lambda>k. k < e \<or> t \<and> k = e" and stop = "\<lambda>k. e < k"]) (auto simp: items_def)

lemma greaterThan_filter:
  "bst (root self) \<Longrightarrow> greaterThan self e t =
   set_new (concat (map snd (filter (\<lambda>(k, v). e < k \<or> t \<and> k = e) (rev (inorder (root self))))))"
  unfolding greaterThan_def
  by (subst walk_filter [where sel = "\<lambda>k. e < k \<or> t \<and> k = e" and stop = "\<lambda>k. k < e \<or> k = e \<and> \<not> t"])
    (auto simp: items_def)

lemma avl_docs_selected:
  assumes "bst (root self)"
  shows "set (concat (map snd (filter (\<lambda>(k, v). sel k) (inorder (root self))))) = (\<Union>k \<in> {k. sel k}. avl_docs self k)"
proof -
  have "distinct (map fst (inorder (root self)))"
    using assms by (simp add: bst_def strict_sorted_iff)
  then have mem: "(k, v) \<in> set (inorder (root self)) \<longleftrightarrow> map_of (inorder (root self)) k = Some v" for k v
    by simp
  have "x \<in> set (concat (map snd (filter (\<lambda>(k, v). sel k) (inorder (root self)))))
    \<longleftrightarrow> (\<exists>k v. sel k \<and> (k, v) \<in> set (inorder (root self)) \<and> x \<in> set v)" for x
    by auto
  also have "\<dots> x \<longleftrightarrow> x \<in> (\<Union>k \<in> {k. sel k}. avl_docs self k)" for x
    unfolding mem by (auto simp: avl_docs_def avl_find_map_of [OF assms] split: option.splits)
  finally show ?thesis
    by blast
qed

lemma fold_stop_count: "fold_stop (\<lambda>e p. (Suc e, False)) ps n = n + length ps"
  by (induction ps arbitrary: n) auto

lemma avl_getSize_length: "avl_getSize self = length (inorder (root self))"
proof -
  have "avl_getSize self = fold_stop (\<lambda>e p. (e + 1, False)) (items False (root self) @ stack_items False []) 0"
    unfolding avl_getSize_def by (rule walk_fold_stop) simp_all
  then show ?thesis
    by (simp add: fold_stop_count items_def stack_items_def)
qed

subsection \<open>Removal\<close>

text \<open>
  The removals whose path the code tracks correctly: the key is absent, or its node has a parent
  and at most one child, or its successor is its right child.
\<close>

definition tracked_removal :: "('k::linorder, 'd) avl_node \<Rightarrow> 'k \<Rightarrow> bool" where
  "tracked_removal e t =
     (case descend t e [] of
        (fs, Null) \<Rightarrow> True
      | (fs, AvlNode k v l r h) \<Rightarrow> if l = Null \<or> r = Null then fs \<noteq> [] else nl r = Null)"

lemma rebalanceNode_child_balanced:
  assumes "balanced (AvlNode k v l r h)" "l = Null \<or> r = Null"
  shows "inorder (rebalanceNode_child (updateHeight (AvlNode k v l r h))) = inorder l @ inorder r"
  using assms by auto

lemma filter_split:
  assumes "splits_at t xs ys"
  shows "filter (\<lambda>p. fst p \<noteq> t) (xs @ (t, v) # ys) = xs @ ys" "filter (\<lambda>p. fst p \<noteq> t) (xs @ ys) = xs @ ys"
proof -
  have "filter (\<lambda>p. fst p \<noteq> t) xs = xs" "filter (\<lambda>p. fst p \<noteq> t) ys = ys"
    using assms by (auto simp: splits_at_def intro!: filter_True)
  then show "filter (\<lambda>p. fst p \<noteq> t) (xs @ (t, v) # ys) = xs @ ys" "filter (\<lambda>p. fst p \<noteq> t) (xs @ ys) = xs @ ys"
    by simp_all
qed

lemma removeNode_tracked:
  assumes "bst e" "balanced e" "tracked_removal e t"
  shows "inorder (removeNode e t) = filter (\<lambda>p. fst p \<noteq> t) (inorder e)"
proof -
  obtain fs y where d: "descend t e [] = (fs, y)"
    by fastforce
  note f = descend_root [OF assms(1) d]
  show ?thesis
  proof (cases y)
    case Null
    with d f filter_split(2) [OF f(2)] show ?thesis
      by (simp add: removeNode_def)
  next
    case (AvlNode k v l r h)
    have k: "k = t"
      using f(3) AvlNode by simp
    have sp: "splits_at t (fpre fs @ inorder l) (inorder r @ fpost fs)"
      using f AvlNode k assms(1) by (auto simp: bst_def splits_at_def sorted_wrt_append)
    have e: "filter (\<lambda>p. fst p \<noteq> t) (inorder e) = fpre fs @ inorder l @ inorder r @ fpost fs"
      using f(1) AvlNode k filter_split(1) [OF sp, of v] by simp
    have bal: "balanced (AvlNode k v l r h)"
      using balanced_plug_all_hole [of fs y] assms(2) f(4) AvlNode by simp
    show ?thesis
    proof (cases "l = Null \<or> r = Null")
      case True
      then obtain f1 fs1 where fs: "fs = f1 # fs1"
        using assms(3) d AvlNode by (cases fs) (auto simp: tracked_removal_def)
      show ?thesis
        using True AvlNode d fs e rebalanceNode_child_balanced [OF bal True]
        by (cases f1) (auto simp: removeNode_def inorder_ascend)
    next
      case False
      then have "nl r = Null" "r \<noteq> Null"
        using assms(3) d AvlNode by (auto simp: tracked_removal_def)
      with False AvlNode d e show ?thesis
        by (cases r) (auto simp: removeNode_def inorder_ascend)
    qed
  qed
qed

lemma avl_inv_new: "avl_inv (avl_new e)"
  by (auto simp: avl_inv_def avl_new_def bst_def new_node_def split: option.splits)

lemma avl_docs_new: "avl_docs (avl_new e) k = (case e of None \<Rightarrow> {} | Some (k', v) \<Rightarrow> if k = k' then set v else {})"
  by (auto simp: avl_docs_def avl_find_def avl_new_def new_node_def split: option.splits)

definition avl_of :: "('k::linorder \<times> 'd list) option \<Rightarrow> nat option \<Rightarrow> ('k \<times> 'd) list \<Rightarrow> ('k, 'd) avl_tree" where
  "avl_of e n ps = foldl (\<lambda>self (k, d). avl_insert k d n self) (avl_new e) ps"

lemma avl_inv_of: "avl_inv (avl_of e n ps)"
  unfolding avl_of_def by (rule avl.inv_ins_all [OF avl_inv_new])

lemma avl_docs_of: "avl_docs (avl_of None n ps) k = {d. (k, d) \<in> set ps}"
  unfolding avl_of_def by (simp add: avl.docs_ins_all [OF avl_inv_new] avl_docs_new)

lemma bst_of: "bst (root (avl_of e n ps))"
  using avl_inv_of [of e n ps] by (simp add: avl_inv_def)

lemma insertNode_nonempty:
  assumes "bst (root self)" "\<forall>(k, v) \<in> set (inorder (root self)). v \<noteq> []"
  shows "\<forall>(k, v) \<in> set (inorder (root (insertNode self t n r))). v \<noteq> []"
proof -
  have "distinct (map fst (inorder (root (insertNode self t n r))))"
    using insertNode_bst [OF assms(1)] by (simp add: bst_def strict_sorted_iff)
  moreover have "v \<noteq> []" if "map_of (inorder (root (insertNode self t n r))) k = Some v" for k v
    using that assms
    by (auto simp: insertNode_map set_add_def split: if_splits option.splits dest!: map_of_SomeD)
  ultimately show ?thesis
    by (auto dest: map_of_is_SomeI)
qed

lemma avl_of_nonempty: "\<forall>(k, v) \<in> set (inorder (root (avl_of None n ps))). v \<noteq> []"
proof (induction ps rule: rev_induct)
  case (snoc p ps)
  have "avl_of None n (ps @ [p]) = insertNode (avl_of None n ps) (fst p) (snd p) (case n of None \<Rightarrow> 1000 | Some n \<Rightarrow> n)"
    by (simp add: avl_of_def avl_insert_def split: prod.split)
  then show ?case
    using insertNode_nonempty [OF bst_of snoc] by simp
qed (simp add: avl_of_def avl_new_def)

lemma node_json_roundtrip: "\<forall>(k, v) \<in> set (inorder x). distinct v \<Longrightarrow> node_fromJSON (node_toJSON x) = x"
  by (induction x) auto

subsection \<open>Properties\<close>

text \<open>
  C9: A numeric index built by any insertions, whatever the rebalancing interval, is a search tree
  with exact node heights and duplicate-free sets, holds under each key exactly the documents
  inserted with it, and counts its distinct keys.
\<close>

theorem avl_insertions_correct:
  "avl_inv (avl_of None n ps) \<and>
   avl_docs (avl_of None n ps) k = {d. (k, d) \<in> set ps} \<and>
   avl_contains (avl_of None n ps) k = (k \<in> fst ` set ps) \<and>
   avl_getSize (avl_of None n ps) = card (fst ` set ps)"
proof -
  let ?t = "avl_of None n ps"
  have ne: "\<forall>(k, v) \<in> set (inorder (root ?t)). v \<noteq> []"
    by (rule avl_of_nonempty)
  have c: "avl_contains ?t k \<longleftrightarrow> avl_docs ?t k \<noteq> {}" for k
    using ne map_of_SomeD [of "inorder (root ?t)" k]
    by (fastforce simp: avl_contains_def avl_docs_def avl_find_map_of [OF bst_of] split: option.splits)
  have "distinct (keys (inorder (root ?t)))"
    using bst_of [of None n ps] by (simp add: bst_def strict_sorted_iff)
  then have "avl_getSize ?t = card (set (keys (inorder (root ?t))))"
    using distinct_card [of "keys (inorder (root ?t))"] by (simp add: avl_getSize_length)
  also have "set (keys (inorder (root ?t))) = {k. avl_contains ?t k}"
    using map_of_eq_None_iff [of "inorder (root ?t)"]
    by (auto simp: avl_contains_def avl_find_map_of [OF bst_of])
  also have "\<dots> = fst ` set ps"
    by (force simp: c avl_docs_of)
  finally show ?thesis
    using avl_inv_of [of None n ps] by (force simp: avl_docs_of c)
qed

text \<open>
  C31: Rebalancing on every insertion keeps the tree balanced: the code's own \<open>isBalanced\<close> holds
  after any sequence of insertions with threshold 1.
\<close>

theorem avl_balanced_with_threshold_1: "isBalanced (avl_of e (Some 1) ps)"
proof (induction ps rule: rev_induct)
  case Nil
  show ?case
    by (simp add: isBalanced_iff avl_of_def avl_new_def new_node_def split: option.split)
next
  case (snoc p ps)
  have "avl_of e (Some 1) (ps @ [p]) = insertNode (avl_of e (Some 1) ps) (fst p) (snd p) 1"
    by (simp add: avl_of_def avl_insert_def split: prod.split)
  with snoc avl_inv_of [of e "Some 1" ps] show ?case
    by (simp add: isBalanced_iff insertNode_balanced)
qed

text \<open>
  C8: The range queries of the numeric index return, without duplicates, exactly the documents
  whose key lies in the closed range, above the bound, or below it (with the bound itself when
  the inclusive flag is set).
\<close>

theorem avl_range_queries:
  "set (rangeSearch (avl_of None n ps) a b) = {d. \<exists>k. (k, d) \<in> set ps \<and> a \<le> k \<and> k \<le> b} \<and>
   set (greaterThan (avl_of None n ps) a t) = {d. \<exists>k. (k, d) \<in> set ps \<and> (if t then a \<le> k else a < k)} \<and>
   set (lessThan (avl_of None n ps) a t) = {d. \<exists>k. (k, d) \<in> set ps \<and> (if t then k \<le> a else k < a)} \<and>
   distinct (rangeSearch (avl_of None n ps) a b) \<and>
   distinct (greaterThan (avl_of None n ps) a t) \<and> distinct (lessThan (avl_of None n ps) a t)"
proof -
  let ?t = "avl_of None n ps"
  have sel: "set (concat (map snd (filter (\<lambda>(k, v). sel k) (inorder (root ?t))))) = {d. \<exists>k. (k, d) \<in> set ps \<and> sel k}" for sel
    unfolding avl_docs_selected [OF bst_of] by (auto simp: avl_docs_of)
  have r: "set (rangeSearch ?t a b) = {d. \<exists>k. (k, d) \<in> set ps \<and> a \<le> k \<and> k \<le> b}"
    unfolding rangeSearch_filter [OF bst_of] set_set_new sel by simp
  have l: "set (lessThan ?t a t) = {d. \<exists>k. (k, d) \<in> set ps \<and> (k < a \<or> t \<and> k = a)}"
    unfolding lessThan_filter [OF bst_of] set_set_new sel by simp
  have "set (greaterThan ?t a t) = set (concat (map snd (filter (\<lambda>(k, v). a < k \<or> t \<and> k = a) (inorder (root ?t)))))"
    unfolding greaterThan_filter [OF bst_of] set_set_new by (simp flip: rev_filter)
  then have g: "set (greaterThan ?t a t) = {d. \<exists>k. (k, d) \<in> set ps \<and> (a < k \<or> t \<and> k = a)}"
    unfolding sel .
  have "distinct (rangeSearch ?t a b) \<and> distinct (greaterThan ?t a t) \<and> distinct (lessThan ?t a t)"
    by (simp add: rangeSearch_filter [OF bst_of] lessThan_filter [OF bst_of] greaterThan_filter [OF bst_of])
  with r show ?thesis
    unfolding l g by (auto simp: order_le_less split: if_splits)
qed

text \<open>A numeric index read back from its JSON form is the index that was written.\<close>

theorem avl_json_roundtrip:
  assumes "avl_inv self"
  shows "avl_fromJSON (apsnd Some (avl_toJSON self)) = self"
  using assms node_json_roundtrip [of "root self"]
  by (simp add: avl_inv_def avl_fromJSON_def avl_toJSON_def)

theorem avl_json_roundtrip_witness:
  "avl_fromJSON (apsnd Some (avl_toJSON (avl_of None (Some 1) [(3::int, 10::nat), (1, 11), (3, 12)]))) =
   avl_of None (Some 1) [(3, 10), (1, 11), (3, 12)]"
  by (rule avl_json_roundtrip [OF avl_inv_of])

text \<open>
  In a balanced tree, removing a key whose node is not the root and has at most one child, or
  whose successor is its right child, or that is absent, removes exactly that key.
\<close>

theorem avl_remove_tracked:
  assumes "avl_inv self" "isBalanced self" "tracked_removal (root self) t"
  shows "inorder (root (avl_remove t self)) = filter (\<lambda>p. fst p \<noteq> t) (inorder (root self))"
  using assms by (simp add: avl_remove_def avl_inv_def isBalanced_iff removeNode_tracked)

theorem avl_remove_tracked_witness:
  "inorder (root (avl_remove 3 (avl_of None (Some 1) [(2::int, 10::nat), (1, 11), (3, 12)]))) = [(1, [11]), (2, [10])]"
proof -
  let ?t = "avl_of None (Some 1) [(2::int, 10::nat), (1, 11), (3, 12)]"
  have "isBalanced ?t" "tracked_removal (root ?t) 3" "inorder (root ?t) = [(1, [11]), (2, [10]), (3, [12])]"
    by code_simp+
  with avl_remove_tracked [OF avl_inv_of, of None "Some 1" "[(2::int, 10::nat), (1, 11), (3, 12)]" 3] show ?thesis
    by simp
qed


end
