(* ===== verification/Orama_Flat.thy ===== *)
theory Orama_Flat
  imports Orama_Util
begin

text \<open>
  The index of enum fields (class \<^verbatim>\<open>le\<close>), a map from values to document sets with its
  filter operations, and the index of boolean fields (class \<^verbatim>\<open>me\<close>), two document sets,
  both in \<^verbatim>\<open>assets/js/search-orama.js\<close>. The filter argument is the list of the
  operations of the source's object, one constructor per operation name.
\<close>

subsection \<open>Enum fields\<close>

record ('k, 'd) flat =
  numberToDocumentId :: "('k, 'd list) jsmap"

datatype 'k flat_op = OpEq 'k | OpIn "'k list" | OpNin "'k list" | OpOther jsstring

datatype 'k flat_arr_op = ContainsAll "'k list" | ContainsAny "'k list" | ArrOther jsstring

definition flat_new :: "('k, 'd) flat" where
  "flat_new = \<lparr>numberToDocumentId = []\<rparr>"

definition flat_insert :: "'k \<Rightarrow> 'd \<Rightarrow> ('k, 'd) flat \<Rightarrow> ('k, 'd) flat" where
  "flat_insert e t self =
     (case map_get (numberToDocumentId self) e of
        Some s \<Rightarrow> self\<lparr>numberToDocumentId := map_set e (set_add t s) (numberToDocumentId self)\<rparr>
      | None \<Rightarrow> self\<lparr>numberToDocumentId := map_set e (set_new [t]) (numberToDocumentId self)\<rparr>)"

definition flat_find :: "('k, 'd) flat \<Rightarrow> 'k \<Rightarrow> 'd list option" where
  "flat_find self e = map_get (numberToDocumentId self) e"

definition flat_remove :: "'k \<Rightarrow> ('k, 'd) flat \<Rightarrow> ('k, 'd) flat" where
  "flat_remove e self = self\<lparr>numberToDocumentId := map_del e (numberToDocumentId self)\<rparr>"

definition flat_removeDocument :: "'d \<Rightarrow> 'k \<Rightarrow> ('k, 'd) flat \<Rightarrow> ('k, 'd) flat" where
  "flat_removeDocument e t self =
     (case map_get (numberToDocumentId self) t of
        None \<Rightarrow> self
      | Some n \<Rightarrow>
          (let n' = set_delete e n
           in if length n' = 0 then self\<lparr>numberToDocumentId := map_del t (numberToDocumentId self)\<rparr>
              else self\<lparr>numberToDocumentId := map_set t n' (numberToDocumentId self)\<rparr>))"

definition flat_contains :: "('k, 'd) flat \<Rightarrow> 'k \<Rightarrow> bool" where
  "flat_contains self e = (map_get (numberToDocumentId self) e \<noteq> None)"

definition flat_getSize :: "('k, 'd) flat \<Rightarrow> nat" where
  "flat_getSize self = foldl (\<lambda>e (k, t). e + length t) 0 (numberToDocumentId self)"

definition set_or_empty :: "('k, 'd) flat \<Rightarrow> 'k \<Rightarrow> 'd list" where
  "set_or_empty self k = (case map_get (numberToDocumentId self) k of None \<Rightarrow> [] | Some s \<Rightarrow> s)"

definition flat_filter :: "('k, 'd) flat \<Rightarrow> 'k flat_op list \<Rightarrow> 'd list jsresult" where
  "flat_filter self e =
     (case e of
        [OpEq t] \<Rightarrow> Inr (set_or_empty self t)
      | [OpIn t] \<Rightarrow> Inr (foldl (\<lambda>r e. set_add_all r (set_or_empty self e)) [] t)
      | [OpNin t] \<Rightarrow>
          Inr (foldl (\<lambda>r (e, n). if e \<notin> set (set_new t) then set_add_all r n else r) [] (numberToDocumentId self))
      | _ \<Rightarrow> Inl (JsError (js ''Invalid operation'')))"

definition flat_filterArr :: "('k, 'd) flat \<Rightarrow> 'k flat_arr_op list \<Rightarrow> 'd list jsresult" where
  "flat_filterArr self e =
     (case e of
        [ContainsAll ks] \<Rightarrow>
          Inr (case map (set_or_empty self) ks of
                 [] \<Rightarrow> []
               | t # ts \<Rightarrow> foldl (\<lambda>e t. set_new (filter (\<lambda>x. x \<in> set t) e)) t ts)
      | [ContainsAny ks] \<Rightarrow>
          Inr (case map (set_or_empty self) ks of
                 [] \<Rightarrow> []
               | t # ts \<Rightarrow> foldl (\<lambda>e t. set_new (e @ t)) t ts)
      | _ \<Rightarrow> Inl (JsError (js ''Invalid operation'')))"

definition flat_toJSON :: "('k, 'd) flat \<Rightarrow> ('k \<times> 'd list) list" where
  "flat_toJSON self = numberToDocumentId self"

definition flat_fromJSON :: "('k \<times> 'd list) list option \<Rightarrow> ('k, 'd) flat jsresult" where
  "flat_fromJSON e =
     (case e of
        None \<Rightarrow> Inl (JsError (js ''Invalid Flat Tree JSON''))
      | Some kvs \<Rightarrow>
          Inr (foldl (\<lambda>t (n, r). t\<lparr>numberToDocumentId := map_set n (set_new r) (numberToDocumentId t)\<rparr>) flat_new kvs))"

subsection \<open>Boolean fields\<close>

record 'd bool_node =
  bn_true :: "'d list"
  bn_false :: "'d list"

definition bool_new :: "'d bool_node" where
  "bool_new = \<lparr>bn_true = [], bn_false = []\<rparr>"

definition bool_insert :: "'d \<Rightarrow> bool \<Rightarrow> 'd bool_node \<Rightarrow> 'd bool_node" where
  "bool_insert e t self =
     (if t then self\<lparr>bn_true := set_add e (bn_true self)\<rparr> else self\<lparr>bn_false := set_add e (bn_false self)\<rparr>)"

definition bool_delete :: "'d \<Rightarrow> bool \<Rightarrow> 'd bool_node \<Rightarrow> 'd bool_node" where
  "bool_delete e t self =
     (if t then self\<lparr>bn_true := set_delete e (bn_true self)\<rparr> else self\<lparr>bn_false := set_delete e (bn_false self)\<rparr>)"

definition bool_getSize :: "'d bool_node \<Rightarrow> nat" where
  "bool_getSize self = length (bn_true self) + length (bn_false self)"

definition bool_toJSON :: "'d bool_node \<Rightarrow> 'd list \<times> 'd list" where
  "bool_toJSON self = (bn_true self, bn_false self)"

definition bool_fromJSON :: "'d list \<times> 'd list \<Rightarrow> 'd bool_node" where
  "bool_fromJSON e = \<lparr>bn_true = set_new (fst e), bn_false = set_new (snd e)\<rparr>"

subsection \<open>Invariants\<close>

definition flat_inv :: "('k, 'd) flat \<Rightarrow> bool" where
  "flat_inv self =
     (wf_map (numberToDocumentId self) \<and> (\<forall>(k, s) \<in> set (numberToDocumentId self). distinct s \<and> s \<noteq> []))"

definition flat_docs :: "('k, 'd) flat \<Rightarrow> 'k \<Rightarrow> 'd set" where
  "flat_docs self k = set (set_or_empty self k)"

definition bool_inv :: "'d bool_node \<Rightarrow> bool" where
  "bool_inv self = (distinct (bn_true self) \<and> distinct (bn_false self))"

definition bool_docs :: "'d bool_node \<Rightarrow> bool \<Rightarrow> 'd set" where
  "bool_docs self b = set (if b then bn_true self else bn_false self)"

lemma flat_inv_iff:
  "flat_inv self \<longleftrightarrow> wf_map (numberToDocumentId self) \<and>
     (\<forall>k s. map_get (numberToDocumentId self) k = Some s \<longrightarrow> distinct s \<and> s \<noteq> [])"
proof -
  have "wf_map (numberToDocumentId self) \<Longrightarrow>
    (k, s) \<in> set (numberToDocumentId self) \<longleftrightarrow> map_get (numberToDocumentId self) k = Some s" for k s
    by (simp add: wf_map_def)
  then show ?thesis
    unfolding flat_inv_def by blast
qed

lemma flat_docs_get: "flat_docs self k = (case map_get (numberToDocumentId self) k of None \<Rightarrow> {} | Some s \<Rightarrow> set s)"
  by (simp add: flat_docs_def set_or_empty_def split: option.split)

interpretation flat: doc_index flat_inv flat_insert flat_docs
proof
  show "flat_inv (flat_insert k d s)" if "flat_inv s" for s :: "('a, 'b) flat" and k d
    using that by (auto simp: flat_inv_iff flat_insert_def set_add_def split: option.splits)
  show "flat_docs (flat_insert k d s) k' = (if k' = k then insert d (flat_docs s k) else flat_docs s k')"
    if "flat_inv s" for s :: "('a, 'b) flat" and k d k'
    by (auto simp: flat_docs_get flat_insert_def split: option.splits)
qed

interpretation boolean: doc_index bool_inv "\<lambda>b d. bool_insert d b" bool_docs
  by unfold_locales (auto simp: bool_inv_def bool_insert_def bool_docs_def)

lemma flat_inv_removeDocument: "flat_inv self \<Longrightarrow> flat_inv (flat_removeDocument d k self)"
  by (auto simp: flat_inv_iff flat_removeDocument_def Let_def split: option.splits)

lemma flat_docs_removeDocument:
  "flat_docs (flat_removeDocument d k self) k' = (if k' = k then flat_docs self k - {d} else flat_docs self k')"
  by (auto simp: flat_docs_get flat_removeDocument_def Let_def split: option.splits)
    (metis Diff_iff empty_iff insert_iff list.set(1) set_set_delete)+

lemma set_or_empty_docs [simp]: "set (set_or_empty self k) = flat_docs self k"
  by (simp add: flat_docs_def)

lemma set_foldl_union: "set (foldl (\<lambda>r e. set_add_all r (g e)) r t) = set r \<union> (\<Union>e \<in> set t. set (g e))"
  by (induction t arbitrary: r) auto

lemma distinct_foldl_union: "distinct r \<Longrightarrow> distinct (foldl (\<lambda>r e. set_add_all r (g e)) r t)"
  by (induction t arbitrary: r) auto

lemma set_foldl_nin:
  "set (foldl (\<lambda>r (e, n). if P e then set_add_all r n else r) r kvs) = set r \<union> {x. \<exists>e n. (e, n) \<in> set kvs \<and> P e \<and> x \<in> set n}"
proof (induction kvs arbitrary: r)
  case (Cons p kvs)
  then show ?case
    by (cases p) (auto simp: Cons)
qed simp

lemma distinct_foldl_nin: "distinct r \<Longrightarrow> distinct (foldl (\<lambda>r (e, n). if P e then set_add_all r n else r) r kvs)"
  by (induction kvs arbitrary: r) auto

lemma set_foldl_inter: "set (foldl (\<lambda>e t. set_new (filter (\<lambda>x. x \<in> set t) e)) s ts) = set s \<inter> \<Inter> (set ` set ts)"
  by (induction ts arbitrary: s) auto

lemma set_foldl_append: "set (foldl (\<lambda>e t. set_new (e @ t)) s ts) = set s \<union> \<Union> (set ` set ts)"
  by (induction ts arbitrary: s) auto

definition flat_of :: "('k \<times> 'd) list \<Rightarrow> ('k, 'd) flat" where
  "flat_of ps = foldl (\<lambda>s (k, d). flat_insert k d s) flat_new ps"

lemma flat_inv_new: "flat_inv flat_new"
  by (simp add: flat_inv_def flat_new_def)

lemma flat_inv_of: "flat_inv (flat_of ps)"
  unfolding flat_of_def by (rule flat.inv_ins_all [OF flat_inv_new])

lemma flat_docs_of: "flat_docs (flat_of ps) k = {d. (k, d) \<in> set ps}"
  unfolding flat_of_def flat.docs_ins_all [OF flat_inv_new]
  by (simp add: flat_docs_get flat_new_def)

lemma flat_json_roundtrip_aux:
  "wf_map (m @ kvs) \<Longrightarrow> \<forall>(k, s) \<in> set kvs. distinct s \<Longrightarrow>
   foldl (\<lambda>t (n, r). t\<lparr>numberToDocumentId := map_set n (set_new r) (numberToDocumentId t)\<rparr>) \<lparr>numberToDocumentId = m\<rparr> kvs
   = \<lparr>numberToDocumentId = m @ kvs\<rparr>"
proof (induction kvs arbitrary: m)
  case (Cons p kvs)
  obtain k s where p: "p = (k, s)"
    by fastforce
  have "map_get m k = None"
    using Cons.prems(1) p by (auto simp: wf_map_def map_of_eq_None_iff)
  with Cons p show ?case
    by (simp add: map_set_new)
qed simp

subsection \<open>Properties\<close>

text \<open>
  The filters of an enum field built by any insertions return exactly the documents they
  describe: \<open>eq\<close> those with the value, \<open>in\<close> those with one of the values, \<open>nin\<close> those with a
  value outside the list, and for array fields \<open>containsAll\<close> those with every value of a non-empty
  list and \<open>containsAny\<close> those with some value of it; anything but one known operation is an error.
\<close>

theorem flat_filters_correct:
  fixes ps :: "('k \<times> 'd) list"
  shows
  "(\<exists>r. flat_filter (flat_of ps) [OpEq k] = Inr r \<and> set r = {d. (k, d) \<in> set ps}) \<and>
   (\<exists>r. flat_filter (flat_of ps) [OpIn ks] = Inr r \<and> distinct r \<and> set r = {d. \<exists>k \<in> set ks. (k, d) \<in> set ps}) \<and>
   (\<exists>r. flat_filter (flat_of ps) [OpNin ks] = Inr r \<and> distinct r \<and> set r = {d. \<exists>k. k \<notin> set ks \<and> (k, d) \<in> set ps}) \<and>
   (\<exists>r. flat_filterArr (flat_of ps) [ContainsAll (k # ks)] = Inr r \<and>
      set r = {d. (k, d) \<in> set ps} \<inter> (\<Inter>k \<in> set ks. {d. (k, d) \<in> set ps})) \<and>
   (\<exists>r. flat_filterArr (flat_of ps) [ContainsAny ks] = Inr r \<and> set r = {d. \<exists>k \<in> set ks. (k, d) \<in> set ps}) \<and>
   flat_filterArr (flat_of ps) [ContainsAll []] = Inr [] \<and>
   flat_filter (flat_of ps) [] = Inl (JsError (js ''Invalid operation''))"
proof -
  let ?t = "flat_of ps"
  have wf: "wf_map (numberToDocumentId ?t)"
    using flat_inv_of [of ps] by (simp add: flat_inv_def)
  then have mem: "(k, s) \<in> set (numberToDocumentId ?t) \<longleftrightarrow> map_get (numberToDocumentId ?t) k = Some s" for k s
    by (simp add: wf_map_def)
  have nin: "{x. \<exists>e n. (e, n) \<in> set (numberToDocumentId ?t) \<and> e \<notin> set ks \<and> x \<in> set n}
    = (\<Union>k \<in> - set ks. flat_docs ?t k)"
    unfolding mem by (fastforce simp: flat_docs_get split: option.splits)
  have any: "set (case map (set_or_empty ?t) ks of [] \<Rightarrow> [] | t # ts \<Rightarrow> foldl (\<lambda>e t. set_new (e @ t)) t ts)
    = {d. \<exists>k \<in> set ks. (k, d) \<in> set ps}"
    by (cases ks) (auto simp: set_foldl_append flat_docs_of)
  show ?thesis
    using any by (auto simp: flat_filter_def flat_filterArr_def flat_docs_of set_foldl_union distinct_foldl_union
        set_foldl_nin distinct_foldl_nin nin set_foldl_inter)
qed

text \<open>
  Removing a document from an enum field removes it from that value only and drops the value
  when it was its last document, and the field read back from its JSON form is the field written.
\<close>

theorem flat_remove_and_json:
  assumes "flat_inv self"
  shows "flat_inv (flat_removeDocument d k self) \<and>
    flat_docs (flat_removeDocument d k self) k' = (if k' = k then flat_docs self k - {d} else flat_docs self k') \<and>
    flat_contains (flat_removeDocument d k self) k' = (flat_docs (flat_removeDocument d k self) k' \<noteq> {}) \<and>
    flat_fromJSON (Some (flat_toJSON self)) = Inr self"
proof -
  have "flat_inv s \<Longrightarrow> flat_contains s k' \<longleftrightarrow> flat_docs s k' \<noteq> {}" for s :: "('a, 'b) flat"
    by (auto simp: flat_contains_def flat_docs_get flat_inv_iff split: option.splits)
  moreover have "flat_fromJSON (Some (flat_toJSON self)) = Inr self"
    unfolding flat_fromJSON_def flat_toJSON_def flat_new_def
    using flat_json_roundtrip_aux [of "[]" "numberToDocumentId self"] assms
    by (fastforce simp: flat_inv_def)
  ultimately show ?thesis
    using flat_inv_removeDocument [OF assms] flat_docs_removeDocument by metis
qed

theorem flat_remove_and_json_witness:
  "let self = flat_of [(js ''a'', 1::nat), (js ''b'', 1), (js ''a'', 2)]
   in flat_docs (flat_removeDocument 1 (js ''b'') self) (js ''b'') = {} \<and>
      \<not> flat_contains (flat_removeDocument 1 (js ''b'') self) (js ''b'') \<and>
      flat_fromJSON (Some (flat_toJSON self)) = Inr self"
proof -
  let ?s = "flat_of [(js ''a'', 1::nat), (js ''b'', 1), (js ''a'', 2)]"
  have "js ''a'' \<noteq> js ''b''"
    by code_simp
  then have "flat_docs ?s (js ''b'') = {1}"
    by (auto simp: flat_docs_of)
  with flat_remove_and_json [OF flat_inv_of, of 1 "js ''b''" "[(js ''a'', 1::nat), (js ''b'', 1), (js ''a'', 2)]" "js ''b''"]
  show ?thesis
    by (simp add: Let_def)
qed

end
