(* ===== verification/Orama_Levenshtein.thy ===== *)
theory Orama_Levenshtein
  imports Prelude
begin

text \<open>
  The bounded edit distance of the search engine (\<^verbatim>\<open>ue\<close> and \<^verbatim>\<open>fe\<close> of
  \<^verbatim>\<open>assets/js/search-orama.js\<close>). The matrix is filled row by row and each entry uses the
  previous row and the entry to its left only, so the model keeps the last row. The reference is
  the least number of edits over all alignments of the two words.
\<close>

subsection \<open>The code\<close>

fun lev_row :: "'a \<Rightarrow> nat \<Rightarrow> nat \<Rightarrow> nat list \<Rightarrow> 'a list \<Rightarrow> nat list" where
  "lev_row c left diag (up # prev) (y # ys) =
     (let v = (if c = y then diag else min (up + 1) (min (left + 1) (diag + 1)))
      in v # lev_row c v up prev ys)"
| "lev_row c left diag prev ys = []"

fun row_min :: "nat list \<Rightarrow> nat option" where
  "row_min [] = None"
| "row_min (x # xs) = (case row_min xs of None \<Rightarrow> Some x | Some m \<Rightarrow> Some (min x m))"

fun lev_rows :: "nat \<Rightarrow> 'a list \<Rightarrow> nat list \<Rightarrow> 'a list \<Rightarrow> int \<Rightarrow> nat list option" where
  "lev_rows s [] row t n = Some row"
| "lev_rows s (c # cs) row t n =
     (let entries = lev_row c (s + 1) (hd row) (tl row) t
      in case row_min entries of
           None \<Rightarrow> None
         | Some r \<Rightarrow> if int r > n then None else lev_rows (s + 1) cs ((s + 1) # entries) t n)"

definition boundedLevenshtein :: "'a list \<Rightarrow> 'a list \<Rightarrow> int \<Rightarrow> int" where
  "boundedLevenshtein e t n =
     (let r = int (length e); ol = int (length t); s = abs (r - ol)
      in if n < 0 then - 1
         else if e = t then 0
         else if r = 0 then (if ol \<le> n then ol else - 1)
         else if ol = 0 then (if r \<le> n then r else - 1)
         else if startsWith e t then (if s \<le> n then s else - 1)
         else if startsWith t e then 0
         else if s > n then - 1
         else (case lev_rows 0 e [0..<length t + 1] t n of
                 None \<Rightarrow> - 1
               | Some row \<Rightarrow> if int (last row) \<le> n then int (last row) else - 1))"

definition syncBoundedLevenshtein :: "'a list \<Rightarrow> 'a list \<Rightarrow> int \<Rightarrow> int \<times> bool" where
  "syncBoundedLevenshtein e t n = (let r = boundedLevenshtein e t n in (r, r \<ge> 0))"

subsection \<open>The reference\<close>

text \<open>An alignment of two words with its number of edits.\<close>

inductive edits :: "nat \<Rightarrow> 'a list \<Rightarrow> 'a list \<Rightarrow> bool" where
  edits_Nil: "edits 0 [] []"
| edits_keep: "edits k xs ys \<Longrightarrow> edits k (xs @ [x]) (ys @ [x])"
| edits_change: "edits k xs ys \<Longrightarrow> edits (k + 1) (xs @ [x]) (ys @ [y])"
| edits_delete: "edits k xs ys \<Longrightarrow> edits (k + 1) (xs @ [x]) ys"
| edits_insert: "edits k xs ys \<Longrightarrow> edits (k + 1) xs (ys @ [y])"

definition edit_distance :: "'a list \<Rightarrow> 'a list \<Rightarrow> nat" where
  "edit_distance xs ys = (LEAST k. edits k xs ys)"

text \<open>The recurrence the code fills in, on the reversed words.\<close>

fun lev :: "'a list \<Rightarrow> 'a list \<Rightarrow> nat" where
  "lev [] ys = length ys"
| "lev xs [] = length xs"
| "lev (x # xs) (y # ys) =
     (if x = y then lev xs ys else min (lev xs (y # ys) + 1) (min (lev (x # xs) ys + 1) (lev xs ys + 1)))"

lemma lev_Nil2 [simp]: "lev xs [] = length xs"
  by (cases xs) auto

lemma lev_Cons_le_all:
  "lev (x # xs) ys \<le> lev xs ys + 1 \<and> lev xs ys \<le> lev (x # xs) ys + 1 \<and>
   lev xs (y # ys) \<le> lev xs ys + 1 \<and> lev xs ys \<le> lev xs (y # ys) + 1"
proof (induction "length xs + length ys" arbitrary: xs ys x y rule: less_induct)
  case less
  have 1: "lev (x # xs) ys \<le> lev xs ys + 1 \<and> lev xs ys \<le> lev (x # xs) ys + 1"
  proof (cases ys)
    case (Cons v vs)
    then have "lev (x # xs) vs \<le> lev xs vs + 1 \<and> lev xs vs \<le> lev (x # xs) vs + 1 \<and>
      lev xs (v # vs) \<le> lev xs vs + 1 \<and> lev xs vs \<le> lev xs (v # vs) + 1"
      by (intro less) simp
    with Cons show ?thesis
      by auto
  qed simp
  have 2: "lev xs (y # ys) \<le> lev xs ys + 1 \<and> lev xs ys \<le> lev xs (y # ys) + 1"
  proof (cases xs)
    case (Cons u us)
    then have "lev (u # us) ys \<le> lev us ys + 1 \<and> lev us ys \<le> lev (u # us) ys + 1 \<and>
      lev us (y # ys) \<le> lev us ys + 1 \<and> lev us ys \<le> lev us (y # ys) + 1"
      by (intro less) simp
    with Cons show ?thesis
      by auto
  qed simp
  show ?case
    using 1 2 by blast
qed

lemmas lev_Cons_le =
  lev_Cons_le_all [THEN conjunct1]
  lev_Cons_le_all [THEN conjunct2, THEN conjunct1]
  lev_Cons_le_all [THEN conjunct2, THEN conjunct2, THEN conjunct1]
  lev_Cons_le_all [THEN conjunct2, THEN conjunct2, THEN conjunct2]

lemma edits_lev: "edits k xs ys \<Longrightarrow> lev (rev xs) (rev ys) \<le> k"
proof (induction rule: edits.induct)
  case (edits_change k xs ys x y)
  then show ?case
    by auto
next
  case (edits_delete k xs ys x)
  then show ?case
    using lev_Cons_le(1) [of x "rev xs" "rev ys"] by simp
next
  case (edits_insert k xs ys y)
  then show ?case
    using lev_Cons_le(3) [of "rev xs" y "rev ys"] by simp
qed simp_all

lemma lev_edits: "edits (lev xs ys) (rev xs) (rev ys)"
proof (induction xs ys rule: lev.induct)
  case (1 ys)
  show ?case
    by (induction ys) (auto intro: edits_Nil dest: edits_insert)
next
  case (2 x xs)
  have "edits (length xs) (rev xs) []" for xs :: "'a list"
    by (induction xs) (auto intro: edits_Nil dest: edits_delete)
  from this [of "x # xs"] show ?case
    by simp
next
  case (3 x xs y ys)
  show ?case
  proof (cases "x = y")
    case True
    with 3 show ?thesis
      using edits_keep by fastforce
  next
    case False
    have "edits (lev xs (y # ys) + 1) (rev (x # xs)) (rev (y # ys))"
      "edits (lev (x # xs) ys + 1) (rev (x # xs)) (rev (y # ys))"
      "edits (lev xs ys + 1) (rev (x # xs)) (rev (y # ys))"
      using 3 False edits_delete edits_insert edits_change by fastforce+
    with False show ?thesis
      by (auto simp: min_def)
  qed
qed

lemma edit_distance_lev: "edit_distance xs ys = lev (rev xs) (rev ys)"
  unfolding edit_distance_def
proof (rule Least_equality)
  show "edits (lev (rev xs) (rev ys)) xs ys"
    using lev_edits [of "rev xs" "rev ys"] by simp
qed (rule edits_lev)

subsection \<open>The rows are the recurrence\<close>

definition lev_table_row :: "'a list \<Rightarrow> 'a list \<Rightarrow> nat list" where
  "lev_table_row p t = map (\<lambda>j. lev (rev p) (rev (take j t))) [0..<length t + 1]"

lemma lev_row_correct:
  assumes "t = u @ ys"
  shows "lev_row c (lev (rev (p @ [c])) (rev u)) (lev (rev p) (rev u))
      (map (\<lambda>j. lev (rev p) (rev (take j t))) [length u + 1..<length t + 1]) ys
    = map (\<lambda>j. lev (rev (p @ [c])) (rev (take j t))) [length u + 1..<length t + 1]"
  using assms
proof (induction ys arbitrary: u)
  case (Cons y ys)
  have up: "[length u + 1..<length t + 1] = (length u + 1) # [length (u @ [y]) + 1..<length t + 1]"
    using Cons.prems by (simp add: upt_conv_Cons del: upt_Suc)
  have tk: "take (length u + 1) t = u @ [y]"
    using Cons.prems by simp
  show ?case
    unfolding up using Cons.IH [of "u @ [y]"] Cons.prems tk by (simp add: Let_def)
qed simp

lemma lev_table_row_step:
  "lev_table_row (p @ [c]) t =
   (length p + 1) # lev_row c (length p + 1) (hd (lev_table_row p t)) (tl (lev_table_row p t)) t"
proof -
  have up: "[0..<length t + 1] = 0 # [1..<length t + 1]"
    by (simp add: upt_conv_Cons del: upt_Suc)
  show ?thesis
    using lev_row_correct [of t "[]" t c p] unfolding lev_table_row_def up by simp
qed

lemma lev_table_row_Nil: "lev_table_row [] t = [0..<length t + 1]"
  unfolding lev_table_row_def by (rule map_idI) auto

lemma last_lev_table_row: "last (lev_table_row p t) = lev (rev p) (rev t)"
  by (simp add: lev_table_row_def last_map)

lemma row_min_spec: "(row_min xs = None \<longleftrightarrow> xs = []) \<and> (\<forall>m. row_min xs = Some m \<longrightarrow> (\<forall>x \<in> set xs. m \<le> x))"
  by (induction xs) (auto simp: min.coboundedI2 split: option.splits)

text \<open>Once a whole row exceeds the bound every later row does.\<close>

lemma lev_rows_grow:
  assumes "\<forall>j \<le> length t. n < lev (rev p) (rev (take j t))"
  shows "j \<le> length t \<Longrightarrow> n < lev (rev (p @ [c])) (rev (take j t))"
proof (induction j)
  case 0
  show ?case
    using assms [rule_format, of 0] by simp
next
  case (Suc j)
  have "take (Suc j) t = take j t @ [t ! j]"
    using Suc.prems by (simp add: take_Suc_conv_app_nth)
  then show ?case
    using Suc assms [rule_format, of j] assms [rule_format, of "Suc j"] by auto
qed

lemma lev_rows_grow_all:
  "\<forall>j \<le> length t. n < lev (rev p) (rev (take j t)) \<Longrightarrow> n < lev (rev (p @ cs)) (rev t)"
proof (induction cs arbitrary: p)
  case Nil
  then show ?case
    by (metis append_Nil2 order_refl take_all)
next
  case (Cons c cs)
  then show ?case
    using Cons.IH [of "p @ [c]"] lev_rows_grow [OF Cons.prems] by simp
qed

lemma lev_rows_spec:
  assumes "t \<noteq> []"
  shows "case lev_rows (length p) cs (lev_table_row p t) t n of
      None \<Rightarrow> n < int (lev (rev (p @ cs)) (rev t))
    | Some row \<Rightarrow> row = lev_table_row (p @ cs) t"
proof (induction cs arbitrary: p)
  case (Cons c cs)
  let ?es = "lev_row c (length p + 1) (hd (lev_table_row p t)) (tl (lev_table_row p t)) t"
  note row = lev_table_row_step [of p c t]
  have es: "?es = map (\<lambda>j. lev (rev (p @ [c])) (rev (take j t))) [1..<length t + 1]"
    using row by (simp add: lev_table_row_def upt_conv_Cons del: upt_Suc)
  have "?es \<noteq> []"
    unfolding es using assms by (cases t) auto
  then obtain m where m: "row_min ?es = Some m" "\<forall>x \<in> set ?es. m \<le> x"
    using row_min_spec [of ?es] by blast
  show ?case
  proof (cases "int m > n")
    case True
    have ge: "n < int (lev (rev (p @ [c])) (rev (take j t)))" if "1 \<le> j" "j \<le> length t" for j
    proof -
      have "lev (rev (p @ [c])) (rev (take j t)) \<in> set ?es"
        unfolding es set_map using that by (intro imageI) (simp del: upt_Suc)
      then show ?thesis
        using m(2) True by fastforce
    qed
    obtain y ys where t: "t = y # ys"
      using assms by (cases t) auto
    have "n < int (length p + 1)"
      using ge [of 1] t by (auto split: if_splits)
    then have "n < int (lev (rev (p @ [c])) (rev (take j t)))" if "j \<le> length t" for j
      using ge [of j] that by (cases j) auto
    then have "nat n < lev (rev (p @ [c])) (rev (take j t)) \<or> n < 0" if "j \<le> length t" for j
      using that by fastforce
    then have "n < int (lev (rev ((p @ [c]) @ cs)) (rev t))"
      using lev_rows_grow_all [of t "nat n" "p @ [c]" cs] by (cases "n < 0") auto
    with True m show ?thesis
      by simp
  next
    case False
    with m Cons.IH [of "p @ [c]", unfolded append_assoc append_Cons append_Nil] row show ?thesis
      by simp
  qed
qed simp

lemma lev_ge_diff: "int (lev xs ys) \<ge> abs (int (length xs) - int (length ys))"
  by (induction xs ys rule: lev.induct) auto

lemma edits_append: "edits k xs ys \<Longrightarrow> edits (k + length u) (xs @ u) ys"
proof (induction u rule: rev_induct)
  case (snoc x u)
  then show ?case
    using edits_delete [of "k + length u" "xs @ u" ys x] by simp
qed simp

lemma edits_refl: "edits 0 xs xs"
  by (induction xs rule: rev_induct) (auto intro: edits_Nil edits_keep)

lemma edit_distance_prefix: "edit_distance (t @ u) t = length u"
proof (rule antisym)
  show "edit_distance (t @ u) t \<le> length u"
    using edits_lev [OF edits_append [OF edits_refl]] by (fastforce simp: edit_distance_lev)
  show "length u \<le> edit_distance (t @ u) t"
    using lev_ge_diff [of "rev (t @ u)" "rev t"] by (simp add: edit_distance_lev)
qed

text \<open>
  C18: The bounded distance of a word to a target is the least number of edits that turn one into
  the other when that is within the bound and -1 when it is not, except that a target that starts
  with the (non-empty) word is at distance 0; the early exit on a row never changes the result.
\<close>

theorem boundedLevenshtein_correct:
  "boundedLevenshtein e t n =
   (if n < 0 then - 1
    else if e \<noteq> [] \<and> startsWith t e then 0
    else if int (edit_distance e t) \<le> n then int (edit_distance e t) else - 1)"
proof -
  let ?d = "edit_distance e t"
  have nil: "e = [] \<Longrightarrow> ?d = length t" "t = [] \<Longrightarrow> ?d = length e"
    by (simp_all add: edit_distance_lev)
  have same: "e = t \<Longrightarrow> ?d = 0"
    using edit_distance_prefix [of t "[]"] by simp
  have pre: "startsWith e t \<Longrightarrow> ?d = length e - length t \<and> length t \<le> length e"
    using edit_distance_prefix by (fastforce simp: startsWith_iff)
  have diff: "abs (int (length e) - int (length t)) \<le> int ?d"
    using lev_ge_diff [of "rev e" "rev t"] by (simp add: edit_distance_lev)
  have rows: "t \<noteq> [] \<Longrightarrow> case lev_rows 0 e [0..<length t + 1] t n of
      None \<Rightarrow> n < int ?d | Some row \<Rightarrow> last row = ?d"
    using lev_rows_spec [of t n "[]" e]
    by (auto simp: lev_table_row_Nil edit_distance_lev last_lev_table_row split: option.splits)
  have both: "startsWith e t \<Longrightarrow> startsWith t e \<Longrightarrow> e = t"
    by (auto simp: startsWith_iff)
  consider "n < 0" | "0 \<le> n" "e = t" | "0 \<le> n" "e \<noteq> t" "e = []" | "0 \<le> n" "e \<noteq> t" "e \<noteq> []" "t = []"
    | "0 \<le> n" "e \<noteq> t" "e \<noteq> []" "t \<noteq> []"
    by fastforce
  then show ?thesis
  proof cases
    case 5
    then show ?thesis
      using pre diff rows both by (auto simp: boundedLevenshtein_def Let_def split: option.splits)
  qed (use nil same in \<open>auto simp: boundedLevenshtein_def Let_def startsWith_def\<close>)
qed

end
