(* ===== verification/Orama_Radix.thy ===== *)
theory Orama_Radix
  imports Orama_Levenshtein
begin

text \<open>
  The compressed prefix tree of string fields (classes \<^verbatim>\<open>de\<close> and \<^verbatim>\<open>he\<close> of
  \<^verbatim>\<open>assets/js/search-orama.js\<close>). A node has the key \<open>rk\<close> under which its parent keeps
  it, the label \<open>rs\<close> of its edge, its children in insertion order, the documents of the word that
  ends there, the end flag and the whole word \<open>rw\<close>. Keys are strings of one character. The loops of
  the source walk down with a current node; here the walk is the recursion, and a stack that is
  popped from its end is the recursion over the pushed items in reverse order. Result objects are
  maps from words to document lists; the order of their keys is insertion order (for words that
  look like array indexes the language lists such keys first).
\<close>

subsection \<open>Nodes\<close>

datatype 'd radix =
  Radix (rk: jsstring) (rs: jsstring) (rc: "(jsstring \<times> 'd radix) list") (rd: "'d list") (re: bool) (rw: jsstring)

definition radix_root :: "'d radix" where
  "radix_root = Radix [] [] [] [] False []"

lemma radix_child_size: "map_get c k = Some i \<Longrightarrow> size i < size (Radix k' s c d e w)"
  using size_list_snd [of "(k, i)" c size] by (auto dest: map_of_SomeD)

lemma radix_child_in_size: "p \<in> set c \<Longrightarrow> size (snd p) < size (Radix k' s c d e w)"
  using size_list_snd [of p c size] by simp

fun common_len :: "jsstring \<Rightarrow> jsstring \<Rightarrow> nat" where
  "common_len (x # xs) (y # ys) = (if x = y then Suc (common_len xs ys) else 0)"
| "common_len xs ys = 0"

definition getCommonPrefix :: "jsstring \<Rightarrow> jsstring \<Rightarrow> jsstring" where
  "getCommonPrefix e t = take (common_len e t) e"

text \<open>The first character of a label as a key; the empty label would give the undefined key.\<close>

definition key_of :: "jsstring \<Rightarrow> jsstring" where
  "key_of s = take 1 s"

text \<open>The split of the edge to \<open>i\<close> after \<open>n\<close> characters, with the rest of the new word below it.\<close>

definition radix_split :: "jsstring \<Rightarrow> 'd radix \<Rightarrow> nat \<Rightarrow> jsstring \<Rightarrow> 'd \<Rightarrow> 'd radix" where
  "radix_split w i n x t =
     (let l = take n (rs i); u = drop n (rs i); f = drop n x; dw = w @ l;
          i' = Radix (key_of u) u (rc i) (rd i) (re i) (dw @ u)
      in if f \<noteq> [] then
           Radix (key_of l) l (map_set (key_of f) (Radix (key_of f) f [] (set_add t []) True (dw @ f)) [(key_of u, i')])
             [] False dw
         else Radix (key_of l) l [(key_of u, i')] (set_add t []) True dw)"

function radix_insert :: "jsstring \<Rightarrow> 'd \<Rightarrow> 'd radix \<Rightarrow> 'd radix" where
  "radix_insert x t (Radix k s c d e w) =
     (case x of
        [] \<Rightarrow> Radix k s c (set_add t d) True w
      | ch # _ \<Rightarrow>
          (case map_get c [ch] of
             Some i \<Rightarrow>
               (let n = common_len (rs i) x
                in if n = length (rs i) then Radix k s (map_set [ch] (radix_insert (drop n x) t i) c) d e w
                   else Radix k s (map_set (key_of (take n (rs i))) (radix_split w i n x t) c) d e w)
           | None \<Rightarrow> Radix k s (map_set [ch] (Radix [ch] x [] (set_add t []) True (w @ x)) c) d e w))"
  by pat_completeness auto
termination
  by (relation "measure (\<lambda>(x, t, n). size n)") (simp_all add: radix_child_size del: radix.size)

subsection \<open>Search\<close>

function findAllWords ::
    "jsstring \<Rightarrow> bool \<Rightarrow> nat \<Rightarrow> (jsstring, 'd list) jsmap \<Rightarrow> 'd radix \<Rightarrow> (jsstring, 'd list) jsmap" where
  "findAllWords t n r out (Radix k s c d e w) =
     (if e \<and> n \<and> w \<noteq> t then out
      else if e \<and> r \<noteq> 0 \<and>
        \<not> (abs (int (length t) - int (length w)) \<le> int r \<and> snd (syncBoundedLevenshtein t w (int r))) then out
      else foldl (\<lambda>out p. findAllWords t n r out (snd p)) (if e then map_set w (set_add_all [] d) out else out) (rev c))"
  by pat_completeness auto
termination
  by (relation "measure (\<lambda>(t, n, r, out, x). size x)") (simp_all add: radix_child_in_size del: radix.size)

text \<open>The document update at a visited node of the fuzzy search.\<close>

definition lev_visit ::
    "jsstring \<Rightarrow> nat \<Rightarrow> 'd radix \<Rightarrow> (jsstring, 'd list) jsmap \<Rightarrow> (jsstring, 'd list) jsmap" where
  "lev_visit e r t out =
     (if re t \<and> rw t \<noteq> [] then
        (let out = (if snd (syncBoundedLevenshtein e (rw t) (int r)) then map_set (rw t) [] out else out)
         in case map_get out (rw t) of
              None \<Rightarrow> out
            | Some cur \<Rightarrow> if length (rd t) > 0 then map_set (rw t) (set_add_all cur (rd t)) out else out)
      else out)"

definition lev_pushes :: "jsstring \<Rightarrow> 'd radix \<Rightarrow> nat \<Rightarrow> int \<Rightarrow> ('d radix \<times> nat \<times> int) list" where
  "lev_pushes e t n i =
     (case map_get (rc t) [e ! n] of None \<Rightarrow> [] | Some x \<Rightarrow> [(x, n + 1, i)]) @
     [(t, n + 1, i - 1)] @
     concat (map (\<lambda>(k, x). [(x, n, i - 1)] @ (if k \<noteq> [e ! n] then [(x, n + 1, i - 1)] else [])) (rc t))"

function findLevenshtein ::
    "jsstring \<Rightarrow> nat \<Rightarrow> 'd radix \<times> nat \<times> int \<Rightarrow> (jsstring, 'd list) jsmap \<Rightarrow> (jsstring, 'd list) jsmap" where
  "findLevenshtein e r (t, n, i) out =
     (if startsWith (rw t) e then findAllWords e False 0 out t
      else if i < 0 then out
      else if n \<ge> length e then lev_visit e r t out
      else foldl (\<lambda>out p. findLevenshtein e r p out) (lev_visit e r t out) (rev (lev_pushes e t n i)))"
  by pat_completeness auto
termination
  by (relation "measures [\<lambda>(e, r, (t, n, i), out). nat (i + 1), \<lambda>(e, r, (t, n, i), out). length e - n]")
    (auto simp: lev_pushes_def split: option.splits if_splits)

function radix_walk :: "bool \<Rightarrow> jsstring \<Rightarrow> 'd radix \<Rightarrow> 'd radix option" where
  "radix_walk n x (Radix k s c d e w) =
     (case x of
        [] \<Rightarrow> Some (Radix k s c d e w)
      | ch # _ \<Rightarrow>
          (case map_get c [ch] of
             None \<Rightarrow> None
           | Some a \<Rightarrow>
               (let l = common_len (rs a) x
                in if l \<noteq> length (rs a) then (if l = length x then (if n then None else Some a) else None)
                   else radix_walk n (drop l x) a)))"
  by pat_completeness auto
termination
  by (relation "measure (\<lambda>(n, x, t). size t)") (simp_all add: radix_child_size del: radix.size)

definition radix_find :: "'d radix \<Rightarrow> jsstring \<Rightarrow> bool \<Rightarrow> nat \<Rightarrow> (jsstring, 'd list) jsmap" where
  "radix_find self t n r =
     (if r \<noteq> 0 \<and> \<not> n then findLevenshtein t r (self, 0, int r) []
      else (case radix_walk n t self of None \<Rightarrow> [] | Some e \<Rightarrow> findAllWords t n r [] e))"

function radix_contains :: "jsstring \<Rightarrow> 'd radix \<Rightarrow> bool" where
  "radix_contains x (Radix k s c d e w) =
     (case x of
        [] \<Rightarrow> True
      | ch # _ \<Rightarrow>
          (case map_get c [ch] of
             None \<Rightarrow> False
           | Some i \<Rightarrow>
               (if common_len (rs i) x < length (rs i) then False else radix_contains (drop (length (rs i)) x) i)))"
  by pat_completeness auto
termination
  by (relation "measure (\<lambda>(x, t). size t)") (simp_all add: radix_child_size del: radix.size)

subsection \<open>Removal\<close>

text \<open>
  The walks of the removals advance by the length of the label without comparing it. A node that
  the removal of a word leaves without children, end flag and documents is unlinked, and so are
  the ancestors this empties.
\<close>

definition radix_empty :: "'d radix \<Rightarrow> bool" where
  "radix_empty t = (rc t = [] \<and> \<not> re t \<and> rd t = [])"

function radix_removeWord_at :: "jsstring \<Rightarrow> 'd radix \<Rightarrow> 'd radix option" where
  "radix_removeWord_at x (Radix k s c d e w) =
     (case x of
        [] \<Rightarrow> Some (Radix k s c [] False w)
      | ch # _ \<Rightarrow>
          (case map_get c [ch] of
             None \<Rightarrow> None
           | Some i \<Rightarrow>
               (case radix_removeWord_at (drop (length (rs i)) x) i of
                  None \<Rightarrow> None
                | Some i' \<Rightarrow>
                    Some (Radix k s (if radix_empty i' then map_del [ch] c else map_set [ch] i' c) d e w))))"
  by pat_completeness auto
termination
  by (relation "measure (\<lambda>(x, t). size t)") (simp_all add: radix_child_size del: radix.size)

definition radix_removeWord :: "jsstring \<Rightarrow> 'd radix \<Rightarrow> 'd radix \<times> bool" where
  "radix_removeWord e self =
     (if e = [] then (self, False)
      else (case radix_removeWord_at e self of None \<Rightarrow> (self, False) | Some t \<Rightarrow> (t, True)))"

definition radix_removeDocument :: "'d \<Rightarrow> 'd radix \<Rightarrow> 'd radix" where
  "radix_removeDocument t x = (case x of Radix k s c d e w \<Rightarrow> Radix k s c (set_delete t d) e w)"

lemma radix_removeDocument_size: "size (radix_removeDocument t x) \<le> size x"
  by (cases x) (simp add: radix_removeDocument_def set_delete_def)

lemma radix_removeDocument_fields [simp]:
  "rs (radix_removeDocument t x) = rs x" "rk (radix_removeDocument t x) = rk x"
  "rw (radix_removeDocument t x) = rw x" "rc (radix_removeDocument t x) = rc x"
  "re (radix_removeDocument t x) = re x" "rd (radix_removeDocument t x) = set_delete t (rd x)"
  by (cases x; simp add: radix_removeDocument_def)+

function radix_removeByWord_at :: "jsstring \<Rightarrow> 'd \<Rightarrow> bool \<Rightarrow> jsstring \<Rightarrow> 'd radix \<Rightarrow> 'd radix \<times> bool" where
  "radix_removeByWord_at word t n x (Radix k s c d e w) =
     (case x of
        [] \<Rightarrow> (Radix k s c d e w, True)
      | ch # _ \<Rightarrow>
          (case map_get c [ch] of
             None \<Rightarrow> (Radix k s c d e w, False)
           | Some i \<Rightarrow>
               (let i1 = (if n \<and> rw i \<noteq> word then i else radix_removeDocument t i);
                    (i2, b) = radix_removeByWord_at word t n (drop (length (rs i)) x) i1
                in (Radix k s (map_set [ch] i2 c) d e w, b))))"
  by pat_completeness auto
termination
  by (relation "measure (\<lambda>(word, t, n, x, y). size y)")
    (auto simp del: radix.size intro: radix_child_size le_less_trans [OF radix_removeDocument_size])

definition radix_removeDocumentByWord :: "jsstring \<Rightarrow> 'd \<Rightarrow> bool \<Rightarrow> 'd radix \<Rightarrow> 'd radix \<times> bool" where
  "radix_removeDocumentByWord e t n self =
     (if e = [] then (self, True) else radix_removeByWord_at e t n e self)"

subsection \<open>Serialisation\<close>

datatype 'd radix_json =
  RadixJson jsstring jsstring bool jsstring "'d list" "(jsstring \<times> 'd radix_json) list"

primrec radix_toJSON :: "'d radix \<Rightarrow> 'd radix_json" where
  "radix_toJSON (Radix k s c d e w) = RadixJson w s e k d (map (map_prod id radix_toJSON) c)"

definition map_new :: "('k \<times> 'v) list \<Rightarrow> ('k, 'v) jsmap" where
  "map_new kvs = foldl (\<lambda>m (k, v). map_set k v m) [] kvs"

primrec radix_fromJSON :: "'d radix_json \<Rightarrow> 'd radix" where
  "radix_fromJSON (RadixJson w s e k d c) = Radix k s (map_new (map (map_prod id radix_fromJSON) c)) (set_new d) e w"

subsection \<open>Invariant and contents\<close>

function radix_ok :: "'d radix \<Rightarrow> bool" where
  "radix_ok (Radix k s c d e w) =
     (wf_map c \<and> distinct d \<and> (\<not> e \<longrightarrow> d = []) \<and>
      (\<forall>p \<in> set c. rs (snd p) \<noteq> [] \<and> fst p = key_of (rs (snd p)) \<and> rk (snd p) = fst p
         \<and> rw (snd p) = w @ rs (snd p) \<and> radix_ok (snd p)))"
  by pat_completeness auto
termination
  by (relation "measure size") (simp_all add: radix_child_in_size del: radix.size)

text \<open>The documents of the word \<open>x\<close> below a node.\<close>

function radix_get :: "jsstring \<Rightarrow> 'd radix \<Rightarrow> 'd list option" where
  "radix_get x (Radix k s c d e w) =
     (case x of
        [] \<Rightarrow> if e then Some d else None
      | ch # _ \<Rightarrow>
          (case map_get c [ch] of
             None \<Rightarrow> None
           | Some i \<Rightarrow> if startsWith x (rs i) then radix_get (drop (length (rs i)) x) i else None))"
  by pat_completeness auto
termination
  by (relation "measure (\<lambda>(x, t). size t)") (simp_all add: radix_child_size del: radix.size)

function radix_words :: "'d radix \<Rightarrow> (jsstring \<times> 'd list) list" where
  "radix_words (Radix k s c d e w) = concat (map (\<lambda>p. radix_words (snd p)) c) @ (if e then [(w, d)] else [])"
  by pat_completeness auto
termination
  by (relation "measure size") (simp_all add: radix_child_in_size del: radix.size)

lemma radix_ok_child:
  assumes "radix_ok (Radix k s c d e w)" "map_get c [ch] = Some i"
  shows "radix_ok i" "\<exists>l. rs i = ch # l" "rw i = w @ rs i" "rk i = [ch]"
proof -
  have "([ch], i) \<in> set c"
    using assms(2) by (rule map_of_SomeD)
  with assms(1) have "radix_ok i \<and> rs i \<noteq> [] \<and> [ch] = key_of (rs i) \<and> rw i = w @ rs i \<and> rk i = [ch]"
    by auto
  then show "radix_ok i" "\<exists>l. rs i = ch # l" "rw i = w @ rs i" "rk i = [ch]"
    by (auto simp: key_of_def) (cases "rs i"; simp)
qed

lemma common_len_le: "common_len x y \<le> length x" "common_len x y \<le> length y"
  by (induction x y rule: common_len.induct) auto

lemma take_common_len: "take (common_len x y) x = take (common_len x y) y"
  by (induction x y rule: common_len.induct) auto

lemma common_len_full: "common_len x y = length x \<longleftrightarrow> startsWith y x"
  by (induction x y rule: common_len.induct) (auto simp: startsWith_def)

lemma common_len_differ:
  "common_len x y < length x \<Longrightarrow> common_len x y < length y \<Longrightarrow> x ! common_len x y \<noteq> y ! common_len x y"
  by (induction x y rule: common_len.induct) auto

subsection \<open>Insertion\<close>

lemma radix_insert_fields [simp]:
  "rs (radix_insert x t n) = rs n" "rk (radix_insert x t n) = rk n" "rw (radix_insert x t n) = rw n"
  by (cases n; auto simp: Let_def split: list.splits option.splits)+

lemma radix_get_Nil [simp]: "radix_get [] (Radix k s c d e w) = (if e then Some d else None)"
  by simp

lemma radix_get_Cons [simp]:
  "radix_get (ch # xs) (Radix k s c d e w) =
   (case map_get c [ch] of
      None \<Rightarrow> None
    | Some i \<Rightarrow> if startsWith (ch # xs) (rs i) then radix_get (drop (length (rs i)) (ch # xs)) i else None)"
  by simp

declare radix_get.simps [simp del]

lemma radix_get_fields: "radix_get z (Radix k s (rc i) (rd i) (re i) w) = radix_get z i"
  by (cases i; cases z) auto

lemma radix_get_leaf: "radix_get z (Radix k s [] d e w) = (if z = [] \<and> e then Some d else None)"
  by (cases z) auto

lemma startsWith_Cons [simp]: "startsWith (a # z) (b # u) \<longleftrightarrow> a = b \<and> startsWith z u" "\<not> startsWith [] (b # u)"
  by (auto simp: startsWith_def)

lemma startsWith_same [simp]: "startsWith (l @ z) (l @ u) \<longleftrightarrow> startsWith z u"
  by (simp add: startsWith_def)

lemma startsWith_drop_Nil: "startsWith z u \<Longrightarrow> drop (length u) z = [] \<longleftrightarrow> z = u"
  by (auto simp: startsWith_iff)

text \<open>How the inserted word and an edge label divide at the first difference.\<close>

lemma split_parts:
  assumes "n = common_len r x" "n < length r" "x = ch # xs" "r = ch # rl"
  obtains l a u' f where "r = (ch # l) @ a # u'" "x = (ch # l) @ f" "take n r = ch # l" "drop n r = a # u'"
    "drop n x = f" "n = length (ch # l)" "\<And>b f'. f = b # f' \<Longrightarrow> b \<noteq> a"
proof -
  have n0: "0 < n"
    using assms by simp
  let ?l = "take n r"
  have r: "r = ?l @ drop n r" and x: "x = ?l @ drop n x"
    using take_common_len [of r x] assms(1) by (metis append_take_drop_id)+
  obtain l where l: "?l = ch # l"
    using n0 assms(4) by (cases n) auto
  obtain a u' where u: "drop n r = a # u'"
    using assms(2) by (cases "drop n r") auto
  have len: "n = length (ch # l)"
    using l assms(2) by (metis length_take less_imp_le min.absorb2)
  have "b \<noteq> a" if "drop n x = b # f'" for b f'
  proof -
    have "n < length x"
      using that by (metis drop_eq_Nil2 list.distinct(1) not_le)
    then have "r ! n \<noteq> x ! n"
      using common_len_differ [of r x] assms by simp
    moreover have "r ! n = a" "x ! n = b"
      using u that \<open>n < length x\<close> assms(2) by (metis Cons_nth_drop_Suc list.inject)+
    ultimately show ?thesis
      by simp
  qed
  moreover have "r = (ch # l) @ a # u'" "x = (ch # l) @ drop n x"
    using r x unfolding l u by simp_all
  ultimately show ?thesis
    using that l u len by blast
qed

lemma radix_get_split:
  assumes "n = common_len (rs i) x" "n < length (rs i)" "x = ch # xs" "rs i = ch # rl"
  shows "(if startsWith y (take n (rs i)) then radix_get (drop n y) (radix_split w i n x t) else None)
    = (if y = x then Some [t]
       else if startsWith y (rs i) then radix_get (drop (length (rs i)) y) i else None)"
proof -
  obtain l a u' f where p: "rs i = (ch # l) @ a # u'" "x = (ch # l) @ f" "take n (rs i) = ch # l"
    "drop n (rs i) = a # u'" "drop n x = f" "n = length (ch # l)" "\<And>b f'. f = b # f' \<Longrightarrow> b \<noteq> a"
    using split_parts [OF assms] by metis
  show ?thesis
  proof (cases "startsWith y (ch # l)")
    case True
    then obtain z where y: "y = (ch # l) @ z"
      by (auto simp: startsWith_iff)
    have dz: "drop (length (rs i)) y = drop (length (a # u')) z"
      using y p(1) by simp
    have "radix_get z (radix_split w i n x t) =
      (if z = f then Some [t] else if startsWith z (a # u') then radix_get (drop (length (a # u')) z) i else None)"
    proof (cases z)
      case Nil
      then show ?thesis
        using p by (auto simp: radix_split_def Let_def key_of_def set_add_def)
    next
      case (Cons c zs)
      then show ?thesis
        using p(4-7) startsWith_drop_Nil [of zs]
        by (cases f) (auto simp: radix_split_def Let_def key_of_def set_add_def radix_get_fields radix_get_leaf)
    qed
    with y p dz True show ?thesis
      by simp
  next
    case False
    then have "y \<noteq> x" "\<not> startsWith y (rs i)"
      using p(1,2) by (auto simp: startsWith_iff)
    with False p show ?thesis
      by simp
  qed
qed

lemma radix_get_insert:
  "radix_ok n \<Longrightarrow>
   radix_get y (radix_insert x t n) =
   (if y = x then Some (set_add t (case radix_get x n of None \<Rightarrow> [] | Some d \<Rightarrow> d)) else radix_get y n)"
proof (induction x t n arbitrary: y rule: radix_insert.induct)
  case (1 x t k s c d e w)
  show ?case
  proof (cases x)
    case Nil
    with "1.prems" show ?thesis
      by (cases y) auto
  next
    case x: (Cons ch xs)
    show ?thesis
    proof (cases "map_get c [ch]")
      case None
      with x show ?thesis
        by (cases y) (auto simp: radix_get_leaf set_add_def startsWith_iff)
    next
      case (Some i)
      obtain rl where i: "radix_ok i" "rs i = ch # rl" "rw i = w @ rs i"
        using radix_ok_child [OF "1.prems" Some] by blast
      let ?n = "common_len (rs i) x"
      show ?thesis
      proof (cases "?n = length (rs i)")
        case True
        then have sx: "startsWith x (rs i)"
          using common_len_full by blast
        have IH: "radix_get y (radix_insert (drop ?n x) t i) =
          (if y = drop ?n x then Some (set_add t (case radix_get (drop ?n x) i of None \<Rightarrow> [] | Some d \<Rightarrow> d)) else radix_get y i)" for y
          using "1.IH" [OF x Some refl True i(1)] .
        have dr: "drop (length (rs i)) y = drop (length (rs i)) x \<longleftrightarrow> y = x" if "startsWith y (rs i)" for y
          using that sx by (auto simp: startsWith_iff)
        show ?thesis
        proof (cases y)
          case (Cons c' ys)
          then show ?thesis
            using x Some True sx IH dr [of y] i(2) by (auto simp: Let_def)
        qed (simp add: x Some True Let_def)
      next
        case False
        then have lt: "?n < length (rs i)"
          using common_len_le(1) [of "rs i" x] by simp
        have nx: "\<not> startsWith x (rs i)"
          using False common_len_full by blast
        note sp = radix_get_split [OF refl lt x i(2), of _ w t]
        have k: "key_of (take ?n (rs i)) = [ch]"
          using i(2) x by (simp add: key_of_def)
        show ?thesis
        proof (cases y)
          case (Cons c' ys)
          have rsl: "rs (radix_split w i ?n x t) = take ?n (rs i)"
            by (simp add: radix_split_def Let_def)
          have len: "length (take ?n (rs i)) = ?n"
            using lt by simp
          show ?thesis
            using sp [of y] x Some False nx k Cons i(2) rsl len
            by (auto simp: Let_def set_add_def simp del: length_take split: if_splits)
        qed (simp add: x Some False Let_def)
      qed
    qed
  qed
qed

definition radix_child_ok :: "jsstring \<Rightarrow> jsstring \<Rightarrow> 'd radix \<Rightarrow> bool" where
  "radix_child_ok w key i = (rs i \<noteq> [] \<and> key = key_of (rs i) \<and> rk i = key \<and> rw i = w @ rs i \<and> radix_ok i)"

lemma radix_ok_iff:
  "radix_ok (Radix k s c d e w) \<longleftrightarrow>
   wf_map c \<and> distinct d \<and> (\<not> e \<longrightarrow> d = []) \<and> (\<forall>p \<in> set c. radix_child_ok w (fst p) (snd p))"
  by (simp add: radix_child_ok_def conj_assoc)

declare radix_ok.simps [simp del]

lemma radix_ok_set_child:
  "radix_ok (Radix k s c d e w) \<Longrightarrow> radix_child_ok w key i \<Longrightarrow> radix_ok (Radix k s (map_set key i c) d e w)"
  by (auto simp: radix_ok_iff dest!: set_map_set)

lemma radix_ok_get_child:
  "radix_ok (Radix k s c d e w) \<Longrightarrow> map_get c key = Some i \<Longrightarrow> radix_child_ok w key i"
  by (fastforce simp: radix_ok_iff dest: map_of_SomeD)

lemma radix_ok_leaf [simp]: "radix_ok (Radix k s [] (set_add t []) True w)"
  by (simp add: radix_ok_iff)

lemma radix_ok_split:
  assumes "radix_child_ok w [ch] i" "n = common_len (rs i) x" "n < length (rs i)" "x = ch # xs" "rs i = ch # rl"
  shows "radix_child_ok w [ch] (radix_split w i n x t)"
proof -
  obtain l a u' f where p: "rs i = (ch # l) @ a # u'" "take n (rs i) = ch # l" "drop n (rs i) = a # u'"
    "drop n x = f" "\<And>b f'. f = b # f' \<Longrightarrow> b \<noteq> a"
    using split_parts [OF assms(2-)] by metis
  have "radix_ok (Radix [a] (a # u') (rc i) (rd i) (re i) (w @ (ch # l) @ (a # u')))"
    using assms(1) p(1) by (cases i) (simp add: radix_child_ok_def radix_ok_iff)
  with p show ?thesis
    by (cases f) (auto simp: radix_child_ok_def radix_split_def Let_def key_of_def radix_ok_iff
        wf_map_def set_add_def)
qed

lemma radix_ok_insert: "radix_ok n \<Longrightarrow> radix_ok (radix_insert x t n)"
proof (induction x t n rule: radix_insert.induct)
  case (1 x t k s c d e w)
  show ?case
  proof (cases x)
    case Nil
    with "1.prems" show ?thesis
      by (auto simp: radix_ok_iff)
  next
    case x: (Cons ch xs)
    show ?thesis
    proof (cases "map_get c [ch]")
      case None
      have "radix_child_ok w [ch] (Radix [ch] x [] (set_add t []) True (w @ x))"
        using x by (simp add: radix_child_ok_def key_of_def)
      then show ?thesis
        using None x radix_ok_set_child [OF "1.prems"] by simp
    next
      case (Some i)
      have i: "radix_child_ok w [ch] i"
        using radix_ok_get_child [OF "1.prems" Some] .
      obtain rl where rl: "rs i = ch # rl"
        using radix_ok_child [OF "1.prems" Some] by blast
      let ?n = "common_len (rs i) x"
      show ?thesis
      proof (cases "?n = length (rs i)")
        case True
        have "radix_child_ok w [ch] (radix_insert (drop ?n x) t i)"
          using "1.IH" [OF x Some refl True] i by (simp add: radix_child_ok_def)
        then show ?thesis
          using True Some x radix_ok_set_child [OF "1.prems"] by (simp add: Let_def)
      next
        case False
        then have lt: "?n < length (rs i)"
          using common_len_le(1) [of "rs i" x] by simp
        have "key_of (take ?n (rs i)) = [ch]"
          using rl x by (simp add: key_of_def)
        then show ?thesis
          using radix_ok_split [OF i refl lt x rl, of t] False Some x radix_ok_set_child [OF "1.prems"]
          by (simp add: Let_def)
      qed
    qed
  qed
qed

definition radix_docs :: "'d radix \<Rightarrow> jsstring \<Rightarrow> 'd set" where
  "radix_docs n x = (case radix_get x n of None \<Rightarrow> {} | Some d \<Rightarrow> set d)"

interpretation radix: doc_index radix_ok radix_insert radix_docs
  by unfold_locales (auto simp: radix_ok_insert radix_docs_def radix_get_insert split: option.splits)

subsection \<open>Words below a node\<close>

lemma map_of_children:
  assumes "wf_map c" "\<And>p v d. p \<in> set c \<Longrightarrow> (v, d) \<in> set (f (snd p)) \<Longrightarrow> g v = Some (fst p)"
  shows "map_of (concat (map (\<lambda>p. f (snd p)) c)) v =
    (case g v of None \<Rightarrow> None | Some key \<Rightarrow> (case map_get c key of None \<Rightarrow> None | Some i \<Rightarrow> map_of (f i) v))"
  using assms
proof (induction c)
  case (Cons p c)
  have IH: "map_of (concat (map (\<lambda>p. f (snd p)) c)) v =
    (case g v of None \<Rightarrow> None | Some key \<Rightarrow> (case map_get c key of None \<Rightarrow> None | Some i \<Rightarrow> map_of (f i) v))"
    using Cons by (simp add: wf_map_def)
  have own: "map_of (f (snd p)) v = Some d \<Longrightarrow> g v = Some (fst p)" for d
    using Cons.prems(2) [of p v d] by (auto dest: map_of_SomeD)
  have notin: "map_get c (fst p) = None"
    using Cons.prems(1) by (simp add: wf_map_def map_of_eq_None_iff)
  show ?case
    using IH own notin
    by (cases p; cases "map_of (f (snd p)) v") (auto simp: map_add_def split: option.splits if_splits)
qed (simp split: option.split)

definition next_key :: "jsstring \<Rightarrow> jsstring \<Rightarrow> jsstring option" where
  "next_key w v = (if startsWith v w \<and> length w < length v then Some [v ! length w] else None)"

lemma radix_words_prefix: "radix_ok n \<Longrightarrow> (v, d) \<in> set (radix_words n) \<Longrightarrow> startsWith v (rw n)"
proof (induction n arbitrary: v d rule: radix_words.induct)
  case (1 k s c d' e w)
  then show ?case
    by (fastforce simp: radix_ok_iff radix_child_ok_def startsWith_iff split: if_splits)
qed

lemma map_of_radix_words:
  "radix_ok n \<Longrightarrow> map_of (radix_words n) v =
   (if startsWith v (rw n) then radix_get (drop (length (rw n)) v) n else None)"
proof (induction n arbitrary: v rule: radix_words.induct)
  case (1 k s c d e w)
  have wf: "wf_map c" and ch: "\<And>p. p \<in> set c \<Longrightarrow> radix_child_ok w (fst p) (snd p)"
    using "1.prems" by (auto simp: radix_ok_iff)
  have key: "next_key w v = Some (fst p)" if "p \<in> set c" "(v, d') \<in> set (radix_words (snd p))" for p v d'
  proof -
    have "startsWith v (w @ rs (snd p))" "fst p = key_of (rs (snd p))" "rs (snd p) \<noteq> []"
      using radix_words_prefix [of "snd p" v d'] that ch [OF that(1)] by (auto simp: radix_child_ok_def)
    then show ?thesis
      by (cases "rs (snd p)") (auto simp: next_key_def startsWith_iff key_of_def nth_append)
  qed
  have kids: "map_of (concat (map (\<lambda>p. radix_words (snd p)) c)) v =
    (case next_key w v of None \<Rightarrow> None | Some key \<Rightarrow> (case map_get c key of None \<Rightarrow> None | Some i \<Rightarrow> map_of (radix_words i) v))"
    by (rule map_of_children [OF wf]) (rule key)
  show ?case
  proof (cases "startsWith v w")
    case False
    then show ?thesis
      using kids by (auto simp: next_key_def)
  next
    case True
    then obtain z where v: "v = w @ z"
      by (auto simp: startsWith_iff)
    show ?thesis
    proof (cases z)
      case Nil
      then show ?thesis
        using v kids by (auto simp: next_key_def map_add_def)
    next
      case (Cons a zs)
      have nk: "next_key w v = Some [a]"
        using v Cons by (simp add: next_key_def)
      show ?thesis
      proof (cases "map_get c [a]")
        case None
        then show ?thesis
          using kids nk v Cons by simp
      next
        case (Some i)
        have i: "radix_child_ok w [a] i" "([a], i) \<in> set c"
          using radix_ok_get_child [OF "1.prems" Some] map_of_SomeD [OF Some] by auto
        then have "map_of (radix_words i) v = (if startsWith v (rw i) then radix_get (drop (length (rw i)) v) i else None)"
          using "1.IH" [of "([a], i)" v] by (simp add: radix_child_ok_def)
        moreover have "rw i = w @ rs i"
          using i by (simp add: radix_child_ok_def)
        ultimately have "map_of (radix_words i) v = (if startsWith z (rs i) then radix_get (drop (length (rs i)) z) i else None)"
          using v by simp
        moreover have "map_of (radix_words (Radix k s c d e w)) v = map_of (radix_words i) v"
          using kids nk v Cons Some by (simp add: map_add_def split: option.split)
        ultimately show ?thesis
          using v Cons Some by simp
      qed
    qed
  qed
qed

subsection \<open>Search\<close>

lemma findAllWords_prefix:
  "radix_ok n \<Longrightarrow> map_of (findAllWords t False 0 out n) = map_of out ++ map_of (radix_words n)"
proof (induction t "False" "0::nat" out n rule: findAllWords.induct)
  case (1 t out k s c d e w)
  have step: "map_of (foldl (\<lambda>out p. findAllWords t False 0 out (snd p)) out' ps)
    = map_of out' ++ map_of (concat (map (\<lambda>p. radix_words (snd p)) (rev ps)))"
    if "set ps \<subseteq> set c" for ps out'
    using that
  proof (induction ps arbitrary: out')
    case (Cons p ps)
    have "map_of (findAllWords t False 0 out' (snd p)) = map_of out' ++ map_of (radix_words (snd p))"
      using "1.hyps" "1.prems" Cons.prems by (auto simp: radix_ok_iff radix_child_ok_def)
    with Cons show ?case
      by simp
  qed simp
  have "set_add_all [] d = d"
    using "1.prems" by (simp add: radix_ok_iff set_add_all_distinct)
  then show ?case
    using step [of "rev c"] by (auto simp: map_add_def fun_eq_iff split: option.splits)
qed

lemma findAllWords_exact_skip:
  "radix_ok n \<Longrightarrow> length t < length (rw n) \<Longrightarrow> findAllWords t True r out n = out"
proof (induction t True r out n rule: findAllWords.induct)
  case (1 t r out k s c d e w)
  have "foldl (\<lambda>out p. findAllWords t True r out (snd p)) out' ps = out'" if "set ps \<subseteq> set c" "\<not> e" for ps out'
    using that
  proof (induction ps)
    case (Cons p ps)
    have "length t < length (rw (snd p))" "radix_ok (snd p)"
      using Cons.prems "1.prems" by (auto simp: radix_ok_iff radix_child_ok_def)
    with Cons "1.hyps" "1.prems" show ?case
      by auto
  qed simp
  from this [of "rev c"] show ?case
    using "1.prems" by auto
qed

lemma findAllWords_exact:
  assumes "radix_ok n" "rw n = t"
  shows "findAllWords t True r out n = (if re n then map_set t (rd n) out else out)"
proof (cases n)
  case (Radix k s c d e w)
  have "foldl (\<lambda>out p. findAllWords t True r out (snd p)) out' ps = out'" if "set ps \<subseteq> set c" for ps out'
    using that
  proof (induction ps)
    case (Cons p ps)
    have "length t < length (rw (snd p))" "radix_ok (snd p)"
      using Cons.prems assms Radix by (auto simp: radix_ok_iff radix_child_ok_def)
    with Cons show ?case
      by (simp add: findAllWords_exact_skip)
  qed simp
  from this [of "rev c"] show ?thesis
    using assms Radix
    by (auto simp: radix_ok_iff set_add_all_distinct syncBoundedLevenshtein_def boundedLevenshtein_def)
qed

lemma radix_walk_exact:
  "radix_ok n \<Longrightarrow>
   (case radix_walk True x n of
      None \<Rightarrow> radix_get x n = None
    | Some m \<Rightarrow> radix_ok m \<and> rw m = rw n @ x \<and> radix_get x n = radix_get [] m)"
proof (induction True x n rule: radix_walk.induct)
  case (1 x k s c d e w)
  show ?case
  proof (cases x)
    case Nil
    with "1.prems" show ?thesis
      by simp
  next
    case x: (Cons ch xs)
    show ?thesis
    proof (cases "map_get c [ch]")
      case None
      with x show ?thesis
        by simp
    next
      case (Some i)
      note ch = radix_ok_child [OF "1.prems" Some]
      show ?thesis
      proof (cases "common_len (rs i) x = length (rs i)")
        case True
        then obtain z where z: "x = rs i @ z"
          using common_len_full by (metis startsWith_iff)
        then have drop_x: "drop (common_len (rs i) x) x = z"
          using True by simp
        have "case radix_walk True z i of None \<Rightarrow> radix_get z i = None
          | Some m \<Rightarrow> radix_ok m \<and> rw m = rw i @ z \<and> radix_get z i = radix_get [] m"
          using "1.hyps" [OF x Some refl, unfolded drop_x] True ch(1) by simp
        moreover have "radix_walk True x (Radix k s c d e w) = radix_walk True z i"
          using x Some True drop_x by (simp add: Let_def)
        moreover have "radix_get x (Radix k s c d e w) = radix_get z i"
          using Some True drop_x common_len_full [of "rs i" x] unfolding x by simp
        ultimately show ?thesis
          using ch(3) z by (auto split: option.splits)
      next
        case False
        then have "\<not> startsWith x (rs i)"
          using common_len_full by blast
        with x Some False show ?thesis
          by (simp add: Let_def)
      qed
    qed
  qed
qed

lemma radix_walk_prefix:
  "radix_ok n \<Longrightarrow>
   (case radix_walk False x n of
      None \<Rightarrow> \<forall>y. radix_get (x @ y) n = None
    | Some m \<Rightarrow> radix_ok m \<and> (\<exists>z. rw m = rw n @ x @ z \<and>
        (\<forall>y. radix_get (x @ y) n = (if startsWith y z then radix_get (drop (length z) y) m else None))))"
proof (induction False x n rule: radix_walk.induct)
  case (1 x k s c d e w)
  show ?case
  proof (cases x)
    case Nil
    with "1.prems" show ?thesis
      by simp
  next
    case x: (Cons ch xs)
    show ?thesis
    proof (cases "map_get c [ch]")
      case None
      with x show ?thesis
        by simp
    next
      case (Some i)
      note ch = radix_ok_child [OF "1.prems" Some]
      have get: "radix_get (x @ y) (Radix k s c d e w)
        = (if startsWith (x @ y) (rs i) then radix_get (drop (length (rs i)) (x @ y)) i else None)" for y
        using x Some by simp
      consider (full) "common_len (rs i) x = length (rs i)"
        | (inside) "common_len (rs i) x \<noteq> length (rs i)" "common_len (rs i) x = length x"
        | (off) "common_len (rs i) x \<noteq> length (rs i)" "common_len (rs i) x \<noteq> length x"
        by blast
      then show ?thesis
      proof cases
        case full
        then obtain z where z: "x = rs i @ z"
          using common_len_full by (metis startsWith_iff)
        then have drop_x: "drop (common_len (rs i) x) x = z"
          using full by simp
        have "case radix_walk False z i of None \<Rightarrow> \<forall>y. radix_get (z @ y) i = None
          | Some m \<Rightarrow> radix_ok m \<and> (\<exists>u. rw m = rw i @ z @ u \<and>
              (\<forall>y. radix_get (z @ y) i = (if startsWith y u then radix_get (drop (length u) y) m else None)))"
          using "1.hyps" [OF x Some refl, unfolded drop_x] full ch(1) by simp
        moreover have "radix_walk False x (Radix k s c d e w) = radix_walk False z i"
          using x Some full drop_x by (simp add: Let_def)
        ultimately show ?thesis
          using ch(3) get z by (auto split: option.splits)
      next
        case inside
        then obtain u where u: "rs i = x @ u"
          using take_common_len [of "rs i" x] by (metis append_take_drop_id order_refl take_all)
        have "radix_walk False x (Radix k s c d e w) = Some i"
          using x Some inside by (simp add: Let_def)
        with get u ch show ?thesis
          by auto
      next
        case off
        have lt: "common_len (rs i) x < length (rs i)" "common_len (rs i) x < length x"
          using off common_len_le [of "rs i" x] by simp_all
        have "\<not> startsWith (x @ y) (rs i)" for y
          using common_len_differ [OF lt] lt by (auto simp: startsWith_iff dest!: arg_cong [where f = "\<lambda>l. l ! common_len (rs i) x"] simp: nth_append)
        moreover have "radix_walk False x (Radix k s c d e w) = None"
          using x Some off by (simp add: Let_def)
        ultimately show ?thesis
          using get by simp
      qed
    qed
  qed
qed

lemma radix_find_exact:
  assumes "radix_ok self" "rw self = []"
  shows "map_get (radix_find self t True r) v = (if v = t then radix_get t self else None)"
proof (cases "radix_walk True t self")
  case None
  then show ?thesis
    using radix_walk_exact [OF assms(1), of t] by (simp add: radix_find_def)
next
  case (Some m)
  then have "radix_ok m" "rw m = t" "radix_get t self = radix_get [] m"
    using radix_walk_exact [OF assms(1), of t] assms(2) by auto
  then show ?thesis
    using Some findAllWords_exact [of m t r "[]"] by (cases m) (simp add: radix_find_def)
qed

lemma radix_find_prefix:
  assumes "radix_ok self" "rw self = []"
  shows "map_get (radix_find self t False 0) v = (if startsWith v t then radix_get v self else None)"
proof (cases "radix_walk False t self")
  case None
  then show ?thesis
    using radix_walk_prefix [OF assms(1), of t] by (auto simp: radix_find_def startsWith_iff)
next
  case (Some m)
  then obtain z where m: "radix_ok m" "rw m = t @ z"
    "\<And>y. radix_get (t @ y) self = (if startsWith y z then radix_get (drop (length z) y) m else None)"
    using radix_walk_prefix [OF assms(1), of t] assms(2) by auto
  have "map_get (radix_find self t False 0) v = map_of (radix_words m) v"
    using Some m findAllWords_prefix [of m t "[]"] by (simp add: radix_find_def)
  also have "\<dots> = (if startsWith v (t @ z) then radix_get (drop (length (t @ z)) v) m else None)"
    using map_of_radix_words [OF m(1), of v] m(2) by simp
  also have "\<dots> = (if startsWith v t then radix_get v self else None)"
    using m(3) by (auto simp: startsWith_iff)
  finally show ?thesis .
qed

subsection \<open>Fuzzy search\<close>

definition below :: "'d radix \<Rightarrow> 'd radix \<Rightarrow> bool" where
  "below self t = (radix_ok t \<and> (\<forall>y. radix_get (rw t @ y) self = radix_get y t))"

lemma below_child:
  assumes "below self t" "(k, i) \<in> set (rc t)"
  shows "below self i"
proof -
  obtain k' s c d e w where t: "t = Radix k' s c d e w"
    by (cases t)
  have ok: "radix_ok t" "map_get c k = Some i"
    using assms t by (auto simp: below_def radix_ok_iff wf_map_def)
  have i: "radix_child_ok w k i"
    using radix_ok_get_child ok t by blast
  then obtain ch l where l: "rs i = ch # l" "k = [ch]"
    by (cases "rs i") (auto simp: radix_child_ok_def key_of_def)
  have "radix_get (rw i @ y) self = radix_get y i" for y
  proof -
    have "radix_get (rw i @ y) self = radix_get (rs i @ y) t"
      using assms(1) i t by (simp add: below_def radix_child_ok_def)
    also have "\<dots> = radix_get y i"
      using l ok t by simp
    finally show ?thesis .
  qed
  with i show ?thesis
    by (simp add: below_def radix_child_ok_def)
qed

definition fuzzy_ok :: "jsstring \<Rightarrow> nat \<Rightarrow> 'd radix \<Rightarrow> (jsstring, 'd list) jsmap \<Rightarrow> bool" where
  "fuzzy_ok e r self out =
     (\<forall>v ds. map_get out v = Some ds \<longrightarrow>
        (\<exists>d. radix_get v self = Some d \<and> set ds = set d) \<and>
        (startsWith v e \<or> snd (syncBoundedLevenshtein e v (int r))))"

lemma fuzzy_ok_findAllWords:
  assumes "fuzzy_ok e r self out" "below self t" "startsWith (rw t) e"
  shows "fuzzy_ok e r self (findAllWords e False 0 out t)"
proof -
  have ok: "radix_ok t"
    using assms(2) by (simp add: below_def)
  have "radix_get v self = Some d \<and> startsWith v e" if "map_of (radix_words t) v = Some d" for v d
    using that assms(2,3) by (auto simp: map_of_radix_words [OF ok] below_def startsWith_iff split: if_splits)
  then show ?thesis
    using assms(1) unfolding fuzzy_ok_def findAllWords_prefix [OF ok]
    by (fastforce simp: map_add_Some_iff)
qed

lemma fuzzy_ok_visit:
  assumes "fuzzy_ok e r self out" "below self t"
  shows "fuzzy_ok e r self (lev_visit e r t out)"
proof (cases "re t \<and> rw t \<noteq> []")
  case True
  have g: "radix_get (rw t) self = Some (rd t)"
    using assms(2) True by (cases t) (auto simp: below_def dest: spec [of _ "[]"])
  let ?b = "snd (syncBoundedLevenshtein e (rw t) (int r))"
  let ?o = "if ?b then map_set (rw t) [] out else out"
  have old: "map_get out v = Some ds \<Longrightarrow> (\<exists>d. radix_get v self = Some d \<and> set ds = set d) \<and>
        (startsWith v e \<or> snd (syncBoundedLevenshtein e v (int r)))" for v ds
    using assms(1) by (simp add: fuzzy_ok_def)
  have cur: "set cur \<union> set (rd t) = set (rd t) \<and> (startsWith (rw t) e \<or> ?b)" if "map_get ?o (rw t) = Some cur" for cur
    using that old [of "rw t" cur] g by (auto split: if_splits)
  have oth: "v \<noteq> rw t \<Longrightarrow> map_get ?o v = map_get out v" for v
    by simp
  show ?thesis
  proof (cases "map_get ?o (rw t)")
    case None
    then have "\<not> ?b"
      by (auto split: if_splits)
    with None True assms(1) show ?thesis
      by (simp add: lev_visit_def)
  next
    case (Some c)
    show ?thesis
    proof (cases "rd t = []")
      case False
      have "lev_visit e r t out = map_set (rw t) (set_add_all c (rd t)) ?o"
        using True Some False by (simp add: lev_visit_def Let_def)
      then show ?thesis
        using cur [OF Some] oth old g by (auto simp: fuzzy_ok_def simp del: map_of.simps split: if_splits)
    next
      case d: True
      have "lev_visit e r t out = ?o"
        using True Some d by (simp add: lev_visit_def Let_def)
      then show ?thesis
        using cur [OF Some] oth old g d Some by (auto simp: fuzzy_ok_def split: if_splits)
    qed
  qed
next
  case False
  then have "lev_visit e r t out = out"
    unfolding lev_visit_def by (rule if_not_P)
  with assms show ?thesis
    by simp
qed

lemma lev_pushes_nodes: "p \<in> set (lev_pushes e t n i) \<Longrightarrow> fst p = t \<or> (\<exists>k. (k, fst p) \<in> set (rc t))"
  by (cases "map_get (rc t) [e ! n]") (auto simp: lev_pushes_def split: if_splits dest: map_of_SomeD)

lemma lev_pushes_below: "below self t \<Longrightarrow> p \<in> set (lev_pushes e t n i) \<Longrightarrow> below self (fst p)"
  using lev_pushes_nodes below_child by metis

lemma fuzzy_ok_findLevenshtein:
  "fuzzy_ok e r self out \<Longrightarrow> below self (fst it) \<Longrightarrow> fuzzy_ok e r self (findLevenshtein e r it out)"
proof (induction e r it out rule: findLevenshtein.induct)
  case (1 e r t n i out)
  have step: "fuzzy_ok e r self (foldl (\<lambda>out p. findLevenshtein e r p out) out' ps)"
    if "set ps \<subseteq> set (lev_pushes e t n i)" "fuzzy_ok e r self out'" "\<not> startsWith (rw t) e" "\<not> i < 0" "\<not> length e \<le> n" for ps out'
    using that
  proof (induction ps arbitrary: out')
    case (Cons p ps)
    have "fuzzy_ok e r self (findLevenshtein e r p out')"
      by (rule "1.IH") (use Cons.prems "1.prems" lev_pushes_below [of self t p e n i] in auto)
    with Cons show ?case
      by simp
  qed simp
  have v: "fuzzy_ok e r self (lev_visit e r t out)"
    using fuzzy_ok_visit 1 by fastforce
  show ?case
    using "1.prems" v step [of "rev (lev_pushes e t n i)" "lev_visit e r t out"] fuzzy_ok_findAllWords [of e r self out t]
    by auto
qed

subsection \<open>Removal and serialisation\<close>

lemma radix_get_removeDocument:
  "radix_get z (radix_removeDocument t i) = (if z = [] then map_option (set_delete t) (radix_get [] i) else radix_get z i)"
  by (cases i; cases z) (auto simp: radix_removeDocument_def)

lemma radix_ok_removeDocument: "radix_ok i \<Longrightarrow> radix_ok (radix_removeDocument t i)"
  by (cases i) (auto simp: radix_removeDocument_def radix_ok_iff)

lemma radix_removeByWord_fields [simp]:
  "rs (fst (radix_removeByWord_at word t n x i)) = rs i" "rk (fst (radix_removeByWord_at word t n x i)) = rk i"
  "rw (fst (radix_removeByWord_at word t n x i)) = rw i"
  by (cases i; auto simp: Let_def split: list.splits option.splits prod.splits)+

lemma radix_removeByWord_spec:
  "radix_ok n \<Longrightarrow> x = drop (length (rw n)) word \<Longrightarrow>
   radix_ok (fst (radix_removeByWord_at word t True x n)) \<and>
   radix_get y (fst (radix_removeByWord_at word t True x n)) =
     (if y \<noteq> [] \<and> rw n @ y = word then map_option (set_delete t) (radix_get y n) else radix_get y n)"
proof (induction word t True x n arbitrary: y rule: radix_removeByWord_at.induct)
  case (1 word t x k s c d e w)
  have same: "w @ y = word \<Longrightarrow> y = x" for y
    using "1.prems"(2) by auto
  show ?case
  proof (cases x)
    case Nil
    with "1.prems" same [of y] show ?thesis
      by auto
  next
    case x: (Cons ch xs)
    show ?thesis
    proof (cases "map_get c [ch]")
      case None
      with "1.prems"(1) x same [of y] show ?thesis
        by auto
    next
      case (Some i)
      note ch = radix_ok_child [OF "1.prems"(1) Some]
      define i1 where "i1 = (if True \<and> rw i \<noteq> word then i else radix_removeDocument t i)"
      have i1: "radix_ok i1" "rs i1 = rs i" "rw i1 = rw i" "rk i1 = rk i"
        using ch by (auto simp: i1_def radix_ok_removeDocument)
      let ?i2 = "fst (radix_removeByWord_at word t True (drop (length (rs i)) x) i1)"
      have "drop (length (rs i)) x = drop (length (rw i1)) word"
        using "1.prems"(2) ch(3) i1(3) by (simp add: add.commute)
      then have IH: "radix_ok ?i2 \<and> radix_get z ?i2 =
        (if z \<noteq> [] \<and> rw i1 @ z = word then map_option (set_delete t) (radix_get z i1) else radix_get z i1)" for z
        using "1.hyps" [OF x Some i1_def i1(1)] by blast
      have res: "fst (radix_removeByWord_at word t True x (Radix k s c d e w)) = Radix k s (map_set [ch] ?i2 c) d e w"
        using x Some by (simp add: Let_def i1_def split: prod.split)
      have ok: "radix_child_ok w [ch] ?i2"
        using radix_ok_get_child [OF "1.prems"(1) Some] IH i1 by (simp add: radix_child_ok_def)
      have child: "radix_get z ?i2 = (if rw i @ z = word then map_option (set_delete t) (radix_get z i) else radix_get z i)" for z
        using IH [of z] i1(3) by (auto simp: i1_def radix_get_removeDocument)
      have "radix_get y (Radix k s (map_set [ch] ?i2 c) d e w) =
        (if y \<noteq> [] \<and> w @ y = word then map_option (set_delete t) (radix_get y (Radix k s c d e w)) else radix_get y (Radix k s c d e w))"
      proof (cases y)
        case (Cons c' ys)
        show ?thesis
        proof (cases "c' = ch \<and> startsWith y (rs i)")
          case True
          then obtain z where z: "y = rs i @ z"
            by (auto simp: startsWith_iff)
          have dz: "drop (length (rs i)) (c' # ys) = z"
            using z Cons by (metis append_eq_conv_conj)
          have "radix_get y (Radix k s (map_set [ch] ?i2 c) d e w) = radix_get z ?i2"
            "radix_get y (Radix k s c d e w) = radix_get z i"
            using Cons True dz Some i1(2) by auto
          then show ?thesis
            using child [of z] ch(3) z Cons by auto
        next
          case False
          have "radix_get y (Radix k s (map_set [ch] ?i2 c) d e w) = radix_get y (Radix k s c d e w)"
            unfolding Cons radix_get_Cons map_get_set using False Cons Some i1(2) by simp
          moreover have "radix_get y (Radix k s c d e w) = None" if "w @ y = word"
          proof -
            have "c' = ch"
              using same [OF that] x Cons by simp
            then show ?thesis
              unfolding Cons radix_get_Cons using False Cons Some by simp
          qed
          ultimately show ?thesis
            by auto
        qed
      qed simp
      then show ?thesis
        unfolding res using radix_ok_set_child [OF "1.prems"(1) ok] by simp
    qed
  qed
qed

lemma radix_empty_get: "radix_empty i \<Longrightarrow> radix_get y i = None"
  by (cases i; cases y) (auto simp: radix_empty_def)

lemma radix_ok_del_child: "radix_ok (Radix k s c d e w) \<Longrightarrow> radix_ok (Radix k s (map_del key c) d e w)"
  using wf_map_del [of c key] by (auto simp: radix_ok_iff AList.delete_eq)

lemma radix_removeWord_at_spec:
  "radix_ok n \<Longrightarrow> radix_get x n \<noteq> None \<Longrightarrow>
   \<exists>n'. radix_removeWord_at x n = Some n' \<and> radix_ok n' \<and> rs n' = rs n \<and> rk n' = rk n \<and> rw n' = rw n \<and>
     (\<forall>y. radix_get y n' = (if y = x then None else radix_get y n))"
proof (induction x n rule: radix_removeWord_at.induct)
  case (1 x k s c d e w)
  show ?case
  proof (cases x)
    case Nil
    have "radix_get y (Radix k s c [] False w) = (if y = [] then None else radix_get y (Radix k s c d e w))" for y
      by (cases y) auto
    with Nil "1.prems" show ?thesis
      by (simp add: radix_ok_iff)
  next
    case x: (Cons ch xs)
    then obtain i where Some: "map_get c [ch] = Some i" and sw: "startsWith x (rs i)"
      and gi: "radix_get (drop (length (rs i)) x) i \<noteq> None"
      using "1.prems"(2) by (auto split: option.splits if_splits)
    note ch = radix_ok_child [OF "1.prems"(1) Some]
    obtain i' where i': "radix_removeWord_at (drop (length (rs i)) x) i = Some i'" "radix_ok i'" "rs i' = rs i"
      "rk i' = rk i" "rw i' = rw i"
      "\<And>y. radix_get y i' = (if y = drop (length (rs i)) x then None else radix_get y i)"
      using "1.IH" [OF x Some ch(1) gi] by blast
    let ?c = "if radix_empty i' then map_del [ch] c else map_set [ch] i' c"
    have "radix_child_ok w [ch] i'"
      using radix_ok_get_child [OF "1.prems"(1) Some] i' by (simp add: radix_child_ok_def)
    then have ok: "radix_ok (Radix k s ?c d e w)"
      using radix_ok_set_child [OF "1.prems"(1)] radix_ok_del_child [OF "1.prems"(1)] by simp
    have get: "radix_get y (Radix k s ?c d e w) = (if y = x then None else radix_get y (Radix k s c d e w))" for y
    proof (cases y)
      case (Cons c' ys)
      show ?thesis
      proof (cases "c' = ch \<and> startsWith y (rs i)")
        case True
        then obtain z zx where z: "y = rs i @ z" "x = rs i @ zx"
          using sw by (auto simp: startsWith_iff)
        have dz: "drop (length (rs i)) (c' # ys) = z"
          using z Cons by (metis append_eq_conv_conj)
        have "radix_get y (Radix k s ?c d e w) = radix_get z i'" "radix_get y (Radix k s c d e w) = radix_get z i"
          using Cons True Some i'(3) dz radix_empty_get [of i' z] by auto
        then show ?thesis
          using i'(6) z by simp
      next
        case False
        then show ?thesis
          using Cons Some i'(3) x sw by auto
      qed
    qed (use x in simp)
    show ?thesis
      using x Some i'(1) ok get by simp
  qed
qed

lemma map_new_distinct: "wf_map kvs \<Longrightarrow> map_new kvs = kvs"
proof -
  have "wf_map (m @ kvs) \<Longrightarrow> foldl (\<lambda>m (k, v). map_set k v m) m kvs = m @ kvs" for m
  proof (induction kvs arbitrary: m)
    case (Cons p kvs)
    obtain k v where p: "p = (k, v)"
      by fastforce
    have "map_get m k = None"
      using Cons.prems p by (auto simp: wf_map_def map_of_eq_None_iff)
    with Cons p show ?case
      by (simp add: map_set_new)
  qed simp
  from this [of "[]"] show "wf_map kvs \<Longrightarrow> map_new kvs = kvs"
    by (simp add: map_new_def)
qed

lemma radix_json: "radix_ok n \<Longrightarrow> radix_fromJSON (radix_toJSON n) = n"
proof (induction n rule: radix_ok.induct)
  case (1 k s c d e w)
  have "map (map_prod id radix_fromJSON) (map (map_prod id radix_toJSON) c) = c"
    unfolding map_map by (rule map_idI) (use 1 in \<open>auto simp: radix_ok_iff radix_child_ok_def\<close>)
  with 1 show ?case
    by (simp add: radix_ok_iff map_new_distinct)
qed

subsection \<open>Properties\<close>

definition radix_of :: "(jsstring \<times> 'd) list \<Rightarrow> 'd radix" where
  "radix_of ps = foldl (\<lambda>n (x, d). radix_insert x d n) radix_root ps"

lemma radix_ok_root: "radix_ok radix_root"
  by (simp add: radix_root_def radix_ok_iff)

lemma radix_ok_of: "radix_ok (radix_of ps)"
  unfolding radix_of_def by (rule radix.inv_ins_all [OF radix_ok_root])

lemma rw_of: "rw (radix_of ps) = []"
proof -
  have "rw (foldl (\<lambda>n (x, d). radix_insert x d n) n0 ps) = rw n0" for n0 :: "'a radix"
    by (induction ps arbitrary: n0) auto
  then show ?thesis
    by (simp add: radix_of_def radix_root_def)
qed

lemma radix_docs_of: "radix_docs (radix_of ps) v = {d. (v, d) \<in> set ps}"
  unfolding radix_of_def radix.docs_ins_all [OF radix_ok_root]
  by (cases v) (auto simp: radix_docs_def radix_root_def)

lemma radix_get_of: "radix_get v (radix_of ps) = None \<longleftrightarrow> v \<notin> fst ` set ps"
proof (induction ps rule: rev_induct)
  case Nil
  show ?case
    by (cases v) (auto simp: radix_of_def radix_root_def)
next
  case (snoc p ps)
  have "radix_of (ps @ [p]) = radix_insert (fst p) (snd p) (radix_of ps)"
    by (simp add: radix_of_def split: prod.split)
  with snoc show ?case
    by (simp add: radix_get_insert [OF radix_ok_of])
qed

text \<open>
  C7: Exact search in a prefix tree built by any insertions finds the term itself, if it was
  inserted, and prefix search finds exactly the inserted words that start with the term; each word
  comes with exactly the documents it was inserted with.
\<close>

theorem radix_find_correct:
  "dom (map_get (radix_find (radix_of ps) t True 0)) = {t} \<inter> fst ` set ps \<and>
   dom (map_get (radix_find (radix_of ps) t False 0)) = {v \<in> fst ` set ps. startsWith v t} \<and>
   (\<forall>exact v ds. map_get (radix_find (radix_of ps) t exact 0) v = Some ds \<longrightarrow> set ds = {d. (v, d) \<in> set ps})"
proof -
  have docs: "radix_get v (radix_of ps) = Some ds \<Longrightarrow> set ds = {d. (v, d) \<in> set ps}" for v ds
    using radix_docs_of [of ps v] by (simp add: radix_docs_def)
  note ex = radix_find_exact [OF radix_ok_of rw_of, of ps t 0] and pf = radix_find_prefix [OF radix_ok_of rw_of, of ps t]
  have "map_get (radix_find (radix_of ps) t exact 0) v = Some ds \<longrightarrow> set ds = {d. (v, d) \<in> set ps}" for exact v ds
    using docs ex [of v] pf [of v] by (cases exact) (auto split: if_splits)
  moreover have "dom (map_get (radix_find (radix_of ps) t True 0)) = {t} \<inter> fst ` set ps"
    unfolding set_eq_iff domIff ex by (simp add: radix_get_of del: not_None_eq)
  moreover have "dom (map_get (radix_find (radix_of ps) t False 0)) = {v \<in> fst ` set ps. startsWith v t}"
    unfolding set_eq_iff domIff pf by (simp add: radix_get_of del: not_None_eq)
  ultimately show ?thesis
    by blast
qed

theorem radix_find_correct_witness:
  "set (the (map_get (radix_find (radix_of [(js ''car'', 1::nat), (js ''cat'', 2), (js ''car'', 3)]) (js ''ca'') False 0) (js ''car''))) = {1, 3}"
proof -
  let ?ps = "[(js ''car'', 1::nat), (js ''cat'', 2), (js ''car'', 3)]"
  have g: "map_get (radix_find (radix_of ?ps) (js ''ca'') False 0) (js ''car'') = Some [1, 3]"
    by code_simp
  have "set [1, 3] = {d. (js ''car'', d) \<in> set ?ps}"
    using radix_find_correct [of ?ps "js ''ca''"] g by blast
  with g show ?thesis
    by simp
qed

text \<open>
  C29: A fuzzy search returns only inserted words, each with exactly its documents, that start with
  the term or are within the tolerated edit distance of it.
\<close>

theorem radix_fuzzy_sound:
  assumes "map_get (radix_find (radix_of ps) t False r) v = Some ds" "r \<noteq> 0"
  shows "v \<in> fst ` set ps \<and> set ds = {d. (v, d) \<in> set ps} \<and>
    (startsWith v t \<or> 0 \<le> boundedLevenshtein t v (int r))"
proof -
  have "below (radix_of ps) (radix_of ps)"
    by (simp add: below_def radix_ok_of rw_of)
  then have "fuzzy_ok t r (radix_of ps) (findLevenshtein t r (radix_of ps, 0, int r) [])"
    by (intro fuzzy_ok_findLevenshtein) (simp_all add: fuzzy_ok_def)
  with assms obtain d where d: "radix_get v (radix_of ps) = Some d" "set ds = set d"
    "startsWith v t \<or> snd (syncBoundedLevenshtein t v (int r))"
    by (fastforce simp: radix_find_def fuzzy_ok_def)
  then show ?thesis
    using radix_docs_of [of ps v] radix_get_of [of v ps]
    by (auto simp: radix_docs_def syncBoundedLevenshtein_def Let_def)
qed

theorem radix_fuzzy_sound_witness:
  "map_get (radix_find (radix_of [(js ''car'', 1::nat), (js ''dog'', 2)]) (js ''cat'') False 1) (js ''car'') = Some [1] \<and>
   \<not> startsWith (js ''car'') (js ''cat'') \<and> 0 \<le> boundedLevenshtein (js ''cat'') (js ''car'') 1"
proof -
  let ?ps = "[(js ''car'', 1::nat), (js ''dog'', 2)]"
  have found: "map_get (radix_find (radix_of ?ps) (js ''cat'') False 1) (js ''car'') = Some [1]"
    by code_simp
  have "\<not> startsWith (js ''car'') (js ''cat'')"
    by code_simp
  with found radix_fuzzy_sound [of ?ps "js ''cat''" 1 "js ''car''" "[1]"] show ?thesis
    by simp
qed

text \<open>
  A fuzzy search can miss the very word it is given. It advances one character of the term per
  edge although edges carry several, so with a tolerance of 1 a word four edges deep is not found,
  where the search without tolerance finds it.
\<close>

theorem radix_fuzzy_misses_exact_word:
  "let self = radix_of [(js ''abc'', 1::nat), (js ''abcdef'', 2), (js ''abcdefghi'', 3), (js ''abcdefghijkl'', 4)]
   in radix_find self (js ''abcdefghijkl'') False 0 = [(js ''abcdefghijkl'', [4])] \<and>
      radix_find self (js ''abcdefghijkl'') False 1 = []"
  by code_simp

text \<open>
  C30: Removing a document from a word takes it from that word only, removing a stored word removes
  that word only, and both keep the tree well formed; the tree read back from its JSON form is the
  tree written.
\<close>

theorem radix_removal_correct:
  assumes "x \<noteq> []" "x \<in> fst ` set ps"
  defines "self \<equiv> radix_of ps"
  shows "radix_ok (fst (radix_removeDocumentByWord x t True self)) \<and>
    radix_docs (fst (radix_removeDocumentByWord x t True self)) v = {d. (v, d) \<in> set ps \<and> (v, d) \<noteq> (x, t)} \<and>
    radix_ok (fst (radix_removeWord x self)) \<and> snd (radix_removeWord x self) \<and>
    radix_docs (fst (radix_removeWord x self)) v = {d. (v, d) \<in> set ps \<and> v \<noteq> x} \<and>
    radix_fromJSON (radix_toJSON self) = self"
proof -
  have ok: "radix_ok self" "rw self = []" and docs: "\<And>v. radix_docs self v = {d. (v, d) \<in> set ps}"
    by (simp_all add: self_def radix_ok_of rw_of radix_docs_of)
  have rm: "radix_ok (fst (radix_removeDocumentByWord x t True self)) \<and>
    radix_get v (fst (radix_removeDocumentByWord x t True self)) =
      (if v = x then map_option (set_delete t) (radix_get v self) else radix_get v self)"
    using radix_removeByWord_spec [OF ok(1), of x x t v] ok(2) assms(1) by (simp add: radix_removeDocumentByWord_def)
  have "radix_get x self \<noteq> None"
    using assms radix_get_of [of x ps] by simp
  then obtain n' where n': "radix_removeWord_at x self = Some n'" "radix_ok n'"
    "\<And>y. radix_get y n' = (if y = x then None else radix_get y self)"
    using radix_removeWord_at_spec [OF ok(1)] by blast
  have "radix_docs (fst (radix_removeDocumentByWord x t True self)) v = (if v = x then radix_docs self v - {t} else radix_docs self v)"
    using rm by (auto simp: radix_docs_def split: option.splits)
  moreover have "radix_docs n' v = (if v = x then {} else radix_docs self v)"
    by (simp add: radix_docs_def n'(3))
  moreover have "radix_removeWord x self = (n', True)"
    using n'(1) assms(1) by (simp add: radix_removeWord_def)
  moreover have "(if v = x then radix_docs self v - {t} else radix_docs self v) = {d. (v, d) \<in> set ps \<and> (v, d) \<noteq> (x, t)}"
    "(if v = x then {} else radix_docs self v) = {d. (v, d) \<in> set ps \<and> v \<noteq> x}"
    unfolding docs by auto
  ultimately show ?thesis
    using rm n'(2) radix_json [OF ok(1)] by simp
qed

theorem radix_removal_correct_witness:
  "radix_docs (fst (radix_removeWord (js ''ca'') (radix_of [(js ''ca'', 1::nat), (js ''cat'', 2)]))) (js ''cat'') = {2}"
proof -
  let ?ps = "[(js ''ca'', 1::nat), (js ''cat'', 2)]"
  have ne: "js ''ca'' \<noteq> []" "js ''cat'' \<noteq> js ''ca''" and mem: "js ''ca'' \<in> fst ` set ?ps"
    by (code_simp, code_simp, simp)
  have "radix_docs (fst (radix_removeWord (js ''ca'') (radix_of ?ps))) (js ''cat'') = {d. (js ''cat'', d) \<in> set ?ps \<and> js ''cat'' \<noteq> js ''ca''}"
    using radix_removal_correct [OF ne(1) mem, of 1 "js ''cat''"] by blast
  with ne(2) show ?thesis
    by simp
qed

text \<open>
  The removal of a word follows the first characters and lengths of the labels without
  comparing them, so removing a word that was never stored can delete another one.
\<close>

theorem radix_removeWord_wrong_word:
  "radix_removeWord (js ''abd'') (radix_of [(js ''abc'', 1::nat)]) = (radix_root, True)"
  by code_simp

end
