(* ===== verification/Orama_BKD.thy ===== *)
theory Orama_BKD
  imports Orama_Util
begin

text \<open>
  The index of geographic points (classes \<^verbatim>\<open>pe\<close> and \<^verbatim>\<open>ge\<close> of
  \<^verbatim>\<open>assets/js/search-orama.js\<close>): a binary tree that splits by longitude and latitude in
  turn, and a map from coordinates to nodes. A node object is shared by the tree and the map; the
  model keeps the shape and the points in the tree and the document set of the object in the map,
  under the coordinates, which identify the object. Coordinates are rationals. The great-circle
  distance is the real-valued formula of the code; the searches take the distance function the
  code selects. Vincenty's iteration is not modelled.
\<close>

subsection \<open>The tree\<close>

record point =
  lon :: rat
  lat :: rat

datatype bkd = BNull | BNode point bkd bkd

record 'd bkd_tree =
  bkd_root :: bkd
  nodeMap :: "(point, 'd list) jsmap"

definition bkd_new :: "'d bkd_tree" where
  "bkd_new = \<lparr>bkd_root = BNull, nodeMap = []\<rparr>"

definition goes_left :: "nat \<Rightarrow> point \<Rightarrow> point \<Rightarrow> bool" where
  "goes_left i e s = (if i mod 2 = 0 then lon e < lon s else lat e < lat s)"

fun bkd_place :: "nat \<Rightarrow> point \<Rightarrow> bkd \<Rightarrow> bkd" where
  "bkd_place i e BNull = BNode e BNull BNull"
| "bkd_place i e (BNode s l r) =
     (if goes_left i e s then BNode s (bkd_place (i + 1) e l) r else BNode s l (bkd_place (i + 1) e r))"

definition bkd_insert :: "point \<Rightarrow> 'd list \<Rightarrow> 'd bkd_tree \<Rightarrow> 'd bkd_tree" where
  "bkd_insert e t self =
     (case map_get (nodeMap self) e of
        Some d \<Rightarrow> self\<lparr>nodeMap := map_set e (set_add_all d t) (nodeMap self)\<rparr>
      | None \<Rightarrow>
          self\<lparr>nodeMap := map_set e (set_new t) (nodeMap self), bkd_root := bkd_place 0 e (bkd_root self)\<rparr>)"

definition bkd_contains :: "'d bkd_tree \<Rightarrow> point \<Rightarrow> bool" where
  "bkd_contains self e = (map_get (nodeMap self) e \<noteq> None)"

definition getDocIDsByCoordinates :: "'d bkd_tree \<Rightarrow> point \<Rightarrow> 'd list option" where
  "getDocIDsByCoordinates self e = map_get (nodeMap self) e"

text \<open>
  \<^verbatim>\<open>deleteNode\<close>: the left child, or the right child where there is no left one, takes the
  place of the node. A node whose object is in the map but no longer in the tree is not found.
\<close>

fun deleteNode :: "point \<Rightarrow> bkd \<Rightarrow> bkd" where
  "deleteNode e BNull = BNull"
| "deleteNode e (BNode s l r) =
     (if s = e then (if l \<noteq> BNull then l else r) else BNode s (deleteNode e l) (deleteNode e r))"

definition removeDocByID :: "point \<Rightarrow> 'd \<Rightarrow> 'd bkd_tree \<Rightarrow> 'd bkd_tree" where
  "removeDocByID e t self =
     (case map_get (nodeMap self) e of
        None \<Rightarrow> self
      | Some d \<Rightarrow>
          (let d' = set_delete t d
           in if length d' = 0
              then \<lparr>bkd_root = deleteNode e (bkd_root self), nodeMap = map_del e (nodeMap self)\<rparr>
              else self\<lparr>nodeMap := map_set e d' (nodeMap self)\<rparr>))"

subsection \<open>Searches\<close>

text \<open>
  The stack of the radius search is popped from its end after the left and right children were
  pushed, so the right subtree comes first; the polygon search visits in the same order.
\<close>

fun visit_order :: "bkd \<Rightarrow> point list" where
  "visit_order BNull = []"
| "visit_order (BNode p l r) = p # visit_order r @ visit_order l"

definition node_docs :: "'d bkd_tree \<Rightarrow> point \<Rightarrow> 'd list" where
  "node_docs self p = (case map_get (nodeMap self) p of None \<Rightarrow> [] | Some d \<Rightarrow> d)"

definition collect_points :: "'d bkd_tree \<Rightarrow> (point \<Rightarrow> bool) \<Rightarrow> (point \<times> 'd list) list" where
  "collect_points self P =
     foldl (\<lambda>a p. if P p then a @ [(p, node_docs self p)] else a) [] (visit_order (bkd_root self))"

datatype direction = Asc | Desc

definition by_distance ::
    "(point \<Rightarrow> point \<Rightarrow> 'n::linordered_idom) \<Rightarrow> point \<Rightarrow> direction \<Rightarrow> point \<times> 'd list \<Rightarrow> point \<times> 'd list \<Rightarrow> 'n" where
  "by_distance s e r t n = (case r of Asc \<Rightarrow> s e (fst t) - s e (fst n) | Desc \<Rightarrow> s e (fst n) - s e (fst t))"

definition searchByRadius ::
    "'d bkd_tree \<Rightarrow> (point \<Rightarrow> point \<Rightarrow> 'n::linordered_idom) \<Rightarrow> point \<Rightarrow> 'n \<Rightarrow> bool \<Rightarrow> direction option \<Rightarrow> (point \<times> 'd list) list" where
  "searchByRadius self s e t n r =
     (let a = collect_points self (\<lambda>p. if n then s e p \<le> t else s e p > t)
      in case r of None \<Rightarrow> a | Some r \<Rightarrow> js_sort (by_distance s e r) a)"

definition crosses :: "point \<Rightarrow> point \<Rightarrow> point \<Rightarrow> bool" where
  "crosses t v u =
     ((lat v > lat t) \<noteq> (lat u > lat t) \<and>
      lon t < (lon u - lon v) * (lat t - lat v) / (lat u - lat v) + lon v)"

fun polygon_loop :: "point \<Rightarrow> point \<Rightarrow> point list \<Rightarrow> bool \<Rightarrow> bool" where
  "polygon_loop t u [] n = n"
| "polygon_loop t u (v # vs) n = polygon_loop t v vs (if crosses t v u then \<not> n else n)"

definition isPointInPolygon :: "point list \<Rightarrow> point \<Rightarrow> bool" where
  "isPointInPolygon e t = (if e = [] then False else polygon_loop t (last e) e False)"

fun centroid_loop :: "point \<Rightarrow> point list \<Rightarrow> rat \<times> rat \<times> rat \<Rightarrow> rat \<times> rat \<times> rat" where
  "centroid_loop u [] (t, n, r) = (t, n, r)"
| "centroid_loop u (v # vs) (t, n, r) =
     (let w = lon v * lat u - lon u * lat v
      in centroid_loop v vs (t + w, n + (lon v + lon u) * w, r + (lat v + lat u) * w))"

text \<open>\<open>None\<close> stands for the NaN or infinite coordinates of a polygon without area.\<close>

definition calculatePolygonCentroid :: "point list \<Rightarrow> point option" where
  "calculatePolygonCentroid e =
     (if e = [] then None
      else (let (t, n, r) = centroid_loop (last e) e (0, 0, 0); s = 6 * (t / 2)
            in if s = 0 then None else Some \<lparr>lon = n / s, lat = r / s\<rparr>))"

definition searchByPolygon ::
    "'d bkd_tree \<Rightarrow> (point \<Rightarrow> point \<Rightarrow> 'n::linordered_idom) \<Rightarrow> point list \<Rightarrow> bool \<Rightarrow> direction option \<Rightarrow> (point \<times> 'd list) list option" where
  "searchByPolygon self s e t n =
     (let a = collect_points self (\<lambda>p. let i = isPointInPolygon e p in (i \<and> t) \<or> (\<not> i \<and> \<not> t))
      in case n of
           None \<Rightarrow> Some a
         | Some r \<Rightarrow> map_option (\<lambda>i. js_sort (by_distance s i r) a) (calculatePolygonCentroid e))"

subsection \<open>Great-circle distance\<close>

definition radian :: "rat \<Rightarrow> real" where
  "radian x = of_rat x * (pi / 180)"

definition haversine_a :: "point \<Rightarrow> point \<Rightarrow> real" where
  "haversine_a e t =
     (let r = radian (lat e); q = radian (lat t); s = radian (lat t - lat e); i = radian (lon t - lon e)
      in sin (s / 2) * sin (s / 2) + cos r * cos q * sin (i / 2) * sin (i / 2))"

text \<open>\<^verbatim>\<open>Math.atan2\<close> for non-negative arguments.\<close>

definition atan2_nonneg :: "real \<Rightarrow> real \<Rightarrow> real" where
  "atan2_nonneg y x = (if x > 0 then arctan (y / x) else if y > 0 then pi / 2 else 0)"

definition haversineDistance :: "point \<Rightarrow> point \<Rightarrow> real" where
  "haversineDistance e t =
     6371000 * (2 * atan2_nonneg (sqrt (haversine_a e t)) (sqrt (1 - haversine_a e t)))"

subsection \<open>Serialisation\<close>

datatype 'd bkd_json = BJNull | BJNode point "'d list" "'d bkd_json" "'d bkd_json"

fun node_json :: "'d bkd_tree \<Rightarrow> bkd \<Rightarrow> 'd bkd_json" where
  "node_json self BNull = BJNull"
| "node_json self (BNode p l r) = BJNode p (node_docs self p) (node_json self l) (node_json self r)"

definition bkd_toJSON :: "'d bkd_tree \<Rightarrow> 'd bkd_json" where
  "bkd_toJSON self = node_json self (bkd_root self)"

fun json_shape :: "'d bkd_json \<Rightarrow> bkd" where
  "json_shape BJNull = BNull"
| "json_shape (BJNode p d l r) = BNode p (json_shape l) (json_shape r)"

fun buildNodeMap :: "'d bkd_json \<Rightarrow> (point, 'd list) jsmap \<Rightarrow> (point, 'd list) jsmap" where
  "buildNodeMap BJNull m = m"
| "buildNodeMap (BJNode p d l r) m = buildNodeMap r (buildNodeMap l (map_set p (set_new d) m))"

definition bkd_fromJSON :: "'d bkd_json \<Rightarrow> 'd bkd_tree" where
  "bkd_fromJSON e = \<lparr>bkd_root = json_shape e, nodeMap = buildNodeMap e []\<rparr>"

subsection \<open>Invariant\<close>

definition bkd_inv :: "'d bkd_tree \<Rightarrow> bool" where
  "bkd_inv self =
     (wf_map (nodeMap self) \<and> distinct (visit_order (bkd_root self)) \<and>
      set (visit_order (bkd_root self)) = dom (map_get (nodeMap self)) \<and>
      (\<forall>p d. map_get (nodeMap self) p = Some d \<longrightarrow> distinct d))"

definition bkd_docs :: "'d bkd_tree \<Rightarrow> point \<Rightarrow> 'd set" where
  "bkd_docs self p = set (node_docs self p)"

lemma visit_order_place:
  "set (visit_order (bkd_place i e t)) = insert e (set (visit_order t))"
  "distinct (visit_order t) \<Longrightarrow> e \<notin> set (visit_order t) \<Longrightarrow> distinct (visit_order (bkd_place i e t))"
proof -
  show s: "set (visit_order (bkd_place i e t)) = insert e (set (visit_order t))" for i t
    by (induction t arbitrary: i) auto
  show "distinct (visit_order t) \<Longrightarrow> e \<notin> set (visit_order t) \<Longrightarrow> distinct (visit_order (bkd_place i e t))"
    by (induction t arbitrary: i) (auto simp: s)
qed

lemma bkd_inv_insert: "bkd_inv self \<Longrightarrow> bkd_inv (bkd_insert e t self)"
proof (cases "map_get (nodeMap self) e")
  case None
  moreover assume "bkd_inv self"
  ultimately show ?thesis
    by (auto simp: bkd_inv_def bkd_insert_def visit_order_place domIff intro!: visit_order_place(2))
next
  case (Some d)
  moreover assume "bkd_inv self"
  ultimately show ?thesis
    by (auto simp: bkd_inv_def bkd_insert_def split: if_splits)
qed

lemma bkd_docs_insert:
  "bkd_docs (bkd_insert e t self) p = (if p = e then bkd_docs self e \<union> set t else bkd_docs self p)"
  by (auto simp: bkd_docs_def node_docs_def bkd_insert_def split: option.splits)

interpretation bkd: doc_index bkd_inv "\<lambda>p d. bkd_insert p [d]" bkd_docs
  by unfold_locales (auto simp: bkd_inv_insert bkd_docs_insert)

lemma collect_points_filter:
  "collect_points self P = map (\<lambda>p. (p, node_docs self p)) (filter P (visit_order (bkd_root self)))"
proof -
  have "foldl (\<lambda>a p. if P p then a @ [(p, node_docs self p)] else a) a ps
    = a @ map (\<lambda>p. (p, node_docs self p)) (filter P ps)" for a ps
    by (induction ps arbitrary: a) auto
  then show ?thesis
    by (simp add: collect_points_def)
qed

lemma by_distance_comparator: "js_comparator (by_distance s e r)"
  by unfold_locales (cases r; simp add: by_distance_def; linarith)+

definition bkd_of :: "(point \<times> 'd) list \<Rightarrow> 'd bkd_tree" where
  "bkd_of ps = foldl (\<lambda>self (p, d). bkd_insert p [d] self) bkd_new ps"

lemma bkd_inv_new: "bkd_inv bkd_new"
  by (simp add: bkd_inv_def bkd_new_def)

lemma bkd_inv_of: "bkd_inv (bkd_of ps)"
  unfolding bkd_of_def by (rule bkd.inv_ins_all [OF bkd_inv_new])

lemma bkd_docs_of: "bkd_docs (bkd_of ps) p = {d. (p, d) \<in> set ps}"
  unfolding bkd_of_def bkd.docs_ins_all [OF bkd_inv_new]
  by (simp add: bkd_docs_def node_docs_def bkd_new_def)

lemma bkd_points_of: "set (visit_order (bkd_root (bkd_of ps))) = fst ` set ps"
proof (induction ps rule: rev_induct)
  case (snoc q ps)
  have "bkd_of (ps @ [q]) = bkd_insert (fst q) [snd q] (bkd_of ps)"
    by (simp add: bkd_of_def split: prod.split)
  moreover have "set (visit_order (bkd_root (bkd_insert e t self))) = insert e (set (visit_order (bkd_root self)))"
    if "bkd_inv self" for e t and self :: "'a bkd_tree"
    using that by (auto simp: bkd_insert_def bkd_inv_def visit_order_place split: option.splits)
  ultimately show ?case
    using snoc bkd_inv_of [of ps] by simp
qed (simp add: bkd_of_def bkd_new_def)

fun one_child :: "point \<Rightarrow> bkd \<Rightarrow> bool" where
  "one_child e BNull = True"
| "one_child e (BNode s l r) = (if s = e then l = BNull \<or> r = BNull else one_child e l \<and> one_child e r)"

lemma deleteNode_one_child:
  "distinct (visit_order t) \<Longrightarrow> one_child e t \<Longrightarrow>
   set (visit_order (deleteNode e t)) = set (visit_order t) - {e} \<and> distinct (visit_order (deleteNode e t))"
  by (induction t) auto

subsection \<open>Properties\<close>

text \<open>
  C21: A radius search in an index built by any insertions returns each indexed point within (or,
  with the outside flag, beyond) the radius exactly once, with the documents indexed there, in
  order of increasing or decreasing distance, for every distance function.
\<close>

theorem searchByRadius_correct:
  fixes s :: "point \<Rightarrow> point \<Rightarrow> 'n::linordered_idom"
  shows "let res = searchByRadius (bkd_of ps) s e t inside (Some r) in
   distinct (map fst res) \<and>
   set (map fst res) = {p \<in> fst ` set ps. if inside then s e p \<le> t else t < s e p} \<and>
   (\<forall>(p, ds) \<in> set res. set ds = {d. (p, d) \<in> set ps}) \<and>
   sorted_wrt (\<lambda>a b. if r = Asc then s e (fst a) \<le> s e (fst b) else s e (fst b) \<le> s e (fst a)) res"
proof -
  let ?P = "\<lambda>p. if inside then s e p \<le> t else s e p > t"
  let ?a = "collect_points (bkd_of ps) ?P"
  let ?res = "js_sort (by_distance s e r) ?a"
  have "map fst ?a = filter ?P (visit_order (bkd_root (bkd_of ps)))"
    unfolding collect_points_filter by (simp add: o_def)
  moreover have "mset (map fst ?res) = mset (map fst ?a)"
    by (simp only: mset_map mset_js_sort)
  ultimately have m: "mset (map fst ?res) = mset (filter ?P (visit_order (bkd_root (bkd_of ps))))"
    by (simp only:)
  have set: "set (map fst ?res) = {p \<in> fst ` set ps. ?P p}"
    using arg_cong [OF m, of set_mset] by (auto simp: bkd_points_of)
  have "distinct (map fst ?res)"
    using bkd_inv_of [of ps] by (simp add: mset_eq_imp_distinct_iff [OF m] bkd_inv_def del: set_map)
  moreover have "\<forall>(p, ds) \<in> set ?res. set ds = {d. (p, d) \<in> set ps}"
    using bkd_docs_of [of ps] by (auto simp: collect_points_filter bkd_docs_def)
  moreover have "sorted_wrt (\<lambda>a b. by_distance s e r a b \<le> 0) ?res"
    by (rule js_comparator.sorted_js_sort [OF by_distance_comparator])
  then have "sorted_wrt (\<lambda>a b. if r = Asc then s e (fst a) \<le> s e (fst b) else s e (fst b) \<le> s e (fst a)) ?res"
    by (rule sorted_wrt_mono_rel [rotated]) (auto simp: by_distance_def split: direction.splits)
  ultimately show ?thesis
    using set by (simp add: searchByRadius_def del: set_map)
qed

theorem searchByRadius_correct_witness:
  "let s = (\<lambda>a b. abs (lon a - lon b)); p = \<lparr>lon = 1, lat = 2\<rparr>; q = \<lparr>lon = 5, lat = 2\<rparr>
   in set (map fst (searchByRadius (bkd_of [(p, 10::nat), (q, 11)]) s \<lparr>lon = 0, lat = 0\<rparr> 3 True (Some Asc))) = {p}"
  using searchByRadius_correct [of "[(\<lparr>lon = 1, lat = 2\<rparr>, 10::nat), (\<lparr>lon = 5, lat = 2\<rparr>, 11)]" "\<lambda>a b. abs (lon a - lon b)"
      "\<lparr>lon = 0, lat = 0\<rparr>" 3 True Asc]
  by (auto simp: Let_def)

text \<open>
  A polygon search tests points by ray casting; for an axis-parallel rectangle the test accepts
  exactly the points of the half-open rectangle, and the centroid is its middle.
\<close>

theorem isPointInPolygon_rectangle:
  assumes "x0 < x1" "y0 < y1"
  defines "rect \<equiv> [\<lparr>lon = x0, lat = y0\<rparr>, \<lparr>lon = x1, lat = y0\<rparr>, \<lparr>lon = x1, lat = y1\<rparr>, \<lparr>lon = x0, lat = y1\<rparr>]"
  shows "(isPointInPolygon rect p \<longleftrightarrow> x0 \<le> lon p \<and> lon p < x1 \<and> y0 \<le> lat p \<and> lat p < y1) \<and>
    calculatePolygonCentroid rect = Some \<lparr>lon = (x0 + x1) / 2, lat = (y0 + y1) / 2\<rparr>"
proof
  show "isPointInPolygon rect p \<longleftrightarrow> x0 \<le> lon p \<and> lon p < x1 \<and> y0 \<le> lat p \<and> lat p < y1"
    using assms(1,2) by (auto simp: rect_def isPointInPolygon_def crosses_def)
  have d: "(x1 - x0) * (y1 - y0) \<noteq> 0"
    using assms(1,2) by simp
  have "centroid_loop (last rect) rect (0, 0, 0) =
    (- (2 * ((x1 - x0) * (y1 - y0))), - (3 * (x0 + x1) * ((x1 - x0) * (y1 - y0))), - (3 * (y0 + y1) * ((x1 - x0) * (y1 - y0))))"
    by (simp add: rect_def Let_def algebra_simps)
  then show "calculatePolygonCentroid rect = Some \<lparr>lon = (x0 + x1) / 2, lat = (y0 + y1) / 2\<rparr>"
    using d by (simp add: calculatePolygonCentroid_def rect_def Let_def)
qed

theorem isPointInPolygon_rectangle_witness:
  "isPointInPolygon [\<lparr>lon = 0, lat = 0\<rparr>, \<lparr>lon = 2, lat = 0\<rparr>, \<lparr>lon = 2, lat = 1\<rparr>, \<lparr>lon = 0, lat = 1\<rparr>] \<lparr>lon = 0, lat = 1 / 2\<rparr>"
  using isPointInPolygon_rectangle [of 0 2 0 1 "\<lparr>lon = 0, lat = 1 / 2\<rparr>"] by simp

text \<open>
  Removing the last document of a point whose node has at most one child removes that point
  only and keeps tree and map in step.
\<close>

theorem removeDocByID_one_child:
  assumes "bkd_inv self" "one_child e (bkd_root self)"
  shows "bkd_inv (removeDocByID e t self) \<and>
    bkd_docs (removeDocByID e t self) p = (if p = e then bkd_docs self e - {t} else bkd_docs self p)"
proof (cases "map_get (nodeMap self) e")
  case None
  with assms show ?thesis
    by (auto simp: removeDocByID_def bkd_docs_def node_docs_def)
next
  case (Some d)
  have sz: "length (set_delete t d) = 0 \<longleftrightarrow> set d - {t} = {}"
    by (metis length_0_conv set_empty set_set_delete)
  show ?thesis
  proof (cases "set d - {t} = {}")
    case True
    then have "removeDocByID e t self = \<lparr>bkd_root = deleteNode e (bkd_root self), nodeMap = map_del e (nodeMap self)\<rparr>"
      using Some sz by (simp add: removeDocByID_def Let_def)
    then show ?thesis
      using assms Some True deleteNode_one_child [of "bkd_root self" e]
      by (auto simp: bkd_inv_def bkd_docs_def node_docs_def split: if_splits)
  next
    case False
    then have "removeDocByID e t self = self\<lparr>nodeMap := map_set e (set_delete t d) (nodeMap self)\<rparr>"
      using Some sz by (simp add: removeDocByID_def Let_def)
    then show ?thesis
      using assms(1) Some by (auto simp: bkd_inv_def bkd_docs_def node_docs_def split: if_splits)
  qed
qed

theorem removeDocByID_one_child_witness:
  "bkd_docs (removeDocByID \<lparr>lon = 1, lat = 1\<rparr> 7 (bkd_of [(\<lparr>lon = 1, lat = 1\<rparr>, 7::nat), (\<lparr>lon = 2, lat = 2\<rparr>, 8)])) \<lparr>lon = 2, lat = 2\<rparr> = {8}"
proof -
  let ?t = "bkd_of [(\<lparr>lon = 1, lat = 1\<rparr>, 7::nat), (\<lparr>lon = 2, lat = 2\<rparr>, 8)]"
  have "one_child \<lparr>lon = 1, lat = 1\<rparr> (bkd_root ?t)"
    by (simp add: bkd_of_def bkd_insert_def bkd_new_def goes_left_def)
  then show ?thesis
    using removeDocByID_one_child [OF bkd_inv_of, of "\<lparr>lon = 1, lat = 1\<rparr>" "[(\<lparr>lon = 1, lat = 1\<rparr>, 7::nat), (\<lparr>lon = 2, lat = 2\<rparr>, 8)]" 7 "\<lparr>lon = 2, lat = 2\<rparr>"]
    by (simp add: bkd_docs_of)
qed


lemma radian_diff: "radian (a - b) = radian a - radian b"
  by (simp add: radian_def of_rat_diff left_diff_distrib)

lemma haversine_a_range: "0 \<le> haversine_a e t" "haversine_a e t \<le> 1"
proof -
  let ?r = "radian (lat e)" and ?q = "radian (lat t)" and ?i = "radian (lon t - lon e)"
  have s: "radian (lat t - lat e) = ?q - ?r"
    by (rule radian_diff)
  have half: "sin (x / 2) * sin (x / 2) = (1 - cos x) / 2" for x :: real
    using cos_double_sin [of "x / 2"] by (simp add: power2_eq_square)
  have a: "haversine_a e t = (1 - (sin ?q * sin ?r + cos ?q * cos ?r * cos ?i)) / 2"
  proof -
    have "haversine_a e t = (1 - cos (?q - ?r)) / 2 + cos ?r * cos ?q * ((1 - cos ?i) / 2)"
      unfolding haversine_a_def Let_def s half [of "?q - ?r"] using half [of ?i] by (simp add: mult.assoc)
    then show ?thesis
      by (simp add: cos_diff algebra_simps diff_divide_distrib add_divide_distrib)
  qed
  have "\<bar>sin ?q * sin ?r + cos ?q * cos ?r * cos ?i\<bar> \<le> 1"
  proof -
    have "\<bar>cos ?q * cos ?r * cos ?i\<bar> \<le> \<bar>cos ?q\<bar> * \<bar>cos ?r\<bar>"
      by (simp add: abs_mult mult_left_le)
    moreover have "2 * (\<bar>sin ?q\<bar> * \<bar>sin ?r\<bar>) \<le> (sin ?q)\<^sup>2 + (sin ?r)\<^sup>2" "2 * (\<bar>cos ?q\<bar> * \<bar>cos ?r\<bar>) \<le> (cos ?q)\<^sup>2 + (cos ?r)\<^sup>2"
      using sum_squares_bound [of "\<bar>sin ?q\<bar>" "\<bar>sin ?r\<bar>"] sum_squares_bound [of "\<bar>cos ?q\<bar>" "\<bar>cos ?r\<bar>"] by simp_all
    moreover have "(sin ?q)\<^sup>2 + (cos ?q)\<^sup>2 = 1" "(sin ?r)\<^sup>2 + (cos ?r)\<^sup>2 = 1"
      by simp_all
    moreover have "\<bar>sin ?q * sin ?r + cos ?q * cos ?r * cos ?i\<bar> \<le> \<bar>sin ?q\<bar> * \<bar>sin ?r\<bar> + \<bar>cos ?q * cos ?r * cos ?i\<bar>"
      by (metis abs_mult abs_triangle_ineq)
    ultimately show ?thesis
      by linarith
  qed
  then show "0 \<le> haversine_a e t" "haversine_a e t \<le> 1"
    unfolding a by auto
qed

lemma atan2_nonneg_range: "0 \<le> y \<Longrightarrow> 0 \<le> atan2_nonneg y x \<and> atan2_nonneg y x \<le> pi / 2"
  using arctan_ubound [of "y / x"] by (auto simp: atan2_nonneg_def less_imp_le)

text \<open>
  The great-circle distance is symmetric, zero from a point to itself, never negative and at
  most half the circumference of the sphere.
\<close>

theorem haversineDistance_bounds:
  "haversineDistance e t = haversineDistance t e \<and> haversineDistance e e = 0 \<and>
   0 \<le> haversineDistance e t \<and> haversineDistance e t \<le> pi * 6371000"
proof -
  have neg: "radian (a - b) = - radian (b - a)" for a b
    by (simp add: radian_diff)
  have "haversine_a e t = haversine_a t e"
    unfolding haversine_a_def Let_def using neg [of "lat t" "lat e"] neg [of "lon t" "lon e"] by (simp add: mult_ac)
  then have "haversineDistance e t = haversineDistance t e"
    by (simp add: haversineDistance_def)
  moreover have "haversineDistance e e = 0"
    by (simp add: haversineDistance_def haversine_a_def Let_def radian_def atan2_nonneg_def)
  moreover have "0 \<le> haversineDistance e t \<and> haversineDistance e t \<le> pi * 6371000"
    using atan2_nonneg_range [of "sqrt (haversine_a e t)" "sqrt (1 - haversine_a e t)"] haversine_a_range(1) [of e t]
    by (simp add: haversineDistance_def)
  ultimately show ?thesis
    by blast
qed

subsection \<open>The distance on the ellipsoid\<close>

text \<open>
  Vincenty's formula: at most 1000 rounds, after which the code returns NaN, here None. A
  division by a zero \<open>w\<close> is 0/0 in the code (\<open>vincenty_degenerate\<close>), which it replaces by 0.
\<close>

record vincenty_round =
  vr_m :: real
  vr_y :: real
  vr_b :: real
  vr_w :: real
  vr_v :: real
  vr_I :: real

definition atan2_pos :: "real \<Rightarrow> real \<Rightarrow> real" where
  "atan2_pos m y = (if y > 0 then arctan (m / y) else if y < 0 then pi + arctan (m / y) else pi / 2)"

definition flattening :: real where
  "flattening = 1 / 298.257223563"

definition vincenty_m :: "real \<Rightarrow> real \<Rightarrow> real \<Rightarrow> real \<Rightarrow> real \<Rightarrow> real" where
  "vincenty_m f d h p I =
     sqrt (p * sin I * (p * sin I) + (d * h - f * p * cos I) * (d * h - f * p * cos I))"

definition vincenty_step :: "real \<Rightarrow> real \<Rightarrow> real \<Rightarrow> real \<Rightarrow> real \<Rightarrow> real \<Rightarrow> vincenty_round option" where
  "vincenty_step f d h p c I =
     (let m = vincenty_m f d h p I
      in if m = 0 then None
         else
           (let y = f * h + d * p * cos I; b = atan2_pos m y; S = (d * p * sin I) / m; w = 1 - S * S;
                v = (if w = 0 then 0 else y - (2 * f * h) / w);
                r = flattening; n = (r / 16) * w * (4 + r * (4 - 3 * w))
            in Some \<lparr>vr_m = m, vr_y = y, vr_b = b, vr_w = w, vr_v = v,
                 vr_I = c + (1 - n) * r * S * (b + n * m * (v + n * y * (2 * v * v - 1)))\<rparr>))"

datatype vincenty_end = Coincident | Diverged | Converged vincenty_round

fun vincenty_loop :: "nat \<Rightarrow> real \<Rightarrow> real \<Rightarrow> real \<Rightarrow> real \<Rightarrow> real \<Rightarrow> real \<Rightarrow> vincenty_end" where
  "vincenty_loop 0 f d h p c I = Diverged"
| "vincenty_loop (Suc left) f d h p c I =
     (case vincenty_step f d h p c I of
        None \<Rightarrow> Coincident
      | Some s \<Rightarrow> if \<bar>vr_I s - I\<bar> > 1 / 10 ^ 12 then vincenty_loop left f d h p c (vr_I s) else Converged s)"

definition vincentyDistance :: "point \<Rightarrow> point \<Rightarrow> real option" where
  "vincentyDistance e t =
     (let n = 6378137; r = flattening; q = (1 - r) * n;
          c = radian (lon t - lon e);
          l = arctan ((1 - r) * tan (radian (lat e))); u = arctan ((1 - r) * tan (radian (lat t)))
      in case vincenty_loop 1000 (sin l) (cos l) (sin u) (cos u) c c of
           Coincident \<Rightarrow> Some 0
         | Diverged \<Rightarrow> None
         | Converged s \<Rightarrow>
             (let m = vr_m s; y = vr_y s; v = vr_v s;
                  T = (vr_w s * (n * n - q * q)) / (q * q);
                  N = (T / 1024) * (256 + T * (T * (74 - 47 * T) - 128))
              in Some (q * (1 + (T / 16384) * (4096 + T * (T * (320 - 175 * T) - 768))) *
                   (vr_b s - N * m * (v + (N / 4) * (y * (2 * v * v - 1) - (N / 6) * v * (4 * m * m - 3) * (4 * v * v - 3)))))))"

lemma vincentyDistance_same: "vincentyDistance e e = Some 0"
  by (simp add: vincentyDistance_def numeral_eq_Suc vincenty_step_def vincenty_m_def radian_def Let_def)

lemma vincenty_degenerate:
  assumes "f\<^sup>2 + d\<^sup>2 = 1" "h\<^sup>2 + p\<^sup>2 = 1" "m = vincenty_m f d h p I" "m \<noteq> 0" "1 - (d * p * sin I / m) * (d * p * sin I / m) = 0"
  shows "f * h = 0"
proof -
  let ?a = "p * sin I" and ?z = "d * h - f * p * cos I"
  have m2: "m * m = ?a * ?a + ?z * ?z"
    unfolding assms(3) vincenty_m_def by (simp add: sum_squares_ge_zero)
  have "(d * ?a) * (d * ?a) = m * m"
    using assms(4,5) by (simp add: field_simps)
  then have "?a * ?a * (1 - d * d) + ?z * ?z = 0"
    using m2 by (simp add: algebra_simps)
  moreover have "1 - d * d = f * f"
    using assms(1) by (simp add: power2_eq_square)
  ultimately have sum: "(?a * f) * (?a * f) + ?z * ?z = 0"
    by (simp add: algebra_simps)
  then have "?a * f = 0" "?z = 0"
    using sum_squares_eq_zero_iff by blast+
  moreover have "?a \<noteq> 0"
    using \<open>?z = 0\<close> m2 assms(4) by auto
  ultimately show ?thesis
    by simp
qed

text \<open>
  A point at an unknown distance is neither within nor beyond a radius: it stands at a distance on
  the other side of the one asked for.
\<close>

definition known_distance :: "bool \<Rightarrow> real \<Rightarrow> real option \<Rightarrow> real" where
  "known_distance inside t c = (case c of Some c \<Rightarrow> c | None \<Rightarrow> if inside then t + 1 else t)"

definition point_distance :: "bool \<Rightarrow> bool \<Rightarrow> real \<Rightarrow> point \<Rightarrow> point \<Rightarrow> real" where
  "point_distance precise inside t e p =
     (if precise then known_distance inside t (vincentyDistance e p) else haversineDistance e p)"

end
