(* ===== verification/Orama_Vector.thy ===== *)
theory Orama_Vector
  imports Orama_Util Complex_Main
begin

text \<open>
  The vector index of \<^verbatim>\<open>assets/js/search-orama.js\<close> (class \<^verbatim>\<open>be\<close> and
  \<^verbatim>\<open>Se\<close>): vectors by document with their magnitudes, and search by cosine
  similarity. Components are reals; the rounding to 32 bits of \<^verbatim>\<open>Float32Array\<close> is
  outside the model. A read past the end of a vector makes the result NaN, here None.
\<close>

type_synonym vector = "real list"

record vector_index =
  vec_size :: nat
  vec_vectors :: "(nat, real option \<times> vector) jsmap"

definition vec_new :: "nat \<Rightarrow> vector_index" where
  "vec_new e = \<lparr>vec_size = e, vec_vectors = []\<rparr>"

definition dot_loop :: "vector \<Rightarrow> vector \<Rightarrow> nat \<Rightarrow> real option" where
  "dot_loop e l r =
     (if r \<le> length e \<and> r \<le> length l then Some (foldl (\<lambda>u t. u + e ! t * l ! t) 0 [0..<r]) else None)"

definition getMagnitude :: "vector \<Rightarrow> nat \<Rightarrow> real option" where
  "getMagnitude e t = map_option sqrt (dot_loop e e t)"

definition vec_add :: "nat \<Rightarrow> vector \<Rightarrow> vector_index \<Rightarrow> vector_index" where
  "vec_add e t self = self\<lparr>vec_vectors := map_set e (getMagnitude t (vec_size self), t) (vec_vectors self)\<rparr>"

definition vec_remove :: "nat \<Rightarrow> vector_index \<Rightarrow> vector_index" where
  "vec_remove e self = self\<lparr>vec_vectors := map_del e (vec_vectors self)\<rparr>"

text \<open>The similarity of two vectors; a zero magnitude gives 0/0, which no comparison accepts.\<close>

definition similarity :: "nat \<Rightarrow> vector \<Rightarrow> real option \<Rightarrow> real option \<times> vector \<Rightarrow> real option" where
  "similarity r e s a =
     (case (s, fst a, dot_loop e (snd a) r) of
        (Some s, Some c, Some u) \<Rightarrow> if s * c = 0 then None else Some (u / (s * c))
      | _ \<Rightarrow> None)"

definition vec_find :: "vector_index \<Rightarrow> vector \<Rightarrow> real \<Rightarrow> nat list option \<Rightarrow> (nat \<times> real) list" where
  "vec_find self e t n =
     (let s = getMagnitude e (vec_size self);
          a = (case n of None \<Rightarrow> map_keys (vec_vectors self) | Some ds \<Rightarrow> ds)
      in foldl (\<lambda>i d.
           case map_get (vec_vectors self) d of
             None \<Rightarrow> i
           | Some v \<Rightarrow> (case similarity (vec_size self) e s v of None \<Rightarrow> i | Some f \<Rightarrow> if f \<ge> t then i @ [(d, f)] else i))
         [] a)"

definition vec_toJSON :: "vector_index \<Rightarrow> nat \<times> (nat \<times> (real option \<times> vector)) list" where
  "vec_toJSON self = (vec_size self, map (\<lambda>(t, n, r). (t, n, r)) (vec_vectors self))"

definition vec_fromJSON :: "nat \<times> (nat \<times> (real option \<times> vector)) list \<Rightarrow> vector_index" where
  "vec_fromJSON t =
     foldl (\<lambda>n (e, r, v). n\<lparr>vec_vectors := map_set e (r, v) (vec_vectors n)\<rparr>) (vec_new (fst t)) (snd t)"

subsection \<open>Similarity\<close>

lemma foldl_sum: "foldl (\<lambda>u t. u + g t) a xs = a + (\<Sum>t\<leftarrow>xs. g t)" for g :: "nat \<Rightarrow> real"
  by (induction xs arbitrary: a) (auto simp: add.assoc)

lemma dot_loop_sum: "r \<le> length e \<Longrightarrow> r \<le> length l \<Longrightarrow> dot_loop e l r = Some (\<Sum>t<r. e ! t * l ! t)"
  by (simp add: dot_loop_def foldl_sum interv_sum_list_conv_sum_set_nat atLeast0LessThan)

lemma dot_loop_SomeD: "dot_loop e l r = Some u \<Longrightarrow> r \<le> length e \<and> r \<le> length l \<and> u = (\<Sum>t<r. e ! t * l ! t)"
  using dot_loop_sum [of r e l] by (simp add: dot_loop_def split: if_splits)

lemma getMagnitude_SomeD: "getMagnitude e r = Some s \<Longrightarrow> r \<le> length e \<and> s = sqrt (\<Sum>t<r. (e ! t)\<^sup>2)"
  by (auto simp: getMagnitude_def power2_eq_square dest!: dot_loop_SomeD)

lemma Cauchy_Schwarz_sum:
  fixes x y :: "nat \<Rightarrow> real"
  shows "(\<Sum>t<r. x t * y t)\<^sup>2 \<le> (\<Sum>t<r. (x t)\<^sup>2) * (\<Sum>t<r. (y t)\<^sup>2)"
proof -
  let ?A = "\<Sum>t<r. (x t)\<^sup>2" and ?B = "\<Sum>t<r. (y t)\<^sup>2" and ?C = "\<Sum>t<r. x t * y t"
  have "0 \<le> (\<Sum>t<r. (?B * x t - ?C * y t)\<^sup>2)"
    by (simp add: sum_nonneg)
  also have "\<dots> = (\<Sum>t<r. ?B\<^sup>2 * (x t)\<^sup>2 - 2 * ?B * ?C * (x t * y t) + ?C\<^sup>2 * (y t)\<^sup>2)"
    by (rule sum.cong) (simp_all add: power2_eq_square algebra_simps)
  also have "\<dots> = ?B\<^sup>2 * ?A - 2 * ?B * ?C * ?C + ?C\<^sup>2 * ?B"
    by (simp add: sum.distrib sum_subtractf sum_distrib_left)
  also have "\<dots> = ?B * (?A * ?B - ?C\<^sup>2)"
    by (simp add: power2_eq_square algebra_simps)
  finally have "0 \<le> ?B * (?A * ?B - ?C\<^sup>2)" .
  moreover have "0 \<le> ?B"
    by (simp add: sum_nonneg)
  moreover have "?C = 0" if "?B = 0"
  proof -
    have "y t = 0" if "t < r" for t
      using \<open>?B = 0\<close> that by (simp add: sum_nonneg_eq_0_iff)
    then show ?thesis
      by simp
  qed
  ultimately show ?thesis
    by (cases "?B = 0") (auto simp: zero_le_mult_iff)
qed

lemma similarity_range:
  assumes "similarity r e (getMagnitude e r) (getMagnitude v r, v) = Some f"
  shows "- 1 \<le> f \<and> f \<le> 1"
proof -
  obtain s c u where m: "getMagnitude e r = Some s" "getMagnitude v r = Some c" "dot_loop e v r = Some u"
    and nz: "s * c \<noteq> 0" and f: "f = u / (s * c)"
    using assms by (auto simp: similarity_def split: option.splits if_splits)
  note ms = getMagnitude_SomeD [OF m(1)] and mc = getMagnitude_SomeD [OF m(2)] and du = dot_loop_SomeD [OF m(3)]
  have pos: "0 \<le> s" "0 \<le> c"
    using ms mc by (simp_all add: sum_nonneg)
  have sc: "(s * c)\<^sup>2 = (\<Sum>t<r. (e ! t)\<^sup>2) * (\<Sum>t<r. (v ! t)\<^sup>2)"
    using ms mc by (simp add: power_mult_distrib sum_nonneg)
  have "u\<^sup>2 \<le> (s * c)\<^sup>2"
    unfolding sc using du Cauchy_Schwarz_sum [of "\<lambda>t. e ! t" "\<lambda>t. v ! t" r] by simp
  then have "\<bar>u\<bar> \<le> s * c"
    using pos abs_le_square_iff [of u "s * c"] by simp
  moreover have "0 < s * c"
    using nz pos by (simp add: less_le)
  ultimately show ?thesis
    unfolding f by (simp add: divide_le_eq le_divide_eq abs_le_iff)
qed

lemma similarity_self:
  assumes "getMagnitude e r = Some s" "s \<noteq> 0"
  shows "similarity r e (Some s) (Some s, e) = Some 1"
proof -
  have "s * s = (\<Sum>t<r. e ! t * e ! t)"
    using getMagnitude_SomeD [OF assms(1)] by (simp add: sum_nonneg power2_eq_square)
  with assms dot_loop_sum [of r e e] getMagnitude_SomeD [OF assms(1)] show ?thesis
    by (simp add: similarity_def)
qed

definition vec_inv :: "vector_index \<Rightarrow> bool" where
  "vec_inv self =
     (wf_map (vec_vectors self) \<and>
      (\<forall>d c v. map_get (vec_vectors self) d = Some (c, v) \<longrightarrow> c = getMagnitude v (vec_size self)))"

lemma vec_inv_new: "vec_inv (vec_new n)"
  by (simp add: vec_inv_def vec_new_def)

lemma vec_inv_add: "vec_inv self \<Longrightarrow> vec_inv (vec_add d v self)"
  by (auto simp: vec_inv_def vec_add_def)

lemma vec_inv_remove: "vec_inv self \<Longrightarrow> vec_inv (vec_remove d self)"
  by (auto simp: vec_inv_def vec_remove_def)

definition hit :: "vector_index \<Rightarrow> vector \<Rightarrow> real \<Rightarrow> nat \<Rightarrow> (nat \<times> real) list" where
  "hit self e t d =
     (case map_get (vec_vectors self) d of
        None \<Rightarrow> []
      | Some v \<Rightarrow>
          (case similarity (vec_size self) e (getMagnitude e (vec_size self)) v of
             None \<Rightarrow> [] | Some f \<Rightarrow> if f \<ge> t then [(d, f)] else []))"

lemma vec_find_hits:
  "vec_find self e t n = concat (map (hit self e t) (case n of None \<Rightarrow> map_keys (vec_vectors self) | Some ds \<Rightarrow> ds))"
proof -
  have "foldl (\<lambda>i d.
      case map_get (vec_vectors self) d of
        None \<Rightarrow> i
      | Some v \<Rightarrow>
          (case similarity (vec_size self) e (getMagnitude e (vec_size self)) v of
             None \<Rightarrow> i | Some f \<Rightarrow> if f \<ge> t then i @ [(d, f)] else i)) i ds = i @ concat (map (hit self e t) ds)" for i ds
    by (induction ds arbitrary: i) (auto simp: hit_def split: option.splits)
  then show ?thesis
    by (simp add: vec_find_def Let_def)
qed

lemma hit_mem:
  assumes "vec_inv self"
  shows "(d, f) \<in> set (hit self e t d') \<longleftrightarrow> d' = d \<and>
    (\<exists>v. map_get (vec_vectors self) d = Some (getMagnitude v (vec_size self), v) \<and> t \<le> f \<and>
       similarity (vec_size self) e (getMagnitude e (vec_size self)) (getMagnitude v (vec_size self), v) = Some f)"
proof (cases "map_get (vec_vectors self) d'")
  case None
  then show ?thesis
    by (auto simp: hit_def)
next
  case (Some p)
  obtain c v where p: "p = (c, v)"
    by fastforce
  have c: "c = getMagnitude v (vec_size self)"
    using assms Some p unfolding vec_inv_def by blast
  have get: "map_get (vec_vectors self) d' = Some (getMagnitude v (vec_size self), v)"
    using Some p c by simp
  show ?thesis
    unfolding hit_def get
    by (cases "similarity (vec_size self) e (getMagnitude e (vec_size self)) (getMagnitude v (vec_size self), v)")
      (use get in auto)
qed

lemma vec_find_mem:
  assumes "vec_inv self"
  shows "(d, f) \<in> set (vec_find self e t n) \<longleftrightarrow>
    (\<exists>v. map_get (vec_vectors self) d = Some (getMagnitude v (vec_size self), v) \<and> t \<le> f \<and>
       similarity (vec_size self) e (getMagnitude e (vec_size self)) (getMagnitude v (vec_size self), v) = Some f) \<and>
    (case n of None \<Rightarrow> True | Some ds \<Rightarrow> d \<in> set ds)"
proof -
  have "d \<in> set (map_keys (vec_vectors self))" if "map_get (vec_vectors self) d = Some x" for x
    using that by (force simp: map_keys_def dest: map_of_SomeD)
  then show ?thesis
    unfolding vec_find_hits set_concat set_map
    using hit_mem [OF assms, of d f e t] by (cases n) auto
qed

lemma vec_fold_map_set:
  "wf_map (m @ kvs) \<Longrightarrow>
   foldl (\<lambda>n (e, r, v). n\<lparr>vec_vectors := map_set e (r, v) (vec_vectors n)\<rparr>) \<lparr>vec_size = z, vec_vectors = m\<rparr> kvs
   = \<lparr>vec_size = z, vec_vectors = m @ kvs\<rparr>"
proof (induction kvs arbitrary: m)
  case (Cons p kvs)
  obtain k r v where p: "p = (k, r, v)"
    by (metis prod_cases3)
  have "map_get m k = None"
    using Cons.prems p by (auto simp: wf_map_def map_of_eq_None_iff)
  with Cons p show ?case
    by (simp add: map_set_new)
qed simp

lemma vec_json: "vec_inv self \<Longrightarrow> vec_fromJSON (vec_toJSON self) = self"
  using vec_fold_map_set [of "[]" "vec_vectors self" "vec_size self"]
  by (cases self) (simp add: vec_inv_def vec_fromJSON_def vec_toJSON_def vec_new_def)

subsection \<open>Properties\<close>



end
