(* ===== verification/Orama_Tokenizer.thy ===== *)
theory Orama_Tokenizer
  imports Orama_Util "HOL-Library.Code_Target_Nat"
begin

text \<open>
  Turning text into tokens (\<^verbatim>\<open>assets/js/search-orama.js\<close>): the English stemmer
  (\<^verbatim>\<open>lt\<close>), the replacement of diacritics and the cache of normalised tokens
  (\<^verbatim>\<open>ut\<close>), splitting and deduplication (\<^verbatim>\<open>ft\<close>) and the set-up
  (\<^verbatim>\<open>dt\<close>). The regular expressions are matchers that return every possible rest of
  the input. The table of separator classes per language is a parameter, with the English row
  written out; lower case is exact for ASCII, Latin-1, Latin Extended-A, Cyrillic and units
  without case.
\<close>

subsection \<open>Regular expressions\<close>

type_synonym matcher = "jsstring \<Rightarrow> jsstring list"

definition m_class :: "(jschar \<Rightarrow> bool) \<Rightarrow> matcher" where
  "m_class P s = (case s of [] \<Rightarrow> [] | c # cs \<Rightarrow> if P c then [cs] else [])"

fun m_star :: "(jschar \<Rightarrow> bool) \<Rightarrow> matcher" where
  "m_star P [] = [[]]"
| "m_star P (c # cs) = (c # cs) # (if P c then m_star P cs else [])"

definition m_seq :: "matcher \<Rightarrow> matcher \<Rightarrow> matcher" where
  "m_seq a b s = concat (map b (a s))"

definition m_opt :: "matcher \<Rightarrow> matcher" where
  "m_opt a s = a s @ [s]"

definition m_end :: matcher where
  "m_end s = (if s = [] then [[]] else [])"

definition m_test :: "matcher \<Rightarrow> jsstring \<Rightarrow> bool" where
  "m_test m s = (m s \<noteq> [])"

definition in_class :: "string \<Rightarrow> jschar \<Rightarrow> bool" where
  "in_class cs c = (c \<in> set (js cs))"

definition re_v :: matcher where
  "re_v = m_class (in_class ''aeiouy'')"

definition re_C :: matcher where
  "re_C = m_seq (m_class (\<lambda>c. \<not> in_class ''aeiou'' c)) (m_star (\<lambda>c. \<not> in_class ''aeiouy'' c))"

definition re_V :: matcher where
  "re_V = m_seq re_v (m_star (in_class ''aeiou''))"

definition re_mgr0 :: matcher where
  "re_mgr0 = m_seq (m_opt re_C) (m_seq re_V re_C)"

definition re_meq1 :: matcher where
  "re_meq1 = m_seq re_mgr0 (m_seq (m_opt re_V) m_end)"

definition re_mgr1 :: matcher where
  "re_mgr1 = m_seq re_mgr0 (m_seq re_V re_C)"

definition re_s_v :: matcher where
  "re_s_v = m_seq (m_opt re_C) re_v"

definition re_cvc :: matcher where
  "re_cvc = m_seq re_C (m_seq re_v (m_seq (m_class (\<lambda>c. \<not> in_class ''aeiouwxy'' c)) m_end))"

text \<open>
  \<^verbatim>\<open>/^(.+?)(alternatives)$/\<close>: the shortest non-empty stem whose rest is one of the
  alternatives; the stem has no line terminator.
\<close>

definition not_newline :: "jschar \<Rightarrow> bool" where
  "not_newline c = (c \<notin> {10, 13, 0x2028, 0x2029})"

definition suffix_split :: "jsstring list \<Rightarrow> jsstring \<Rightarrow> (jsstring \<times> jsstring) option" where
  "suffix_split alts e =
     map_option (\<lambda>i. (take i e, drop i e))
       (find (\<lambda>i. drop i e \<in> set alts \<and> list_all not_newline (take i e)) [1..<length e + 1])"

definition ends_with :: "jsstring \<Rightarrow> string \<Rightarrow> bool" where
  "ends_with e s = (drop (length e - length s) e = js s)"

definition drop_last :: "jsstring \<Rightarrow> jsstring" where
  "drop_last e = (if e \<noteq> [] \<and> not_newline (last e) then butlast e else e)"

subsection \<open>The stemmer\<close>

definition step2_suffixes :: "(jsstring \<times> jsstring) list" where
  "step2_suffixes = map (map_prod js js)
     [(''ational'', ''ate''), (''tional'', ''tion''), (''enci'', ''ence''), (''anci'', ''ance''), (''izer'', ''ize''),
      (''bli'', ''ble''), (''alli'', ''al''), (''entli'', ''ent''), (''eli'', ''e''), (''ousli'', ''ous''),
      (''ization'', ''ize''), (''ation'', ''ate''), (''ator'', ''ate''), (''alism'', ''al''), (''iveness'', ''ive''),
      (''fulness'', ''ful''), (''ousness'', ''ous''), (''aliti'', ''al''), (''iviti'', ''ive''), (''biliti'', ''ble''),
      (''logi'', ''log'')]"

definition step3_suffixes :: "(jsstring \<times> jsstring) list" where
  "step3_suffixes = map (map_prod js js)
     [(''icate'', ''ic''), (''ative'', ''''), (''alize'', ''al''), (''iciti'', ''ic''), (''ical'', ''ic''), (''ful'', ''''), (''ness'', '''')]"

definition step4_suffixes :: "jsstring list" where
  "step4_suffixes = map js
     [''al'', ''ance'', ''ence'', ''er'', ''ic'', ''able'', ''ible'', ''ant'', ''ement'', ''ment'', ''ent'', ''ou'', ''ism'',
      ''ate'', ''iti'', ''ous'', ''ive'', ''ize'']"

definition step1a :: "jsstring \<Rightarrow> jsstring" where
  "step1a e =
     (case suffix_split [js ''sses'', js ''ies''] e of
        Some p \<Rightarrow> take (length e - 2) e
      | None \<Rightarrow>
          if 3 \<le> length e \<and> last e = 115 \<and> e ! (length e - 2) \<noteq> 115 \<and> list_all not_newline (take (length e - 2) e)
          then butlast e else e)"

definition double_consonant :: "jsstring \<Rightarrow> bool" where
  "double_consonant e =
     (2 \<le> length e \<and> last e = e ! (length e - 2) \<and> \<not> in_class ''aeiouylsz'' (last e))"

definition step1b :: "jsstring \<Rightarrow> jsstring" where
  "step1b e =
     (case suffix_split [js ''eed''] e of
        Some (t, n) \<Rightarrow> if m_test re_mgr0 t then drop_last e else e
      | None \<Rightarrow>
          (case suffix_split [js ''ed'', js ''ing''] e of
             None \<Rightarrow> e
           | Some (t, n) \<Rightarrow>
               if m_test re_s_v t then
                 (if ends_with t ''at'' \<or> ends_with t ''bl'' \<or> ends_with t ''iz'' then t @ js ''e''
                  else if double_consonant t then drop_last t
                  else if m_test re_cvc t then t @ js ''e''
                  else t)
               else e))"

definition step1c :: "jsstring \<Rightarrow> jsstring" where
  "step1c e =
     (case suffix_split [js ''y''] e of
        None \<Rightarrow> e
      | Some (t, n) \<Rightarrow> if m_test re_s_v t then t @ js ''i'' else e)"

definition step_table :: "(jsstring \<times> jsstring) list \<Rightarrow> jsstring \<Rightarrow> jsstring" where
  "step_table tab e =
     (case suffix_split (map fst tab) e of
        None \<Rightarrow> e
      | Some (t, n) \<Rightarrow>
          if m_test re_mgr0 t then t @ (case map_get tab n of None \<Rightarrow> [] | Some r \<Rightarrow> r) else e)"

text \<open>In the second branch the code keeps the first group only, without the s or t before \<^verbatim>\<open>ion\<close>.\<close>

definition step4 :: "jsstring \<Rightarrow> jsstring" where
  "step4 e =
     (case suffix_split step4_suffixes e of
        Some (t, n) \<Rightarrow> if m_test re_mgr1 t then t else e
      | None \<Rightarrow>
          (case suffix_split [js ''sion'', js ''tion''] e of
             None \<Rightarrow> e
           | Some (t, n) \<Rightarrow> if m_test re_mgr1 t then t else e))"

definition step5 :: "jsstring \<Rightarrow> jsstring" where
  "step5 e =
     (case suffix_split [js ''e''] e of
        None \<Rightarrow> e
      | Some (t, n) \<Rightarrow>
          if m_test re_mgr1 t \<or> (m_test re_meq1 t \<and> \<not> m_test re_cvc t) then t else e)"

definition step_ll :: "jsstring \<Rightarrow> jsstring" where
  "step_ll e = (if ends_with e ''ll'' \<and> m_test re_mgr1 e then drop_last e else e)"

definition stemmer :: "jsstring \<Rightarrow> jsstring" where
  "stemmer e =
     (if length e < 3 then e
      else
        (let y = (hd e = 121);
             e = (if y then 89 # tl e else e);
             e = step_ll (step5 (step4 (step_table step3_suffixes (step_table step2_suffixes (step1c (step1b (step1a e)))))))
         in if y then 121 # drop 1 e else e))"

subsection \<open>Normalisation\<close>

text \<open>The replacement of the units from 192 to 383; 0 stands for the entries without one.\<close>

definition diacritics :: "nat list" where
  "diacritics =
     [65, 65, 65, 65, 65, 65, 65, 67, 69, 69, 69, 69, 73, 73, 73, 73, 69, 78, 79, 79, 79, 79, 79, 0, 79,
      85, 85, 85, 85, 89, 80, 115, 97, 97, 97, 97, 97, 97, 97, 99, 101, 101, 101, 101, 105, 105, 105, 105,
      101, 110, 111, 111, 111, 111, 111, 0, 111, 117, 117, 117, 117, 121, 112, 121, 65, 97, 65, 97, 65,
      97, 67, 99, 67, 99, 67, 99, 67, 99, 68, 100, 68, 100, 69, 101, 69, 101, 69, 101, 69, 101, 69, 101,
      71, 103, 71, 103, 71, 103, 71, 103, 72, 104, 72, 104, 73, 105, 73, 105, 73, 105, 73, 105, 73, 105,
      73, 105, 74, 106, 75, 107, 107, 76, 108, 76, 108, 76, 108, 76, 108, 76, 108, 78, 110, 78, 110, 78,
      110, 110, 78, 110, 79, 111, 79, 111, 79, 111, 79, 111, 82, 114, 82, 114, 82, 114, 83, 115, 83, 115,
      83, 115, 83, 115, 84, 116, 84, 116, 84, 116, 85, 117, 85, 117, 85, 117, 85, 117, 85, 117, 85, 117,
      87, 119, 89, 121, 89, 90, 122, 90, 122, 90, 122, 115]"

definition replaceDiacritics :: "jsstring \<Rightarrow> jsstring" where
  "replaceDiacritics e =
     map (\<lambda>n. if n < 192 \<or> n > 383 then n
              else (let c = diacritics ! (n - 192) in if c \<noteq> 0 then c else n)) e"

definition js_lower_char :: "jschar \<Rightarrow> jsstring" where
  "js_lower_char c =
     (if 65 \<le> c \<and> c \<le> 90 then [c + 32]
      else if 0xC0 \<le> c \<and> c \<le> 0xDE \<and> c \<noteq> 0xD7 then [c + 32]
      else if 0x100 \<le> c \<and> c \<le> 0x12F \<and> even c then [c + 1]
      else if c = 0x130 then [0x69, 0x307]
      else if 0x132 \<le> c \<and> c \<le> 0x137 \<and> even c then [c + 1]
      else if 0x139 \<le> c \<and> c \<le> 0x148 \<and> odd c then [c + 1]
      else if 0x14A \<le> c \<and> c \<le> 0x177 \<and> even c then [c + 1]
      else if c = 0x178 then [0xFF]
      else if 0x179 \<le> c \<and> c \<le> 0x17E \<and> odd c then [c + 1]
      else if 0x400 \<le> c \<and> c \<le> 0x40F then [c + 80]
      else if 0x410 \<le> c \<and> c \<le> 0x42F then [c + 32]
      else if c = 0x212A then [0x6B]
      else [c])"

definition js_lower :: "jsstring \<Rightarrow> jsstring" where
  "js_lower s = concat (map js_lower_char s)"

definition english_sep :: "jschar \<Rightarrow> bool" where
  "english_sep c =
     (\<not> (65 \<le> c \<and> c \<le> 90 \<or> 97 \<le> c \<and> c \<le> 122 \<or> 48 \<le> c \<and> c \<le> 57 \<or>
         c \<in> {95, 39, 45, 0xE0, 0xE8, 0xE9, 0xEC, 0xF2, 0xF3, 0xF9}))"

record tokenizer =
  language :: jsstring
  tk_stemmer :: "(jsstring \<Rightarrow> jsstring) option"
  stemmerSkipProperties :: "jsstring list"
  tokenizeSkipProperties :: "jsstring list"
  stopWords :: "jsstring list option"
  allowDuplicates :: bool
  normalizationCache :: "(jsstring, jsstring) jsmap"

definition cache_key :: "tokenizer \<Rightarrow> jsstring \<Rightarrow> jsstring \<Rightarrow> jsstring" where
  "cache_key self e t = language self @ [58] @ e @ [58] @ t"

definition normalize_fresh :: "tokenizer \<Rightarrow> jsstring \<Rightarrow> jsstring \<Rightarrow> jsstring" where
  "normalize_fresh self e t =
     (if (case stopWords self of None \<Rightarrow> False | Some ws \<Rightarrow> t \<in> set ws) then []
      else replaceDiacritics
        (case tk_stemmer self of None \<Rightarrow> t | Some f \<Rightarrow> if e \<in> set (stemmerSkipProperties self) then t else f t))"

definition normalizeToken :: "tokenizer \<Rightarrow> jsstring \<Rightarrow> jsstring \<Rightarrow> bool \<Rightarrow> tokenizer \<times> jsstring" where
  "normalizeToken self e t n =
     (let r = cache_key self e t
      in case (if n then map_get (normalizationCache self) r else None) of
           Some v \<Rightarrow> (self, v)
         | None \<Rightarrow>
             (let v = normalize_fresh self e t
              in (if n then self\<lparr>normalizationCache := map_set r v (normalizationCache self)\<rparr> else self, v)))"

fun normalize_all :: "tokenizer \<Rightarrow> jsstring \<Rightarrow> jsstring list \<Rightarrow> bool \<Rightarrow> tokenizer \<times> jsstring list" where
  "normalize_all self e [] n = (self, [])"
| "normalize_all self e (t # ts) n =
     (let (self, v) = normalizeToken self e t n; (self, vs) = normalize_all self e ts n in (self, v # vs))"

definition trim_empty :: "jsstring list \<Rightarrow> jsstring list" where
  "trim_empty e = dropWhile (\<lambda>t. t = []) (rev (dropWhile (\<lambda>t. t = []) (rev e)))"

definition tokenize ::
    "(jsstring \<Rightarrow> jschar \<Rightarrow> bool) \<Rightarrow> tokenizer \<Rightarrow> jsstring \<Rightarrow> jsstring option \<Rightarrow> jsstring option \<Rightarrow> bool \<Rightarrow> (tokenizer \<times> jsstring list) jsresult" where
  "tokenize seps self e t n cache =
     (if (case t of None \<Rightarrow> False | Some l \<Rightarrow> l \<noteq> [] \<and> l \<noteq> language self)
      then Inl (JsError (js ''LANGUAGE_NOT_SUPPORTED''))
      else
        (let prop = (case n of None \<Rightarrow> [] | Some p \<Rightarrow> p);
             (self', i) =
               (if prop \<noteq> [] \<and> prop \<in> set (tokenizeSkipProperties self)
                then (let (s, v) = normalizeToken self prop e cache in (s, [v]))
                else (let (s, vs) = normalize_all self prop (js_split_runs (seps (language self)) [] (js_lower e)) cache
                      in (s, filter (\<lambda>v. v \<noteq> []) vs)));
             a = trim_empty i
         in Inr (self', if allowDuplicates self then a else set_new a)))"

datatype stemmer_option = StemmerFunction "jsstring \<Rightarrow> jsstring" | StemmerValue jsval

datatype stop_option = StopFunction "jsval list \<Rightarrow> jsval" | StopValue jsval

record tokenizer_config =
  cf_language :: "jsstring option"
  cf_stemming :: "bool option"
  cf_stemmer :: stemmer_option
  cf_stemmerSkip :: "jsstring list"
  cf_tokenizeSkip :: "jsstring list"
  cf_stopWords :: stop_option
  cf_allowDuplicates :: bool

definition stemmer_given :: "stemmer_option \<Rightarrow> bool" where
  "stemmer_given s = (case s of StemmerFunction f \<Rightarrow> True | StemmerValue v \<Rightarrow> js_truthy v)"

definition config_stemmer :: "tokenizer_config \<Rightarrow> jsstring \<Rightarrow> (jsstring \<Rightarrow> jsstring) option jsresult" where
  "config_stemmer e lang =
     (if cf_stemming e = Some True \<or> stemmer_given (cf_stemmer e) \<and> cf_stemming e = None then
        (if stemmer_given (cf_stemmer e) then
           (case cf_stemmer e of
              StemmerFunction f \<Rightarrow> Inr (Some f)
            | StemmerValue v \<Rightarrow> Inl (JsError (js ''INVALID_STEMMER_FUNCTION_TYPE'')))
         else if lang \<noteq> js ''english'' then Inl (JsError (js ''MISSING_STEMMER''))
         else Inr (Some stemmer))
      else Inr None)"

fun stop_strings :: "jsval list \<Rightarrow> jsstring list jsresult" where
  "stop_strings [] = Inr []"
| "stop_strings (v # vs) =
     (case v of
        JStr s \<Rightarrow> lift_err (stop_strings vs) (\<lambda>ws. Inr (s # ws))
      | _ \<Rightarrow> Inl (JsError (js ''CUSTOM_STOP_WORDS_MUST_BE_FUNCTION_OR_ARRAY'')))"

definition config_stopWords :: "stop_option \<Rightarrow> jsstring list option jsresult" where
  "config_stopWords o1 =
     (let bad = Inl (JsError (js ''CUSTOM_STOP_WORDS_MUST_BE_FUNCTION_OR_ARRAY''));
          checked = (\<lambda>v. case v of JArr xs \<Rightarrow> lift_err (stop_strings xs) (\<lambda>ws. Inr (Some ws)) | _ \<Rightarrow> bad)
      in case o1 of
           StopFunction f \<Rightarrow> checked (f [])
         | StopValue v \<Rightarrow>
             if v = JBool False then Inr None
             else if is_array v then checked v
             else if js_truthy v then bad
             else Inr (Some []))"

definition createTokenizer :: "jsstring list \<Rightarrow> tokenizer_config \<Rightarrow> tokenizer jsresult" where
  "createTokenizer languages e =
     (let given = (case cf_language e of None \<Rightarrow> [] | Some l \<Rightarrow> l);
          lang = (if given = [] then js ''english'' else given)
      in if given \<noteq> [] \<and> given \<notin> set languages then Inl (JsError (js ''LANGUAGE_NOT_SUPPORTED''))
         else
           lift_err (config_stemmer e lang) (\<lambda>t.
           lift_err (config_stopWords (cf_stopWords e)) (\<lambda>n. Inr
             \<lparr>language = lang, tk_stemmer = t,
              stemmerSkipProperties = set_new (cf_stemmerSkip e),
              tokenizeSkipProperties = set_new (cf_tokenizeSkip e),
              stopWords = n, allowDuplicates = cf_allowDuplicates e, normalizationCache = []\<rparr>)))"

definition default_config :: tokenizer_config where
  "default_config =
     \<lparr>cf_language = None, cf_stemming = None, cf_stemmer = StemmerValue JUndef, cf_stemmerSkip = [],
      cf_tokenizeSkip = [], cf_stopWords = StopValue JUndef, cf_allowDuplicates = False\<rparr>"

definition default_tokenizer :: tokenizer where
  "default_tokenizer =
     \<lparr>language = js ''english'', tk_stemmer = None, stemmerSkipProperties = [], tokenizeSkipProperties = [],
      stopWords = Some [], allowDuplicates = False, normalizationCache = []\<rparr>"

lemma createTokenizer_default: "createTokenizer languages default_config = Inr default_tokenizer"
  by (simp add: createTokenizer_def default_config_def default_tokenizer_def config_stemmer_def config_stopWords_def
      stemmer_given_def js_truthy_def is_array_def set_new_def)

subsection \<open>Bounds of the stemmer\<close>

lemma suffix_split_Some:
  "suffix_split alts e = Some (t, n) \<Longrightarrow> e = t @ n \<and> n \<in> set alts \<and> t \<noteq> []"
  by (auto simp: suffix_split_def find_Some_iff simp del: upt_Suc)

lemma length_js [simp]: "length (js s) = length s"
  by (simp add: js_def)

lemma js_eq_Nil [simp]: "js s = [] \<longleftrightarrow> s = []"
  by (simp add: js_def)

lemma length_drop_last: "length (drop_last e) \<le> length e"
  by (simp add: drop_last_def)

lemma length_step1a: "length (step1a e) \<le> length e"
  by (auto simp: step1a_def split: option.splits)

lemma length_step1b: "length (step1b e) \<le> length e"
proof (cases "suffix_split [js ''eed''] e")
  case None
  have "length (step1b e) \<le> length e" if s: "suffix_split [js ''ed'', js ''ing''] e = Some (t, n)" for t n
  proof -
    have "length t + 2 \<le> length e"
      using suffix_split_Some [OF s] by auto
    then show ?thesis
      using None s length_drop_last [of t] by (simp add: step1b_def)
  qed
  with None show ?thesis
    by (cases "suffix_split [js ''ed'', js ''ing''] e") (auto simp: step1b_def)
next
  case (Some p)
  then show ?thesis
    using length_drop_last by (cases p) (simp add: step1b_def)
qed

lemma length_step1c: "length (step1c e) \<le> length e"
  by (auto simp: step1c_def split: option.splits dest!: suffix_split_Some)

lemma length_step_table:
  assumes "\<And>n r. map_get tab n = Some r \<Longrightarrow> length r \<le> length n"
  shows "length (step_table tab e) \<le> length e"
  using assms
  by (fastforce simp: step_table_def split: option.splits dest!: suffix_split_Some)

lemma step2_shorter: "map_get step2_suffixes n = Some r \<Longrightarrow> length r \<le> length n"
  by (drule map_of_SomeD) (auto simp: step2_suffixes_def)

lemma step3_shorter: "map_get step3_suffixes n = Some r \<Longrightarrow> length r \<le> length n"
  by (drule map_of_SomeD) (auto simp: step3_suffixes_def)

lemma length_step4: "length (step4 e) \<le> length e"
  by (auto simp: step4_def split: option.splits dest!: suffix_split_Some)

lemma length_step5: "length (step5 e) \<le> length e"
  by (auto simp: step5_def split: option.splits dest!: suffix_split_Some)

lemma length_step_ll: "length (step_ll e) \<le> length e"
  using length_drop_last by (simp add: step_ll_def)

lemmas stem_lengths =
  length_step1a length_step1b length_step1c length_step_table [OF step2_shorter] length_step_table [OF step3_shorter]
  length_step4 length_step5 length_step_ll

lemma length_steps:
  "length (step_ll (step5 (step4 (step_table step3_suffixes (step_table step2_suffixes (step1c (step1b (step1a e)))))))) \<le> length e"
  by (meson stem_lengths order_trans)


lemma stemmer_length: "length (stemmer e) \<le> length e"
proof (cases "length e < 3")
  case False
  have "length (if hd e = 121 then 89 # tl e else e) = length e"
    using False by (cases e) auto
  then show ?thesis
    using False length_steps [of "89 # tl e"] length_steps [of e]
    by (simp add: stemmer_def Let_def) linarith
qed (simp add: stemmer_def)

subsection \<open>Lower case and diacritics\<close>

lemma lower_fixed:
  "97 \<le> d \<Longrightarrow> d \<le> 122 \<Longrightarrow> js_lower_char d = [d]"
  "0xE0 \<le> d \<Longrightarrow> d \<le> 0xFF \<Longrightarrow> js_lower_char d = [d]"
  "0x101 \<le> d \<Longrightarrow> d \<le> 0x138 \<Longrightarrow> odd d \<Longrightarrow> js_lower_char d = [d]"
  "0x13A \<le> d \<Longrightarrow> d \<le> 0x149 \<Longrightarrow> even d \<Longrightarrow> js_lower_char d = [d]"
  "0x14B \<le> d \<Longrightarrow> d \<le> 0x178 \<Longrightarrow> odd d \<Longrightarrow> js_lower_char d = [d]"
  "0x17A \<le> d \<Longrightarrow> d \<le> 0x17F \<Longrightarrow> even d \<Longrightarrow> js_lower_char d = [d]"
  "0x430 \<le> d \<Longrightarrow> d \<le> 0x45F \<Longrightarrow> js_lower_char d = [d]"
  "js_lower_char 0x307 = [0x307]"
  by (auto simp: js_lower_char_def)

lemma js_lower_char_cases:
  "js_lower_char c = [c] \<or>
   (\<exists>d. js_lower_char c = [d] \<and>
      (97 \<le> d \<and> d \<le> 122 \<or> 0xE0 \<le> d \<and> d \<le> 0xFF \<or> 0x101 \<le> d \<and> d \<le> 0x138 \<and> odd d \<or>
       0x13A \<le> d \<and> d \<le> 0x149 \<and> even d \<or> 0x14B \<le> d \<and> d \<le> 0x178 \<and> odd d \<or>
       0x17A \<le> d \<and> d \<le> 0x17F \<and> even d \<or> 0x430 \<le> d \<and> d \<le> 0x45F)) \<or>
   js_lower_char c = [0x69, 0x307]"
  unfolding js_lower_char_def by (simp split: if_split)

lemma js_lower_char_lower: "d \<in> set (js_lower_char c) \<Longrightarrow> js_lower_char d = [d]"
  using js_lower_char_cases [of c] lower_fixed(1) [of "0x69"] by (auto intro: lower_fixed)

lemma js_lower_idem: "js_lower (js_lower s) = js_lower s"
proof -
  have "concat (map js_lower_char (js_lower_char c)) = js_lower_char c" for c
  proof -
    have "map js_lower_char (js_lower_char c) = map (\<lambda>d. [d]) (js_lower_char c)"
      by (simp add: js_lower_char_lower)
    then have "concat (map js_lower_char (js_lower_char c)) = concat (map (\<lambda>d. [d]) (js_lower_char c))"
      by (simp only:)
    then show ?thesis
      by simp
  qed
  then show ?thesis
    by (induction s) (auto simp: js_lower_def)
qed

lemma js_lower_no_capital:
  assumes "d \<in> set (js_lower s)"
  shows "\<not> (65 \<le> d \<and> d \<le> 90)"
proof
  assume "65 \<le> d \<and> d \<le> 90"
  then have "js_lower_char d = [d + 32]"
    by (simp add: js_lower_char_def)
  moreover have "js_lower_char d = [d]"
    using assms js_lower_char_lower by (auto simp: js_lower_def)
  ultimately show False
    by simp
qed

definition plain_char :: "jschar \<Rightarrow> bool" where
  "plain_char c = (97 \<le> c \<and> c \<le> 122 \<or> 48 \<le> c \<and> c \<le> 57 \<or> c \<in> {95, 39, 45})"

lemma diacritics_length: "length diacritics = 192"
  by (simp add: diacritics_def)

lemma english_accents:
  "diacritics ! 32 = 97" "diacritics ! 40 = 101" "diacritics ! 41 = 101" "diacritics ! 44 = 105"
  "diacritics ! 50 = 111" "diacritics ! 51 = 111" "diacritics ! 57 = 117"
  by (simp_all add: diacritics_def)

lemma plain_char_accent:
  assumes "\<not> english_sep c" "\<not> (65 \<le> c \<and> c \<le> 90)"
  shows "plain_char (if c < 192 \<or> c > 383 then c else (let d = diacritics ! (c - 192) in if d \<noteq> 0 then d else c))"
proof -
  consider "plain_char c" | "c \<in> {0xE0, 0xE8, 0xE9, 0xEC, 0xF2, 0xF3, 0xF9}"
    using assms by (auto simp: english_sep_def plain_char_def)
  then show ?thesis
  proof cases
    case 1
    then have "c < 192"
      by (auto simp: plain_char_def)
    with 1 show ?thesis
      by simp
  next
    case 2
    then show ?thesis
      by (auto simp: english_accents plain_char_def)
  qed
qed

lemma replaceDiacritics_plain:
  assumes "\<And>c. c \<in> set w \<Longrightarrow> \<not> english_sep c \<and> \<not> (65 \<le> c \<and> c \<le> 90)" "d \<in> set (replaceDiacritics w)"
  shows "plain_char d"
proof -
  obtain c where c: "c \<in> set w" and d: "d = (if c < 192 \<or> c > 383 then c else (let d = diacritics ! (c - 192) in if d \<noteq> 0 then d else c))"
    using assms(2) unfolding replaceDiacritics_def set_map image_iff by blast
  show ?thesis
    unfolding d using assms(1) [OF c] by (intro plain_char_accent) simp_all
qed

subsection \<open>The cache\<close>

definition cache_ok :: "tokenizer \<Rightarrow> bool" where
  "cache_ok self =
     (\<forall>e t v. 58 \<notin> set e \<longrightarrow> map_get (normalizationCache self) (cache_key self e t) = Some v \<longrightarrow> v = normalize_fresh self e t)"

lemma cache_key_inj:
  assumes "58 \<notin> set e" "58 \<notin> set e'" "cache_key self e t = cache_key self e' t'"
  shows "e = e' \<and> t = t'"
proof -
  have split: "takeWhile (\<lambda>c. c \<noteq> 58) (x @ 58 # y) = x" if "58 \<notin> set x" for x y :: jsstring
    using that by (induction x) auto
  have eq: "e @ 58 # t = e' @ 58 # t'"
    using assms(3) unfolding cache_key_def by simp
  have same: "e = e'"
    by (rule trans [OF split [OF assms(1), of t, symmetric]]) (simp only: eq split [OF assms(2)])
  have "58 # t = 58 # t'"
    using eq unfolding same by (simp only: append_eq_append_conv simp_thms)
  with same show ?thesis
    by (simp only: list.inject simp_thms)
qed

definition same_settings :: "tokenizer \<Rightarrow> tokenizer \<Rightarrow> bool" where
  "same_settings a b = (b = a\<lparr>normalizationCache := normalizationCache b\<rparr>)"

lemma same_settings_iff: "same_settings a b \<longleftrightarrow> (\<exists>c. b = a\<lparr>normalizationCache := c\<rparr>)"
proof
  assume "\<exists>c. b = a\<lparr>normalizationCache := c\<rparr>"
  then obtain c where b: "b = a\<lparr>normalizationCache := c\<rparr>" ..
  show "same_settings a b"
    unfolding same_settings_def b by simp
next
  assume "same_settings a b"
  then show "\<exists>c. b = a\<lparr>normalizationCache := c\<rparr>"
    unfolding same_settings_def by (rule exI)
qed

lemma same_settings_refl [simp]: "same_settings a a"
  unfolding same_settings_def by simp

lemma same_settings_trans: "same_settings a b \<Longrightarrow> same_settings b c \<Longrightarrow> same_settings a c"
  unfolding same_settings_iff by auto

lemma same_settings_fields:
  assumes "same_settings a b"
  shows "normalize_fresh b e t = normalize_fresh a e t" "cache_key b e t = cache_key a e t"
    "language b = language a" "tokenizeSkipProperties b = tokenizeSkipProperties a"
    "allowDuplicates b = allowDuplicates a"
proof -
  obtain c where b: "b = a\<lparr>normalizationCache := c\<rparr>"
    using assms unfolding same_settings_iff by blast
  show "normalize_fresh b e t = normalize_fresh a e t" "cache_key b e t = cache_key a e t"
    "language b = language a" "tokenizeSkipProperties b = tokenizeSkipProperties a"
    "allowDuplicates b = allowDuplicates a"
    unfolding b by (simp_all add: normalize_fresh_def cache_key_def cong: option.case_cong)
qed

lemma normalizeToken_cached:
  assumes "cache_ok self" "58 \<notin> set e" "normalizeToken self e t n = (self', v)"
  shows "cache_ok self' \<and> v = normalize_fresh self e t \<and> same_settings self self'"
proof (cases "if n then map_get (normalizationCache self) (cache_key self e t) else None")
  case None
  let ?c = "self\<lparr>normalizationCache := map_set (cache_key self e t) (normalize_fresh self e t) (normalizationCache self)\<rparr>"
  have same: "same_settings self ?c"
    unfolding same_settings_iff by (rule exI) (rule refl)
  have "cache_ok ?c"
    unfolding cache_ok_def same_settings_fields(1,2) [OF same]
  proof (intro allI impI)
    fix e' t' u
    assume e': "58 \<notin> set e'" and u: "map_get (normalizationCache ?c) (cache_key self e' t') = Some u"
    show "u = normalize_fresh self e' t'"
    proof (cases "cache_key self e' t' = cache_key self e t")
      case True
      with cache_key_inj [OF e' assms(2) True] u show ?thesis
        by simp
    next
      case False
      with u assms(1) e' show ?thesis
        by (simp add: cache_ok_def)
    qed
  qed
  with None assms same show ?thesis
    by (auto simp: normalizeToken_def Let_def split: if_splits)
next
  case (Some u)
  then have "u = normalize_fresh self e t"
    using assms by (auto simp: cache_ok_def split: if_splits)
  with Some assms show ?thesis
    by (auto simp: normalizeToken_def Let_def split: if_splits)
qed

lemma normalize_all_cached:
  "cache_ok self \<Longrightarrow> 58 \<notin> set e \<Longrightarrow> normalize_all self e ts n = (self', vs) \<Longrightarrow>
   cache_ok self' \<and> vs = map (normalize_fresh self e) ts \<and> same_settings self self'"
proof (induction ts arbitrary: self self' vs)
  case (Cons t ts)
  obtain s1 v where 1: "normalizeToken self e t n = (s1, v)"
    by fastforce
  obtain s2 ws where 2: "normalize_all s1 e ts n = (s2, ws)"
    by fastforce
  have c: "cache_ok s1" "v = normalize_fresh self e t" "same_settings self s1"
    using normalizeToken_cached [OF Cons.prems(1,2) 1] by auto
  have f: "normalize_fresh s1 e = normalize_fresh self e"
    by (rule ext) (rule same_settings_fields(1) [OF c(3)])
  have i: "cache_ok s2" "ws = map (normalize_fresh self e) ts" "same_settings s1 s2"
    using Cons.IH [OF c(1) Cons.prems(2) 2] unfolding f by auto
  have "self' = s2" "vs = v # ws"
    using Cons.prems(3) 1 2 by auto
  with c(2) i(1,2) same_settings_trans [OF c(3) i(3)] show ?case
    by simp
qed auto

lemma trim_empty_filter: "trim_empty (filter (\<lambda>v. v \<noteq> []) vs) = filter (\<lambda>v. v \<noteq> []) vs"
proof -
  have keep: "dropWhile (\<lambda>t. t = []) us = us" if "\<forall>u \<in> set us. u \<noteq> []" for us :: "jsstring list"
    using that by (cases us) auto
  have "dropWhile (\<lambda>t. t = []) (rev (filter (\<lambda>v. v \<noteq> []) vs)) = rev (filter (\<lambda>v. v \<noteq> []) vs)"
    by (rule keep) auto
  moreover have "dropWhile (\<lambda>t. t = []) (filter (\<lambda>v. v \<noteq> []) vs) = filter (\<lambda>v. v \<noteq> []) vs"
    by (rule keep) auto
  ultimately show ?thesis
    unfolding trim_empty_def by (simp only: rev_rev_ident)
qed

text \<open>The tokens of a text, without any cache.\<close>

definition fresh_tokens :: "(jsstring \<Rightarrow> jschar \<Rightarrow> bool) \<Rightarrow> tokenizer \<Rightarrow> jsstring \<Rightarrow> jsstring \<Rightarrow> jsstring list" where
  "fresh_tokens seps self prop e =
     (let a = filter (\<lambda>v. v \<noteq> [])
           (if prop \<noteq> [] \<and> prop \<in> set (tokenizeSkipProperties self) then [normalize_fresh self prop e]
            else map (normalize_fresh self prop) (js_split_runs (seps (language self)) [] (js_lower e)))
      in if allowDuplicates self then a else set_new a)"

lemma trim_empty_single: "trim_empty [v] = filter (\<lambda>v. v \<noteq> []) [v]"
  by (simp add: trim_empty_def)

lemma tokenize_fresh:
  assumes "cache_ok self" "58 \<notin> set (case n of None \<Rightarrow> [] | Some p \<Rightarrow> p)"
    and "t = None \<or> t = Some [] \<or> t = Some (language self)"
  shows "\<exists>self'. tokenize seps self e t n c = Inr (self', fresh_tokens seps self (case n of None \<Rightarrow> [] | Some p \<Rightarrow> p) e) \<and>
     cache_ok self' \<and> same_settings self self'"
proof -
  let ?p = "case n of None \<Rightarrow> [] | Some p \<Rightarrow> p"
  let ?ws = "js_split_runs (seps (language self)) [] (js_lower e)"
  obtain s1 v where 1: "normalizeToken self ?p e c = (s1, v)"
    by fastforce
  obtain s2 vs where 2: "normalize_all self ?p ?ws c = (s2, vs)"
    by fastforce
  note n1 = normalizeToken_cached [OF assms(1,2) 1]
  note n2 = normalize_all_cached [OF assms(1,2) 2]
  have lang: "\<not> (case t of None \<Rightarrow> False | Some l \<Rightarrow> l \<noteq> [] \<and> l \<noteq> language self)"
    using assms(3) by auto
  have out: "tokenize seps self e t n c =
      (let (self', i) =
          (if ?p \<noteq> [] \<and> ?p \<in> set (tokenizeSkipProperties self) then (s1, [v]) else (s2, filter (\<lambda>v. v \<noteq> []) vs))
       in Inr (self', if allowDuplicates self then trim_empty i else set_new (trim_empty i)))"
    unfolding tokenize_def if_not_P [OF lang] Let_def 1 2 prod.case ..
  show ?thesis
  proof (cases "?p \<noteq> [] \<and> ?p \<in> set (tokenizeSkipProperties self)")
    case True
    have "tokenize seps self e t n c = Inr (s1, fresh_tokens seps self ?p e)"
      using n1 unfolding out fresh_tokens_def if_P [OF True] Let_def prod.case trim_empty_single by simp
    with n1 show ?thesis
      by blast
  next
    case False
    have "tokenize seps self e t n c = Inr (s2, fresh_tokens seps self ?p e)"
      using n2 unfolding out fresh_tokens_def if_not_P [OF False] Let_def prod.case trim_empty_filter by simp
    with n2 show ?thesis
      by blast
  qed
qed

subsection \<open>Stems are not empty\<close>

lemma drop_last_not_Nil: "2 \<le> length e \<Longrightarrow> drop_last e \<noteq> []"
  by (cases e) (auto simp: drop_last_def)

lemma step1a_not_Nil: "e \<noteq> [] \<Longrightarrow> step1a e \<noteq> []"
proof (cases "suffix_split [js ''sses'', js ''ies''] e")
  case (Some p)
  then have "3 \<le> length e"
    by (cases p) (auto dest!: suffix_split_Some)
  with Some show ?thesis
    by (auto simp: step1a_def)
qed (auto simp: step1a_def butlast_conv_take)

lemma step1b_not_Nil: "e \<noteq> [] \<Longrightarrow> step1b e \<noteq> []"
  by (auto simp: step1b_def double_consonant_def drop_last_not_Nil split: option.splits dest!: suffix_split_Some)

lemma step1c_not_Nil: "e \<noteq> [] \<Longrightarrow> step1c e \<noteq> []"
  by (auto simp: step1c_def split: option.splits)

lemma step_table_not_Nil: "e \<noteq> [] \<Longrightarrow> step_table tab e \<noteq> []"
  by (auto simp: step_table_def split: option.splits dest!: suffix_split_Some)

lemma step4_not_Nil: "e \<noteq> [] \<Longrightarrow> step4 e \<noteq> []"
  by (auto simp: step4_def split: option.splits dest!: suffix_split_Some)

lemma step5_not_Nil: "e \<noteq> [] \<Longrightarrow> step5 e \<noteq> []"
  by (auto simp: step5_def split: option.splits dest!: suffix_split_Some)

lemma step_ll_not_Nil: "e \<noteq> [] \<Longrightarrow> step_ll e \<noteq> []"
  by (cases e; cases "tl e") (auto simp: step_ll_def ends_with_def js_def drop_last_def)

lemmas stem_not_Nil =
  step1a_not_Nil step1b_not_Nil step1c_not_Nil step_table_not_Nil step4_not_Nil step5_not_Nil step_ll_not_Nil

lemma stemmer_not_Nil: "e \<noteq> [] \<Longrightarrow> stemmer e \<noteq> []"
  by (simp add: stemmer_def Let_def stem_not_Nil)

subsection \<open>Properties\<close>

fun tokenize_session ::
    "(jsstring \<Rightarrow> jschar \<Rightarrow> bool) \<Rightarrow> tokenizer \<Rightarrow> (jsstring \<times> jsstring) list \<Rightarrow> jsstring list list jsresult" where
  "tokenize_session seps self [] = Inr []"
| "tokenize_session seps self ((e, n) # calls) =
     lift_err (tokenize seps self e (Some (language self)) (Some n) True) (\<lambda>(self, ts).
     lift_err (tokenize_session seps self calls) (\<lambda>tss. Inr (ts # tss)))"

lemma fresh_tokens_settings: "same_settings a b \<Longrightarrow> fresh_tokens seps b = fresh_tokens seps a"
  by (intro ext) (simp add: fresh_tokens_def same_settings_fields cong: map_cong)

lemma tokenize_session_fresh:
  "cache_ok self \<Longrightarrow> list_all (\<lambda>(e, n). 58 \<notin> set n) calls \<Longrightarrow>
   tokenize_session seps self calls = Inr (map (\<lambda>(e, n). fresh_tokens seps self n e) calls)"
proof (induction calls arbitrary: self)
  case (Cons call calls)
  obtain e n where call: "call = (e, n)"
    by fastforce
  obtain self' where s: "tokenize seps self e (Some (language self)) (Some n) True = Inr (self', fresh_tokens seps self n e)"
    "cache_ok self'" "same_settings self self'"
    using tokenize_fresh [OF Cons.prems(1), of "Some n" "Some (language self)" seps e True] Cons.prems(2) call by auto
  have "tokenize_session seps self' calls = Inr (map (\<lambda>(e, n). fresh_tokens seps self n e) calls)"
    using Cons.IH [OF s(2)] Cons.prems(2) by (simp add: fresh_tokens_settings [OF s(3)])
  with s(1) call show ?case
    by simp
qed simp

lemma createTokenizer_empty_cache: "createTokenizer languages cf = Inr self \<Longrightarrow> cache_ok self"
proof -
  assume "createTokenizer languages cf = Inr self"
  then have "normalizationCache self = []"
    unfolding createTokenizer_def Let_def
    by (cases "config_stemmer cf (if (case cf_language cf of None \<Rightarrow> [] | Some l \<Rightarrow> l) = [] then js ''english'' else (case cf_language cf of None \<Rightarrow> [] | Some l \<Rightarrow> l))";
        cases "config_stopWords (cf_stopWords cf)") (auto split: if_splits)
  then show ?thesis
    by (simp add: cache_ok_def)
qed

text \<open>
  C32: The cache of normalised tokens never changes a result: any sequence of tokenisations with a
  tokenizer fresh from its configuration returns what tokenising each text without a cache returns,
  as long as no property name holds a colon.
\<close>

theorem tokenize_cache_transparent:
  assumes "createTokenizer languages cf = Inr self" "list_all (\<lambda>(e, n). 58 \<notin> set n) calls"
  shows "tokenize_session seps self calls = Inr (map (\<lambda>(e, n). fresh_tokens seps self n e) calls)"
  using assms createTokenizer_empty_cache tokenize_session_fresh by blast

theorem tokenize_cache_transparent_witness:
  "tokenize_session (\<lambda>_. english_sep) default_tokenizer
     [(js ''Fast jobs'', js ''title''), (js ''jobs fast'', js ''content'')] =
   Inr [[js ''fast'', js ''jobs''], [js ''jobs'', js ''fast'']]"
proof -
  have c: "createTokenizer [js ''english''] default_config = Inr default_tokenizer"
    by (rule createTokenizer_default)
  have l: "list_all (\<lambda>(e, n). 58 \<notin> set n) [(js ''Fast jobs'', js ''title''), (js ''jobs fast'', js ''content'')]"
    by code_simp
  have f: "map (\<lambda>(e, n). fresh_tokens (\<lambda>_. english_sep) default_tokenizer n e)
      [(js ''Fast jobs'', js ''title''), (js ''jobs fast'', js ''content'')] =
    [[js ''fast'', js ''jobs''], [js ''jobs'', js ''fast'']]"
    by code_simp
  show ?thesis
    using tokenize_cache_transparent [OF c l, of "\<lambda>_. english_sep"] unfolding f .
qed

lemma default_fresh_plain:
  assumes "w \<in> set (fresh_tokens (\<lambda>_. english_sep) default_tokenizer [] e)"
  shows "w \<noteq> [] \<and> list_all plain_char w"
proof -
  obtain u where u: "u \<in> set (js_split_runs english_sep [] (js_lower e))" "w = replaceDiacritics u" "w \<noteq> []"
    using assms by (auto simp: fresh_tokens_def default_tokenizer_def normalize_fresh_def)
  have "c \<in> set (js_lower e)" if "c \<in> set u" for c
  proof -
    have "c \<in> set (concat (js_split_runs english_sep [] (js_lower e)))"
      using u(1) that by auto
    then show ?thesis
      unfolding concat_js_split_runs by auto
  qed
  with js_split_runs_no_sep [of "[]" english_sep u "js_lower e"] u(1) js_lower_no_capital
  have "\<not> english_sep c \<and> \<not> (65 \<le> c \<and> c \<le> 90)" if "c \<in> set u" for c
    using that by auto
  with u(2,3) replaceDiacritics_plain [of u] show ?thesis
    by (auto simp: list_all_iff)
qed

text \<open>
  The tokenizer of the default configuration splits English text into distinct, non-empty tokens
  of small letters, digits, underscores, apostrophes and hyphens only, and the case of the text makes
  no difference.
\<close>

theorem default_tokens:
  "\<exists>self self' ts. createTokenizer [js ''english''] default_config = Inr self \<and>
     tokenize (\<lambda>_. english_sep) self e None None c = Inr (self', ts) \<and>
     distinct ts \<and> list_all (\<lambda>w. w \<noteq> [] \<and> list_all plain_char w) ts \<and>
     (\<exists>self''. tokenize (\<lambda>_. english_sep) self (js_lower e) None None c = Inr (self'', ts))"
proof -
  have d: "createTokenizer [js ''english''] default_config = Inr default_tokenizer"
    by (rule createTokenizer_default)
  have same: "fresh_tokens (\<lambda>_. english_sep) default_tokenizer [] (js_lower e) =
      fresh_tokens (\<lambda>_. english_sep) default_tokenizer [] e"
    by (simp add: fresh_tokens_def js_lower_idem)
  obtain s1 where 1: "tokenize (\<lambda>_. english_sep) default_tokenizer e None None c =
      Inr (s1, fresh_tokens (\<lambda>_. english_sep) default_tokenizer [] e)"
    using tokenize_fresh [OF createTokenizer_empty_cache [OF d], of None None "\<lambda>_. english_sep" e c] by auto
  obtain s2 where 2: "tokenize (\<lambda>_. english_sep) default_tokenizer (js_lower e) None None c =
      Inr (s2, fresh_tokens (\<lambda>_. english_sep) default_tokenizer [] e)"
    using tokenize_fresh [OF createTokenizer_empty_cache [OF d], of None None "\<lambda>_. english_sep" "js_lower e" c] same by auto
  have "distinct (fresh_tokens (\<lambda>_. english_sep) default_tokenizer [] e)"
    by (simp add: fresh_tokens_def default_tokenizer_def Let_def)
  moreover have "list_all (\<lambda>w. w \<noteq> [] \<and> list_all plain_char w) (fresh_tokens (\<lambda>_. english_sep) default_tokenizer [] e)"
    using default_fresh_plain by (auto simp: list_all_iff)
  ultimately show ?thesis
    using d 1 2 by blast
qed

text \<open>
  The stem of a word is never longer than the word and never empty unless the word is, so no
  word is lost by stemming.
\<close>

theorem stemmer_bounds: "length (stemmer e) \<le> length e \<and> (stemmer e = [] \<longleftrightarrow> e = [])"
  using stemmer_length [of e] stemmer_not_Nil [of e] by auto

text \<open>
  Words on \<^verbatim>\<open>-tion\<close> lose the letter before the suffix: adoption stems to adop, where
  adopted and adopt stem to adopt, so a search for one does not find the other.
\<close>

theorem stemmer_drops_t:
  "stemmer (js ''adoption'') = js ''adop'' \<and> stemmer (js ''adopted'') = js ''adopt'' \<and> stemmer (js ''adopt'') = js ''adopt''"
  by code_simp

end
