(* ===== verification/Orama_Index.thy ===== *)
theory Orama_Index
  imports Orama_Store Orama_AVL Orama_Flat Orama_Radix Orama_BKD Orama_Vector Orama_Tokenizer
begin

text \<open>
  The document index of \<^verbatim>\<open>assets/js/search-orama.js\<close>: one field index per schema
  property (\<^verbatim>\<open>Te\<close>), the parameters of the BM25 score (\<^verbatim>\<open>ye\<close>,
  \<^verbatim>\<open>we\<close>, \<^verbatim>\<open>ve\<close>, \<^verbatim>\<open>Ie\<close>, \<^verbatim>\<open>Oe\<close>),
  insertion and removal of a property's value (\<^verbatim>\<open>Ne\<close>, \<^verbatim>\<open>Ae\<close>,
  \<^verbatim>\<open>_e\<close>), term search (\<^verbatim>\<open>De\<close>, \<^verbatim>\<open>Ee\<close>,
  \<^verbatim>\<open>xe\<close>), filters (\<^verbatim>\<open>Pe\<close>) and the JSON form (\<^verbatim>\<open>Me\<close>,
  \<^verbatim>\<open>Le\<close>). The store of document ids, which the code shares by reference, is passed
  and returned. Objects used as maps list their keys in order of insertion, and hold own
  properties only. A value has the type of its field (\<open>validateSchema\<close>); any other leaves the
  index as it is.
\<close>

subsection \<open>State\<close>

datatype node =
    NBool "nat bool_node"
  | NAVL "(rat, nat) avl_tree"
  | NRadix "nat radix"
  | NFlat "(jsval, nat) flat"
  | NBKD "nat bkd_tree"
  | NPosition "(jsstring, nat list) jsmap list"

record field_index =
  fi_node :: node
  fi_isArray :: bool

text \<open>A number that may be undefined, or not finite.\<close>

datatype avg_length = AvgUndefined | AvgNaN | Avg rat

record index =
  indexes :: "(jsstring, field_index) jsmap"
  vectorIndexes :: "(jsstring, vector_index) jsmap"
  searchableProperties :: "jsstring list"
  searchablePropertiesWithTypes :: "(jsstring, jsstring) jsmap"
  frequencies :: "(jsstring, (nat, (jsstring, rat) jsmap option) jsmap) jsmap"
  tokenOccurrences :: "(jsstring, (jsstring, int option) jsmap) jsmap"
  avgFieldLength :: "(jsstring, avg_length) jsmap"
  fieldLengths :: "(jsstring, (nat, nat option) jsmap) jsmap"

definition index_empty :: index where
  "index_empty =
     \<lparr>indexes = [], vectorIndexes = [], searchableProperties = [], searchablePropertiesWithTypes = [],
      frequencies = [], tokenOccurrences = [], avgFieldLength = [], fieldLengths = []\<rparr>"

text \<open>Reading a property of undefined throws.\<close>

definition need :: "'a option \<Rightarrow> ('a \<Rightarrow> 'b jsresult) \<Rightarrow> 'b jsresult" where
  "need v k = (case v of None \<Rightarrow> Inl TypeError | Some x \<Rightarrow> k x)"

lemma need_simps [simp]: "need None k = Inl TypeError" "need (Some x) k = k x"
  by (simp_all add: need_def)

subsection \<open>Creation\<close>

definition prop_path :: "jsstring \<Rightarrow> jsstring \<Rightarrow> jsstring" where
  "prop_path prefix s = (if prefix = [] then s else prefix @ [dot] @ s)"

definition set_node :: "jsstring \<Rightarrow> node \<Rightarrow> bool \<Rightarrow> index \<Rightarrow> index" where
  "set_node n x arr r = r\<lparr>indexes := map_set n \<lparr>fi_node = x, fi_isArray = arr\<rparr> (indexes r)\<rparr>"

definition add_searchable :: "jsstring \<Rightarrow> jsstring \<Rightarrow> index \<Rightarrow> index" where
  "add_searchable n i r =
     r\<lparr>searchableProperties := searchableProperties r @ [n],
       searchablePropertiesWithTypes := map_set n i (searchablePropertiesWithTypes r)\<rparr>"

definition has_bracket :: "jsstring \<Rightarrow> bool" where
  "has_bracket i = (91 \<in> set i)"

definition empty_node :: "node \<Rightarrow> jsstring \<Rightarrow> node option" where
  "empty_node strings i =
     (if i \<in> {js ''boolean'', js ''boolean[]''} then Some (NBool bool_new)
      else if i \<in> {js ''number'', js ''number[]''} then Some (NAVL (avl_new (Some (0, []))))
      else if i \<in> {js ''string'', js ''string[]''} then Some strings
      else if i \<in> {js ''enum'', js ''enum[]''} then Some (NFlat flat_new)
      else if i = js ''geopoint'' then Some (NBKD bkd_new)
      else None)"

definition score_tables :: "jsstring \<Rightarrow> index \<Rightarrow> index" where
  "score_tables n r =
     r\<lparr>avgFieldLength := map_set n (Avg 0) (avgFieldLength r), frequencies := map_set n [] (frequencies r),
       tokenOccurrences := map_set n [] (tokenOccurrences r), fieldLengths := map_set n [] (fieldLengths r)\<rparr>"

definition create_field :: "jsstring \<Rightarrow> jsstring \<Rightarrow> index \<Rightarrow> index jsresult" where
  "create_field n i r =
     (if isVectorType i then
        lift_err (getVectorSize i) (\<lambda>z.
          let r = add_searchable n i r in Inr (r\<lparr>vectorIndexes := map_set n (vec_new z) (vectorIndexes r)\<rparr>))
      else
        (case empty_node (NRadix radix_root) i of
           None \<Rightarrow> Inl (JsError (js ''INVALID_SCHEMA_TYPE''))
         | Some x \<Rightarrow>
             Inr (add_searchable n i
               (let r = set_node n x (has_bracket i) r
                in if i \<in> {js ''string'', js ''string[]''} then score_tables n r else r))))"

function index_create :: "(jsstring \<times> schema) list \<Rightarrow> index \<Rightarrow> jsstring \<Rightarrow> index jsresult" where
  "index_create [] r p = Inr r"
| "index_create ((s, TyName i) # rest) r p =
     lift_err (create_field (prop_path p s) i r) (\<lambda>r. index_create rest r p)"
| "index_create ((s, TyObj i) # rest) r p =
     lift_err (index_create i r (prop_path p s)) (\<lambda>r. index_create rest r p)"
  by pat_completeness auto
termination
  by (relation "measure (\<lambda>(kvs, r, p). size_list (size_prod (\<lambda>_. 0) size) kvs)") auto

subsection \<open>Score parameters\<close>

record bm25 =
  bm_k :: rat
  bm_b :: rat
  bm_d :: rat

text \<open>The score of a term in a field; None where the code's result is not a finite number.\<close>

definition BM25 :: "rat \<Rightarrow> int option \<Rightarrow> int \<Rightarrow> nat option \<Rightarrow> avg_length \<Rightarrow> bm25 \<Rightarrow> real option" where
  "BM25 e t n r avg p =
     (case (t, r, avg) of
        (Some t, Some r, Avg q) \<Rightarrow>
          (let arg = 1 + (of_int n - of_int t + 1 / 2) / (of_int t + 1 / 2) :: rat;
               den = e + bm_k p * (1 - bm_b p + (bm_b p * of_nat r) / q)
           in if q = 0 \<or> den = 0 \<or> arg \<le> 0 then None
              else Some ((ln (of_rat arg) * of_rat (bm_d p + e * (bm_k p + 1))) / of_rat den))
      | _ \<Rightarrow> None)"

definition insertDocumentScoreParameters ::
    "id_store \<Rightarrow> index \<Rightarrow> jsstring \<Rightarrow> doc_id \<Rightarrow> jsstring list \<Rightarrow> int \<Rightarrow> (id_store \<times> index) jsresult" where
  "insertDocumentScoreParameters ids e t n r cnt =
     (let (ids, s) = getInternalDocumentId ids n;
          old = (case map_get (avgFieldLength e) t of Some (Avg q) \<Rightarrow> Avg q | Some AvgNaN \<Rightarrow> AvgNaN | _ \<Rightarrow> Avg 0);
          avg = (case old of
                   Avg q \<Rightarrow> if cnt = 0 then AvgNaN else Avg ((q * of_int (cnt - 1) + of_nat (length r)) / of_int cnt)
                 | x \<Rightarrow> AvgNaN);
          e = e\<lparr>avgFieldLength := map_set t avg (avgFieldLength e)\<rparr>
      in need (map_get (fieldLengths e) t) (\<lambda>fl.
         let e = e\<lparr>fieldLengths := map_set t (map_set s (Some (length r)) fl) (fieldLengths e)\<rparr>
         in need (map_get (frequencies e) t) (\<lambda>fr.
            Inr (ids, e\<lparr>frequencies := map_set t (map_set s (Some []) fr) (frequencies e)\<rparr>))))"

definition insertTokenScoreParameters ::
    "id_store \<Rightarrow> index \<Rightarrow> jsstring \<Rightarrow> doc_id \<Rightarrow> jsstring list \<Rightarrow> jsstring \<Rightarrow> (id_store \<times> index) jsresult" where
  "insertTokenScoreParameters ids e t n r tok =
     (let s = foldl (\<lambda>s x. if x = tok then s + 1 else s) (0::nat) r;
          (ids, i) = getInternalDocumentId ids n;
          a = of_nat s / of_nat (length r) :: rat
      in need (map_get (frequencies e) t) (\<lambda>fr.
         need (case map_get fr i of None \<Rightarrow> None | Some x \<Rightarrow> x) (\<lambda>f.
         let e = e\<lparr>frequencies := map_set t (map_set i (Some (map_set tok a f)) fr) (frequencies e)\<rparr>
         in need (map_get (tokenOccurrences e) t) (\<lambda>occ.
            let c = (case map_get occ tok of None \<Rightarrow> Some 0 | Some c \<Rightarrow> c)
            in Inr (ids, e\<lparr>tokenOccurrences := map_set t (map_set tok (map_option (\<lambda>c. c + 1) c) occ) (tokenOccurrences e)\<rparr>)))))"

definition removeDocumentScoreParameters ::
    "id_store \<Rightarrow> index \<Rightarrow> jsstring \<Rightarrow> doc_id \<Rightarrow> int \<Rightarrow> (id_store \<times> index) jsresult" where
  "removeDocumentScoreParameters ids e t n r =
     (let (ids, i) = getInternalDocumentId ids n;
          len = (case map_get (fieldLengths e) t of None \<Rightarrow> None | Some fl \<Rightarrow> (case map_get fl i of None \<Rightarrow> None | Some x \<Rightarrow> x));
          avg = (if r > 1 then
                   (case (map_get (avgFieldLength e) t, len) of
                      (Some (Avg q), Some l) \<Rightarrow> Avg ((q * of_int r - of_nat l) / of_int (r - 1))
                    | _ \<Rightarrow> AvgNaN)
                 else AvgUndefined);
          e = e\<lparr>avgFieldLength := map_set t avg (avgFieldLength e)\<rparr>
      in need (map_get (fieldLengths e) t) (\<lambda>fl.
         let e = e\<lparr>fieldLengths := map_set t (map_set i None fl) (fieldLengths e)\<rparr>
         in need (map_get (frequencies e) t) (\<lambda>fr.
            Inr (ids, e\<lparr>frequencies := map_set t (map_set i None fr) (frequencies e)\<rparr>))))"

definition removeTokenScoreParameters :: "index \<Rightarrow> jsstring \<Rightarrow> jsstring \<Rightarrow> index jsresult" where
  "removeTokenScoreParameters e t n =
     need (map_get (tokenOccurrences e) t) (\<lambda>occ.
       let c = (case map_get occ n of Some (Some c) \<Rightarrow> Some (c - 1) | _ \<Rightarrow> None)
       in Inr (e\<lparr>tokenOccurrences := map_set t (map_set n c occ) (tokenOccurrences e)\<rparr>))"

subsection \<open>Insertion\<close>

type_synonym separators = "jsstring \<Rightarrow> jschar \<Rightarrow> bool"

definition as_point :: "jsval \<Rightarrow> point option" where
  "as_point v =
     (case v of
        JObj kvs \<Rightarrow>
          (case (map_get kvs (js ''lon''), map_get kvs (js ''lat'')) of
             (Some (JNum a), Some (JNum b)) \<Rightarrow> Some \<lparr>lon = a, lat = b\<rparr> | _ \<Rightarrow> None)
      | _ \<Rightarrow> None)"

definition as_vector :: "jsval \<Rightarrow> vector option" where
  "as_vector v =
     (case v of
        JArr xs \<Rightarrow> if list_all is_num xs then Some (map (\<lambda>x. case x of JNum n \<Rightarrow> of_rat n | _ \<Rightarrow> 0) xs) else None
      | _ \<Rightarrow> None)"

definition node_of :: "index \<Rightarrow> jsstring \<Rightarrow> node option" where
  "node_of t n = map_option fi_node (map_get (indexes t) n)"

definition put_node :: "jsstring \<Rightarrow> node \<Rightarrow> index \<Rightarrow> index" where
  "put_node n x t =
     (case map_get (indexes t) n of
        None \<Rightarrow> t
      | Some fi \<Rightarrow> t\<lparr>indexes := map_set n (fi\<lparr>fi_node := x\<rparr>) (indexes t)\<rparr>)"

definition radix_put :: "jsstring \<Rightarrow> jsstring \<Rightarrow> nat \<Rightarrow> index \<Rightarrow> index" where
  "radix_put n w d t = (case node_of t n of Some (NRadix u) \<Rightarrow> put_node n (NRadix (radix_insert w d u)) t | _ \<Rightarrow> t)"

fun insert_tokens ::
    "id_store \<Rightarrow> index \<Rightarrow> jsstring \<Rightarrow> nat \<Rightarrow> jsstring list \<Rightarrow> jsstring list \<Rightarrow> (id_store \<times> index) jsresult" where
  "insert_tokens ids t n r a [] = Inr (ids, t)"
| "insert_tokens ids t n r a (w # ws) =
     lift_err (insertTokenScoreParameters ids t n (IdNumber r) a w) (\<lambda>(ids, t).
       insert_tokens ids (radix_put n w r t) n r a ws)"

definition insert_scalar ::
    "separators \<Rightarrow> tokenizer \<Rightarrow> jsstring option \<Rightarrow> int \<Rightarrow> nat option \<Rightarrow> jsstring \<Rightarrow> nat \<Rightarrow> jsval \<Rightarrow> id_store \<times> index \<Rightarrow> (id_store \<times> index) jsresult" where
  "insert_scalar seps tk lang cnt thr n r c = (\<lambda>(ids, t).
     need (node_of t n) (\<lambda>x.
       case x of
         NBool u \<Rightarrow> Inr (ids, put_node n (NBool (bool_insert r (js_truthy c) u)) t)
       | NAVL u \<Rightarrow>
           (case c of
              JNum k \<Rightarrow> Inr (ids, put_node n (NAVL (avl_insert k r (Some (case thr of None \<Rightarrow> 1 | Some z \<Rightarrow> z)) u)) t)
            | _ \<Rightarrow> Inr (ids, t))
       | NRadix u \<Rightarrow>
           (case c of
              JStr w \<Rightarrow>
                lift_err (tokenize seps tk w lang (Some n) False) (\<lambda>(tk, a).
                lift_err (insertDocumentScoreParameters ids t n (IdNumber r) a cnt) (\<lambda>(ids, t).
                  insert_tokens ids t n r a a))
            | _ \<Rightarrow> Inr (ids, t))
       | NFlat u \<Rightarrow> Inr (ids, put_node n (NFlat (flat_insert c r u)) t)
       | NBKD u \<Rightarrow>
           (case as_point c of Some q \<Rightarrow> Inr (ids, put_node n (NBKD (bkd_insert q [r] u)) t) | None \<Rightarrow> Inr (ids, t))
       | NPosition u \<Rightarrow> Inr (ids, t)))"

fun insert_each :: "('s \<Rightarrow> 's jsresult) list \<Rightarrow> 's \<Rightarrow> 's jsresult" where
  "insert_each [] s = Inr s"
| "insert_each (f # fs) s = lift_err (f s) (insert_each fs)"

definition index_insert ::
    "separators \<Rightarrow> tokenizer \<Rightarrow> jsstring option \<Rightarrow> int \<Rightarrow> nat option \<Rightarrow> jsstring \<Rightarrow> nat \<Rightarrow> jsstring \<Rightarrow> jsval \<Rightarrow> id_store \<times> index \<Rightarrow> (id_store \<times> index) jsresult" where
  "index_insert seps tk lang cnt thr n d ty s = (\<lambda>(ids, t).
     if isVectorType ty then
       need (map_get (vectorIndexes t) n) (\<lambda>u.
         case as_vector s of
           Some v \<Rightarrow> Inr (ids, t\<lparr>vectorIndexes := map_set n (vec_add d v u) (vectorIndexes t)\<rparr>)
         | None \<Rightarrow> Inr (ids, t))
     else if \<not> isArrayType ty then insert_scalar seps tk lang cnt thr n d s (ids, t)
     else
       (case s of
          JArr xs \<Rightarrow> insert_each (map (insert_scalar seps tk lang cnt thr n d) xs) (ids, t)
        | _ \<Rightarrow> Inr (ids, t)))"

subsection \<open>Removal\<close>

definition radix_drop :: "jsstring \<Rightarrow> jsstring \<Rightarrow> nat \<Rightarrow> index \<Rightarrow> index" where
  "radix_drop n w d t =
     (case node_of t n of
        Some (NRadix u) \<Rightarrow> put_node n (NRadix (fst (radix_removeDocumentByWord w d True u))) t | _ \<Rightarrow> t)"

fun remove_tokens :: "index \<Rightarrow> jsstring \<Rightarrow> nat \<Rightarrow> jsstring list \<Rightarrow> index jsresult" where
  "remove_tokens t n d [] = Inr t"
| "remove_tokens t n d (w # ws) =
     lift_err (removeTokenScoreParameters t n w) (\<lambda>t. remove_tokens (radix_drop n w d t) n d ws)"

type_synonym removal_state = "tokenizer \<times> id_store \<times> index"

definition remove_scalar ::
    "separators \<Rightarrow> jsstring option \<Rightarrow> int \<Rightarrow> jsstring \<Rightarrow> jsstring \<Rightarrow> nat \<Rightarrow> jsstring \<Rightarrow> jsval \<Rightarrow> removal_state \<Rightarrow> (removal_state \<times> bool) jsresult" where
  "remove_scalar seps lang cnt n ext d ty s = (\<lambda>(tk, ids, t).
     if isVectorType ty then
       need (map_get (vectorIndexes t) n) (\<lambda>u.
         Inr ((tk, ids, t\<lparr>vectorIndexes := map_set n (vec_remove d u) (vectorIndexes t)\<rparr>), True))
     else
       need (node_of t n) (\<lambda>x.
         case x of
           NAVL f \<Rightarrow>
             (case s of
                JNum k \<Rightarrow> Inr ((tk, ids, put_node n (NAVL (avl_removeDocument k d f)) t), True)
              | _ \<Rightarrow> Inr ((tk, ids, t), True))
         | NBool f \<Rightarrow> Inr ((tk, ids, put_node n (NBool (bool_delete d (js_truthy s) f)) t), True)
         | NRadix f \<Rightarrow>
             (case s of
                JStr w \<Rightarrow>
                  lift_err (tokenize seps tk w lang (Some n) True) (\<lambda>(tk, a).
                  lift_err (removeDocumentScoreParameters ids t n (IdString ext) cnt) (\<lambda>(ids, t).
                  lift_err (remove_tokens t n d a) (\<lambda>t. Inr ((tk, ids, t), True))))
              | _ \<Rightarrow> Inr ((tk, ids, t), True))
         | NFlat f \<Rightarrow> Inr ((tk, ids, put_node n (NFlat (flat_removeDocument d s f)) t), True)
         | NBKD f \<Rightarrow>
             (case as_point s of
                Some q \<Rightarrow> Inr ((tk, ids, put_node n (NBKD (removeDocByID q d f)) t), False)
              | None \<Rightarrow> Inr ((tk, ids, t), False))
         | NPosition f \<Rightarrow> Inr ((tk, ids, t), False)))"

definition index_remove ::
    "separators \<Rightarrow> jsstring option \<Rightarrow> int \<Rightarrow> jsstring \<Rightarrow> jsstring \<Rightarrow> nat \<Rightarrow> jsstring \<Rightarrow> jsval \<Rightarrow> removal_state \<Rightarrow> (removal_state \<times> bool) jsresult" where
  "index_remove seps lang cnt n ext d ty s st =
     (case getInnerType ty of
        None \<Rightarrow> remove_scalar seps lang cnt n ext d ty s st
      | Some u \<Rightarrow>
          (case s of
             JArr xs \<Rightarrow>
               lift_err
                 (insert_each (map (\<lambda>x st. lift_err (remove_scalar seps lang cnt n ext d u x st) (\<lambda>(st, b). Inr st)) xs) st)
                 (\<lambda>st. Inr (st, True))
           | _ \<Rightarrow> Inr (st, True)))"

subsection \<open>Search by terms\<close>

type_synonym scores = "(nat, real option) jsmap"

type_synonym token_map = "(nat, (jsstring, nat) jsmap) jsmap"

definition add_score :: "real option \<Rightarrow> real option \<Rightarrow> real option" where
  "add_score a b = (case (a, b) of (Some x, Some y) \<Rightarrow> Some (x + y) | _ \<Rightarrow> None)"

definition score_doc ::
    "index \<Rightarrow> jsstring \<Rightarrow> jsstring \<Rightarrow> int \<Rightarrow> bm25 \<Rightarrow> rat \<Rightarrow> nat list option \<Rightarrow> nat \<Rightarrow> scores \<times> token_map \<Rightarrow> scores \<times> token_map" where
  "score_doc e t n cnt p boost flt r = (\<lambda>(i, l).
     if (case flt of None \<Rightarrow> False | Some c \<Rightarrow> r \<notin> set c) then (i, l)
     else
       (let h = (case map_get l r of None \<Rightarrow> [] | Some h \<Rightarrow> h);
            l = map_set r (map_set t ((case map_get h t of None \<Rightarrow> 0 | Some k \<Rightarrow> k) + 1) h) l;
            f = (case map_get (avgFieldLength e) t of None \<Rightarrow> AvgUndefined | Some f \<Rightarrow> f);
            d = (case map_get (fieldLengths e) t of None \<Rightarrow> None | Some d \<Rightarrow> (case map_get d r of None \<Rightarrow> None | Some x \<Rightarrow> x));
            g = (case map_get (tokenOccurrences e) t of None \<Rightarrow> Some 0 | Some h \<Rightarrow> (case map_get h n of None \<Rightarrow> Some 0 | Some g \<Rightarrow> g));
            q = (case map_get (frequencies e) t of
                   None \<Rightarrow> 0
                 | Some q \<Rightarrow> (case map_get q r of Some (Some fr) \<Rightarrow> (case map_get fr n of None \<Rightarrow> 0 | Some x \<Rightarrow> x) | _ \<Rightarrow> 0));
            m = map_option (\<lambda>s. s * of_rat boost) (BM25 q g cnt d f p)
        in (map_set r (case map_get i r of None \<Rightarrow> m | Some x \<Rightarrow> add_score x m) i, l)))"

definition calculateResultScores ::
    "index \<Rightarrow> jsstring \<Rightarrow> jsstring \<Rightarrow> nat list \<Rightarrow> int \<Rightarrow> bm25 \<Rightarrow> rat \<Rightarrow> nat list option \<Rightarrow> scores \<times> token_map \<Rightarrow> scores \<times> token_map" where
  "calculateResultScores e t n ds cnt p boost flt st =
     foldl (\<lambda>st r. score_doc e t n cnt p boost flt r st) st ds"

definition searchInProperty ::
    "index \<Rightarrow> nat radix \<Rightarrow> jsstring \<Rightarrow> jsstring list \<Rightarrow> bool \<Rightarrow> nat \<Rightarrow> int \<Rightarrow> bm25 \<Rightarrow> rat \<Rightarrow> nat list option \<Rightarrow> scores \<times> token_map \<Rightarrow> scores \<times> token_map" where
  "searchInProperty e u n ds exact tol cnt p boost flt st =
     foldl (\<lambda>st d.
       foldl (\<lambda>st (w, docs). calculateResultScores e n w docs cnt p boost flt st) st (radix_find u d exact tol)) st ds"

fun search_properties ::
    "index \<Rightarrow> jsstring \<Rightarrow> bool \<Rightarrow> nat \<Rightarrow> int \<Rightarrow> bm25 \<Rightarrow> (jsstring, rat) jsmap \<Rightarrow> nat list option \<Rightarrow> jsstring list \<Rightarrow> jsstring list \<Rightarrow> scores \<times> token_map \<Rightarrow> (scores \<times> token_map) jsresult" where
  "search_properties e term exact tol cnt p boost flt [] ds st = Inr st"
| "search_properties e term exact tol cnt p boost flt (n # ns) ds st =
     (case node_of e n of
        None \<Rightarrow> search_properties e term exact tol cnt p boost flt ns ds st
      | Some (NRadix u) \<Rightarrow>
          (let f = (case map_get boost n of None \<Rightarrow> 1 | Some f \<Rightarrow> f)
           in if f \<le> 0 then Inl (JsError (js ''INVALID_BOOST_VALUE''))
              else
                (let ds = (if ds = [] \<and> term = [] then [[]] else ds)
                 in search_properties e term exact tol cnt p boost flt ns ds (searchInProperty e u n ds exact tol cnt p f flt st)))
      | Some x \<Rightarrow> Inl (JsError (js ''WRONG_SEARCH_PROPERTY_TYPE'')))"

definition by_score_desc :: "nat \<times> real option \<Rightarrow> nat \<times> real option \<Rightarrow> real" where
  "by_score_desc e t = (case (snd e, snd t) of (Some x, Some y) \<Rightarrow> y - x | _ \<Rightarrow> 0)"

definition slice0 :: "'a list \<Rightarrow> int \<Rightarrow> 'a list" where
  "slice0 e t = (if t \<ge> 0 then take (nat t) e else take (length e - nat (- t)) e)"

definition all_terms :: "nat \<Rightarrow> token_map \<Rightarrow> nat \<Rightarrow> bool" where
  "all_terms h p d = (case map_get p d of None \<Rightarrow> False | Some t \<Rightarrow> list_ex (\<lambda>k. k = h) (map snd t))"

definition apply_threshold :: "rat \<Rightarrow> nat \<Rightarrow> token_map \<Rightarrow> (nat \<times> real option) list \<Rightarrow> (nat \<times> real option) list" where
  "apply_threshold f h p m =
     (if m = [] then []
      else if f = 1 then m
      else
        (let y = filter (\<lambda>(d, s). all_terms h p d) m
         in if f = 0 then y
            else if y \<noteq> [] then
              (let e = filter (\<lambda>(d, s). \<not> list_ex (\<lambda>(t, s). t = d) y) m; t = \<lceil>of_nat (length e) * f\<rceil>
               in y @ slice0 e t)
            else m))"

definition index_search ::
    "separators \<Rightarrow> index \<Rightarrow> jsstring \<Rightarrow> tokenizer \<Rightarrow> jsstring option \<Rightarrow> jsstring list \<Rightarrow> bool \<Rightarrow> nat \<Rightarrow> (jsstring, rat) jsmap \<Rightarrow> bm25 \<Rightarrow> int \<Rightarrow> nat list option \<Rightarrow> rat \<Rightarrow> (tokenizer \<times> (nat \<times> real option) list) jsresult" where
  "index_search seps e term tk lang props exact tol boost p cnt flt f =
     lift_err (tokenize seps tk term lang None True) (\<lambda>(tk, d).
       let h = (if d = [] then 1 else length d)
       in lift_err (search_properties e term exact tol cnt p boost flt props d ([], [])) (\<lambda>(g, l).
            Inr (tk, apply_threshold f h l (js_sort by_score_desc g))))"

subsection \<open>Filters\<close>

datatype num_op = NGt rat | NGte rat | NLt rat | NLte rat | NEq rat | NBetween rat rat | NOther jsstring

text \<open>
  The value a filter gives for a property: a plain value, the operations of a number or enum field
  as the entries of an object, or one of the two geographic searches.
\<close>

datatype where_op =
    WBool bool
  | WStr jsstring
  | WStrs "jsstring list"
  | WNum "num_op list"
  | WFlat "jsval flat_op list"
  | WFlatArr "jsval flat_arr_op list"
  | WRadius rat point jsstring bool bool
  | WPolygon "point list" bool bool

definition where_truthy :: "where_op \<Rightarrow> bool" where
  "where_truthy w = (case w of WBool b \<Rightarrow> b | WStr s \<Rightarrow> s \<noteq> [] | _ \<Rightarrow> True)"

definition where_keys :: "where_op \<Rightarrow> nat" where
  "where_keys w =
     (case w of
        WBool b \<Rightarrow> 0 | WStr s \<Rightarrow> length s | WStrs ss \<Rightarrow> length ss | WNum ops \<Rightarrow> length ops | WFlat ops \<Rightarrow> length ops
      | WFlatArr ops \<Rightarrow> length ops | WRadius v c u i h \<Rightarrow> 1 | WPolygon c i h \<Rightarrow> 1)"

definition addGeoResult :: "nat list \<Rightarrow> (point \<times> nat list) list \<Rightarrow> nat list" where
  "addGeoResult e t = foldl (\<lambda>e (p, ds). set_add_all e ds) e t"

definition addFindResult :: "nat list \<Rightarrow> (jsstring, nat list) jsmap \<Rightarrow> nat list" where
  "addFindResult e t = foldl (\<lambda>e (w, ds). set_add_all e ds) e t"

definition where_geo :: "nat bkd_tree \<Rightarrow> where_op \<Rightarrow> nat list jsresult" where
  "where_geo a w =
     (case w of
        WRadius v c u inside precise \<Rightarrow>
          lift_err (convertDistanceToMeters v u) (\<lambda>m.
            Inr (addGeoResult [] (searchByRadius a (point_distance precise inside (of_rat m)) c (of_rat m) inside (Some Asc))))
      | WPolygon c inside precise \<Rightarrow>
          Inr (case searchByPolygon a (point_distance precise True 0) c inside None of None \<Rightarrow> [] | Some r \<Rightarrow> addGeoResult [] r)
      | WBool b \<Rightarrow> Inl TypeError
      | WStr s \<Rightarrow> Inl TypeError
      | _ \<Rightarrow> Inl (JsError (js ''Invalid operation'')))"

fun where_words :: "separators \<Rightarrow> jsstring option \<Rightarrow> jsstring \<Rightarrow> nat radix \<Rightarrow> jsstring list \<Rightarrow> tokenizer \<times> nat list \<Rightarrow> (tokenizer \<times> nat list) jsresult" where
  "where_words seps lang i a [] st = Inr st"
| "where_words seps lang i a (e # es) (tk, s) =
     lift_err (tokenize seps tk e lang (Some i) True) (\<lambda>(tk, ts).
       where_words seps lang i a es (tk, foldl (\<lambda>s t. addFindResult s (radix_find a t True 0)) s ts))"

definition where_num :: "(rat, nat) avl_tree \<Rightarrow> where_op \<Rightarrow> nat list jsresult" where
  "where_num a w =
     (case w of
        WNum [NGt t] \<Rightarrow> Inr (greaterThan a t False)
      | WNum [NGte t] \<Rightarrow> Inr (greaterThan a t True)
      | WNum [NLt t] \<Rightarrow> Inr (lessThan a t False)
      | WNum [NLte t] \<Rightarrow> Inr (lessThan a t True)
      | WNum [NEq t] \<Rightarrow> Inr (case avl_find a t of None \<Rightarrow> [] | Some v \<Rightarrow> v)
      | WNum [NBetween x y] \<Rightarrow> Inr (rangeSearch a x y)
      | _ \<Rightarrow> Inl (JsError (js ''INVALID_FILTER_OPERATION'')))"

definition where_enum :: "(jsval, nat) flat \<Rightarrow> bool \<Rightarrow> where_op \<Rightarrow> nat list jsresult" where
  "where_enum a arr w =
     (if arr then (case w of WFlatArr ops \<Rightarrow> flat_filterArr a ops | _ \<Rightarrow> Inl (JsError (js ''Invalid operation'')))
      else (case w of WFlat ops \<Rightarrow> flat_filter a ops | _ \<Rightarrow> Inl (JsError (js ''Invalid operation''))))"

definition where_property ::
    "separators \<Rightarrow> jsstring option \<Rightarrow> index \<Rightarrow> jsstring \<Rightarrow> where_op \<Rightarrow> tokenizer \<Rightarrow> (tokenizer \<times> nat list) jsresult" where
  "where_property seps lang e i w tk =
     (case map_get (indexes e) i of
        None \<Rightarrow> Inl (JsError (js ''UNKNOWN_FILTER_PROPERTY''))
      | Some fi \<Rightarrow>
          (let keep = lift_err (if where_keys w > 1 then Inl (JsError (js ''INVALID_FILTER_OPERATION'')) else Inr ())
           in case fi_node fi of
             NBool a \<Rightarrow> Inr (tk, set_union (Some []) (if where_truthy w then bn_true a else bn_false a))
           | NBKD a \<Rightarrow> lift_err (where_geo a w) (\<lambda>s. Inr (tk, s))
           | NRadix a \<Rightarrow>
               (case w of
                  WStr s \<Rightarrow> where_words seps lang i a [s] (tk, [])
                | WStrs ss \<Rightarrow> where_words seps lang i a ss (tk, [])
                | _ \<Rightarrow> keep (\<lambda>_. Inr (tk, [])))
           | NFlat a \<Rightarrow> keep (\<lambda>_. lift_err (where_enum a (fi_isArray fi) w) (\<lambda>s. Inr (tk, set_union (Some []) (set_new s))))
           | NAVL a \<Rightarrow> keep (\<lambda>_. lift_err (where_num a w) (\<lambda>s. Inr (tk, set_union (Some []) s)))
           | NPosition a \<Rightarrow> keep (\<lambda>_. Inr (tk, []))))"

fun where_sets ::
    "separators \<Rightarrow> jsstring option \<Rightarrow> index \<Rightarrow> (jsstring \<times> where_op) list \<Rightarrow> tokenizer \<Rightarrow> (tokenizer \<times> nat list list) jsresult" where
  "where_sets seps lang e [] tk = Inr (tk, [])"
| "where_sets seps lang e ((i, w) # ws) tk =
     lift_err (where_property seps lang e i w tk) (\<lambda>(tk, s).
     lift_err (where_sets seps lang e ws tk) (\<lambda>(tk, ss). Inr (tk, s # ss)))"

text \<open>The intersection of several sets, with the engine's own \<^verbatim>\<open>Set.intersection\<close> or without.\<close>

definition native_intersection :: "'a list \<Rightarrow> 'a list \<Rightarrow> 'a list" where
  "native_intersection t n =
     (if length t \<le> length n then filter (\<lambda>x. x \<in> set n) t else filter (\<lambda>x. x \<in> set t) n)"

definition smallest_index :: "'a list list \<Rightarrow> nat" where
  "smallest_index e =
     fst (foldl (\<lambda>(i, z) n. if length (e ! n) < z then (n, length (e ! n)) else (i, z)) (0, length (e ! 0)) [1..<length e])"

definition setIntersection :: "bool \<Rightarrow> 'a list list \<Rightarrow> 'a list" where
  "setIntersection native e =
     (case e of
        [] \<Rightarrow> []
      | [s] \<Rightarrow> s
      | [t, n] \<Rightarrow>
          if native then native_intersection t n
          else if length t < length n then set_add_all [] (filter (\<lambda>x. x \<in> set n) t)
          else set_add_all [] (filter (\<lambda>x. x \<in> set t) n)
      | _ \<Rightarrow>
          (let k = smallest_index e; others = map (\<lambda>r. e ! r) (filter (\<lambda>r. r \<noteq> k) [0..<length e])
           in foldl (\<lambda>n s. if native then native_intersection n s else filter (\<lambda>x. x \<in> set s) n) (e ! k) others))"

text \<open>The initial object is built by putting each key in front, so its values come in reverse order.\<close>

definition searchByWhereClause ::
    "separators \<Rightarrow> bool \<Rightarrow> jsstring option \<Rightarrow> index \<Rightarrow> (jsstring \<times> where_op) list \<Rightarrow> tokenizer \<Rightarrow> (tokenizer \<times> nat list) jsresult" where
  "searchByWhereClause seps native lang e ws tk =
     lift_err (where_sets seps lang e ws tk) (\<lambda>(tk, ss). Inr (tk, setIntersection native (rev ss)))"

subsection \<open>Serialisation\<close>

datatype field_json =
    JBoolNode "nat list \<times> nat list"
  | JAVLNode "(rat, nat) avl_json \<times> nat"
  | JRadixNode "nat radix_json"
  | JFlatNode "(jsval \<times> nat list) list"
  | JBKDNode "nat bkd_json"

record index_json =
  ij_indexes :: "(jsstring, field_json \<times> bool) jsmap"
  ij_vectors :: "(jsstring, nat \<times> (nat \<times> (real option \<times> vector)) list) jsmap"
  ij_rest :: index

definition node_save :: "node \<Rightarrow> field_json jsresult" where
  "node_save x =
     (case x of
        NBool a \<Rightarrow> Inr (JBoolNode (bool_toJSON a))
      | NAVL a \<Rightarrow> Inr (JAVLNode (avl_toJSON a))
      | NRadix a \<Rightarrow> Inr (JRadixNode (radix_toJSON a))
      | NFlat a \<Rightarrow> Inr (JFlatNode (flat_toJSON a))
      | NBKD a \<Rightarrow> Inr (JBKDNode (bkd_toJSON a))
      | NPosition a \<Rightarrow> Inl TypeError)"

definition node_load :: "field_json \<Rightarrow> node jsresult" where
  "node_load x =
     (case x of
        JBoolNode a \<Rightarrow> Inr (NBool (bool_fromJSON a))
      | JAVLNode a \<Rightarrow> Inr (NAVL (avl_fromJSON (apsnd Some a)))
      | JRadixNode a \<Rightarrow> Inr (NRadix (radix_fromJSON a))
      | JFlatNode a \<Rightarrow> lift_err (flat_fromJSON (Some a)) (\<lambda>f. Inr (NFlat f))
      | JBKDNode a \<Rightarrow> Inr (NBKD (bkd_fromJSON a)))"

fun save_nodes :: "(jsstring, field_index) jsmap \<Rightarrow> (jsstring, field_json \<times> bool) jsmap jsresult" where
  "save_nodes [] = Inr []"
| "save_nodes ((k, fi) # m) =
     lift_err (node_save (fi_node fi)) (\<lambda>j. lift_err (save_nodes m) (\<lambda>js. Inr ((k, (j, fi_isArray fi)) # js)))"

fun load_nodes :: "(jsstring, field_json \<times> bool) jsmap \<Rightarrow> (jsstring, field_index) jsmap jsresult" where
  "load_nodes [] = Inr []"
| "load_nodes ((k, (j, arr)) # m) =
     lift_err (node_load j) (\<lambda>x. lift_err (load_nodes m) (\<lambda>fs. Inr ((k, \<lparr>fi_node = x, fi_isArray = arr\<rparr>) # fs)))"

definition index_save :: "index \<Rightarrow> index_json jsresult" where
  "index_save e =
     lift_err (save_nodes (indexes e)) (\<lambda>u.
       Inr \<lparr>ij_indexes = u, ij_vectors = map (\<lambda>(k, v). (k, vec_toJSON v)) (vectorIndexes e), ij_rest = e\<lparr>indexes := [], vectorIndexes := []\<rparr>\<rparr>)"

definition index_load :: "index_json \<Rightarrow> index jsresult" where
  "index_load t =
     lift_err (load_nodes (ij_indexes t)) (\<lambda>u.
       Inr ((ij_rest t)\<lparr>indexes := u, vectorIndexes := map (\<lambda>(k, v). (k, vec_fromJSON v)) (ij_vectors t)\<rparr>))"

end
