(* ===== verification/Orama_Index_Inv.thy ===== *)
theory Orama_Index_Inv
  imports Orama_Index
begin

text \<open>
  The invariant of the document index and what its operations do to the documents each field holds
  under each key: creation from a schema gives an empty index, inserting a value adds the document
  under the value's keys only, and removing it takes it from them only.
\<close>

subsection \<open>Invariant and abstraction\<close>

text \<open>What a field is looked up by, and the documents a field index holds under it.\<close>

datatype key = KBool bool | KNum rat | KWord jsstring | KVal jsval | KPoint point

fun field_docs :: "node \<Rightarrow> key \<Rightarrow> nat set" where
  "field_docs (NBool a) (KBool b) = bool_docs a b"
| "field_docs (NAVL a) (KNum k) = avl_docs a k"
| "field_docs (NRadix a) (KWord w) = radix_docs a w"
| "field_docs (NFlat a) (KVal v) = flat_docs a v"
| "field_docs (NBKD a) (KPoint q) = bkd_docs a q"
| "field_docs _ _ = {}"

fun field_inv :: "node \<Rightarrow> bool" where
  "field_inv (NBool a) = bool_inv a"
| "field_inv (NAVL a) = avl_inv a"
| "field_inv (NRadix a) = (radix_ok a \<and> rw a = [])"
| "field_inv (NFlat a) = flat_inv a"
| "field_inv (NBKD a) = bkd_inv a"
| "field_inv (NPosition a) = True"

definition tables_ok :: "index \<Rightarrow> jsstring \<Rightarrow> bool" where
  "tables_ok t n =
     (map_get (frequencies t) n \<noteq> None \<and> map_get (tokenOccurrences t) n \<noteq> None \<and> map_get (fieldLengths t) n \<noteq> None)"

definition index_inv :: "index \<Rightarrow> bool" where
  "index_inv t =
     (wf_map (indexes t) \<and> wf_map (vectorIndexes t) \<and>
      (\<forall>n x. node_of t n = Some x \<longrightarrow> field_inv x) \<and>
      (\<forall>n u. node_of t n = Some (NRadix u) \<longrightarrow> tables_ok t n) \<and>
      (\<forall>n u. map_get (vectorIndexes t) n = Some u \<longrightarrow> vec_inv u))"

lemma index_invI:
  assumes "wf_map (indexes t)" "wf_map (vectorIndexes t)"
    and "\<And>n x. node_of t n = Some x \<Longrightarrow> field_inv x"
    and "\<And>n u. node_of t n = Some (NRadix u) \<Longrightarrow> tables_ok t n"
    and "\<And>n u. map_get (vectorIndexes t) n = Some u \<Longrightarrow> vec_inv u"
  shows "index_inv t"
  unfolding index_inv_def using assms by blast

lemma index_invD:
  assumes "index_inv t"
  shows "wf_map (indexes t)" "wf_map (vectorIndexes t)" "node_of t n = Some x \<Longrightarrow> field_inv x"
    "node_of t n = Some (NRadix u) \<Longrightarrow> tables_ok t n" "map_get (vectorIndexes t) n = Some v \<Longrightarrow> vec_inv v"
  using assms unfolding index_inv_def by blast+

text \<open>Everything but the index of one field and the score tables.\<close>

definition only_field :: "jsstring \<Rightarrow> index \<Rightarrow> index \<Rightarrow> bool" where
  "only_field n t t' =
     ((\<forall>m. m \<noteq> n \<longrightarrow> node_of t' m = node_of t m) \<and> (node_of t' n = None) = (node_of t n = None) \<and>
      vectorIndexes t' = vectorIndexes t \<and>
      searchableProperties t' = searchableProperties t \<and> searchablePropertiesWithTypes t' = searchablePropertiesWithTypes t \<and>
      (\<forall>m. tables_ok t m \<longrightarrow> tables_ok t' m) \<and> (wf_map (indexes t) \<longrightarrow> wf_map (indexes t')))"

lemma only_field_refl [simp]: "only_field n t t"
  by (simp add: only_field_def)

lemma only_field_trans: "only_field n a b \<Longrightarrow> only_field n b c \<Longrightarrow> only_field n a c"
  by (auto simp: only_field_def)

lemma node_of_put [simp]: "node_of t n = Some y \<Longrightarrow> node_of (put_node n x t) m = (if m = n then Some x else node_of t m)"
  by (auto simp: node_of_def put_node_def split: option.splits)

lemma tables_ok_put [simp]: "tables_ok (put_node n x t) m = tables_ok t m"
  by (simp add: tables_ok_def put_node_def split: option.split)

lemma only_field_put: "node_of t n = Some y \<Longrightarrow> only_field n t (put_node n x t)"
  unfolding only_field_def tables_ok_put
  by (intro conjI) (simp_all, simp_all add: put_node_def split: option.split)

lemma index_inv_only_field:
  assumes "index_inv t" "only_field n t t'" "node_of t' n = Some x" "field_inv x"
    and "\<And>u. x = NRadix u \<Longrightarrow> tables_ok t n"
  shows "index_inv t'"
proof (rule index_invI)
  note f = assms(2) [unfolded only_field_def]
  have other: "node_of t' m = node_of t m" if "m \<noteq> n" for m
    using f that by blast
  show "wf_map (indexes t')" "wf_map (vectorIndexes t')"
    using f index_invD(1,2) [OF assms(1)] by auto
  show "field_inv y" if y: "node_of t' m = Some y" for m y
  proof (cases "m = n")
    case True
    with y assms(3,4) show ?thesis
      by simp
  next
    case False
    with y other index_invD(3) [OF assms(1)] show ?thesis
      by simp
  qed
  show "tables_ok t' m" if y: "node_of t' m = Some (NRadix u)" for m u
  proof -
    have "tables_ok t m"
    proof (cases "m = n")
      case True
      with y assms(3,5) show ?thesis
        by simp
    next
      case False
      with y other index_invD(4) [OF assms(1)] show ?thesis
        by simp
    qed
    with f show ?thesis
      by blast
  qed
  show "vec_inv u" if "map_get (vectorIndexes t') m = Some u" for m u
    using that f index_invD(5) [OF assms(1)] by simp
qed

subsection \<open>Creation\<close>

lemma index_inv_empty: "index_inv index_empty"
  by (simp add: index_inv_def index_empty_def node_of_def)

lemma empty_node_cases:
  "empty_node (NRadix radix_root) i = Some x \<Longrightarrow>
   x \<in> {NBool bool_new, NAVL (avl_new (Some (0, []))), NRadix radix_root, NFlat flat_new, NBKD bkd_new}"
  by (auto simp: empty_node_def split: if_splits)

lemma empty_field_inv:
  "field_inv (NBool bool_new)" "field_inv (NAVL (avl_new (Some (0, []))))" "field_inv (NRadix radix_root)"
  "field_inv (NFlat flat_new)" "field_inv (NBKD bkd_new)"
  by (simp_all add: avl_inv_new radix_ok_root flat_inv_new bkd_inv_new) (simp_all add: bool_inv_def bool_new_def radix_root_def)

lemma empty_docs:
  "radix_docs radix_root w = {}" "flat_docs flat_new v = {}" "bkd_docs bkd_new q = {}" "bool_docs bool_new b = {}"
  "avl_docs (avl_new (Some (0, []))) y = {}"
  using radix_docs_of [of "[]" w] flat_docs_of [of "[]" v] bkd_docs_of [of "[]" q]
  by (simp_all add: radix_of_def flat_of_def bkd_of_def bool_docs_def bool_new_def avl_docs_new)

lemma empty_field_docs:
  "field_docs (NBool bool_new) k = {}" "field_docs (NAVL (avl_new (Some (0, [])))) k = {}"
  "field_docs (NRadix radix_root) k = {}" "field_docs (NFlat flat_new) k = {}" "field_docs (NBKD bkd_new) k = {}"
  by (cases k; simp add: empty_docs)+

lemma empty_node_inv: "empty_node (NRadix radix_root) i = Some x \<Longrightarrow> field_inv x \<and> field_docs x k = {}"
  using empty_node_cases [of i x] empty_field_inv empty_field_docs by auto

lemma empty_node_radix: "empty_node (NRadix radix_root) i = Some (NRadix u) \<Longrightarrow> i \<in> {js ''string'', js ''string[]''}"
  by (auto simp: empty_node_def split: if_splits)

lemma tables_ok_score_tables: "tables_ok (score_tables n r) m = (m = n \<or> tables_ok r m)"
  by (auto simp: tables_ok_def score_tables_def)

lemma index_inv_vectors:
  "index_inv t \<Longrightarrow> vec_inv u \<Longrightarrow> index_inv (t\<lparr>vectorIndexes := map_set n u (vectorIndexes t)\<rparr>)"
  using index_invD [of t] by (intro index_invI) (auto simp: node_of_def tables_ok_def split: if_splits)

lemma index_inv_add_searchable: "index_inv t \<Longrightarrow> index_inv (add_searchable n i t)"
  unfolding index_inv_def by (simp add: node_of_def tables_ok_def add_searchable_def)

lemma index_inv_create_field:
  assumes "create_field n i r = Inr r'" "index_inv r"
  shows "index_inv r'"
proof (cases "isVectorType i")
  case True
  with assms obtain z where "r' = (add_searchable n i r)\<lparr>vectorIndexes := map_set n (vec_new z) (vectorIndexes (add_searchable n i r))\<rparr>"
    by (cases "getVectorSize i") (auto simp: create_field_def Let_def)
  with index_inv_vectors [OF index_inv_add_searchable [OF assms(2)] vec_inv_new] show ?thesis
    by simp
next
  case False
  then obtain x where x: "empty_node (NRadix radix_root) i = Some x"
    using assms(1) by (auto simp: create_field_def split: option.splits)
  define b where "b = (i \<in> {js ''string'', js ''string[]''})"
  have r': "r' = add_searchable n i (let s = set_node n x (has_bracket i) r in if b then score_tables n s else s)"
    using assms(1) False x by (simp add: create_field_def Let_def b_def)
  note defs = add_searchable_def score_tables_def set_node_def Let_def
  have node: "node_of r' m = (if m = n then Some x else node_of r m)" for m
    unfolding r' by (cases b) (simp_all add: defs node_of_def)
  have tables: "tables_ok r' m" if "tables_ok r m \<or> m = n \<and> b" for m
    using that unfolding r' by (cases b) (auto simp: defs tables_ok_def)
  have maps: "wf_map (indexes r')" "vectorIndexes r' = vectorIndexes r"
    using assms(2) unfolding r' index_inv_def by (cases b; simp add: defs)+
  show ?thesis
  proof (rule index_invI)
    show "wf_map (indexes r')" "wf_map (vectorIndexes r')"
      using maps index_invD(2) [OF assms(2)] by simp_all
    show "field_inv y" if "node_of r' m = Some y" for m y
      using that empty_node_inv [OF x] index_invD(3) [OF assms(2), of m y] unfolding node by (cases "m = n") simp_all
    show "tables_ok r' m" if y: "node_of r' m = Some (NRadix u)" for m u
    proof (rule tables, cases "m = n")
      case True
      have "x = NRadix u"
        using y True unfolding node by simp
      with x empty_node_radix [of i u] True show "tables_ok r m \<or> m = n \<and> b"
        by (simp add: b_def)
    next
      case False
      with y index_invD(4) [OF assms(2), of m u] show "tables_ok r m \<or> m = n \<and> b"
        unfolding node by simp
    qed
    show "vec_inv u" if "map_get (vectorIndexes r') m = Some u" for m u
      using that index_invD(5) [OF assms(2), of m u] unfolding maps(2) by simp
  qed
qed

lemma index_inv_create: "index_create kvs r p = Inr r' \<Longrightarrow> index_inv r \<Longrightarrow> index_inv r'"
proof (induction kvs r p arbitrary: r' rule: index_create.induct)
  case (2 s i rest r p)
  then obtain r1 where "create_field (prop_path p s) i r = Inr r1" "index_create rest r1 p = Inr r'"
    by (cases "create_field (prop_path p s) i r") auto
  with 2 index_inv_create_field show ?case
    by blast
next
  case (3 s i rest r p)
  then obtain r1 where "index_create i r (prop_path p s) = Inr r1" "index_create rest r1 p = Inr r'"
    by (cases "index_create i r (prop_path p s)") auto
  with 3 show ?case
    by blast
qed simp

subsection \<open>Insertion\<close>

lemma normalizeToken_uncached: "normalizeToken self e t False = (self, normalize_fresh self e t)"
  by (simp add: normalizeToken_def Let_def)

lemma normalize_all_uncached: "normalize_all self e ts False = (self, map (normalize_fresh self e) ts)"
  by (induction ts) (simp_all add: normalizeToken_uncached)

definition lang_ok :: "tokenizer \<Rightarrow> jsstring option \<Rightarrow> bool" where
  "lang_ok tk lang = (lang = None \<or> lang = Some [] \<or> lang = Some (language tk))"

lemma tokenize_uncached:
  assumes "lang_ok tk lang"
  shows "tokenize seps tk e lang (Some n) False = Inr (tk, fresh_tokens seps tk n e)"
proof -
  have lang: "\<not> (case lang of None \<Rightarrow> False | Some l \<Rightarrow> l \<noteq> [] \<and> l \<noteq> language tk)"
    using assms by (auto simp: lang_ok_def)
  show ?thesis
    unfolding tokenize_def if_not_P [OF lang] fresh_tokens_def normalizeToken_uncached normalize_all_uncached Let_def
      option.case prod.case
    by (cases "n \<noteq> [] \<and> n \<in> set (tokenizeSkipProperties tk)") (auto simp: trim_empty_single trim_empty_filter)
qed

definition freq_row :: "index \<Rightarrow> jsstring \<Rightarrow> nat \<Rightarrow> bool" where
  "freq_row t n r = (\<exists>fr f. map_get (frequencies t) n = Some fr \<and> map_get fr r = Some (Some f))"

lemma insertTokenScoreParameters_ok:
  assumes "tables_ok t n" "freq_row t n r" "r \<le> length (internalIdToId ids)"
  shows "\<exists>t'. insertTokenScoreParameters ids t n (IdNumber r) a w = Inr (ids, t') \<and> node_of t' = node_of t \<and>
    only_field n t t' \<and> tables_ok t' n \<and> freq_row t' n r"
proof -
  obtain fr f occ where t: "map_get (frequencies t) n = Some fr" "map_get fr r = Some (Some f)"
    "map_get (tokenOccurrences t) n = Some occ"
    using assms(1,2) by (auto simp: tables_ok_def freq_row_def)
  show ?thesis
    using assms(1,3) t
    by (auto simp: insertTokenScoreParameters_def Let_def only_field_def tables_ok_def freq_row_def node_of_def fun_eq_iff)
qed

lemma radix_put_node:
  assumes "node_of t n = Some (NRadix u)"
  shows "node_of (radix_put n w r t) n = Some (NRadix (radix_insert w r u))" "only_field n t (radix_put n w r t)"
    "tables_ok (radix_put n w r t) m = tables_ok t m" "freq_row (radix_put n w r t) m d = freq_row t m d"
  using assms only_field_put [OF assms]
  by (simp_all add: radix_put_def) (simp add: freq_row_def put_node_def split: option.split)

lemma insert_tokens_ok:
  assumes "tables_ok t n" "freq_row t n r" "r \<le> length (internalIdToId ids)" "node_of t n = Some (NRadix u)"
  shows "\<exists>t'. insert_tokens ids t n r a ws = Inr (ids, t') \<and> only_field n t t' \<and>
    node_of t' n = Some (NRadix (foldl (\<lambda>u (w, d). radix_insert w d u) u (map (\<lambda>w. (w, r)) ws)))"
  using assms
proof (induction ws arbitrary: t u)
  case (Cons w ws)
  obtain t1 where t1: "insertTokenScoreParameters ids t n (IdNumber r) a w = Inr (ids, t1)" "node_of t1 = node_of t"
    "only_field n t t1" "tables_ok t1 n" "freq_row t1 n r"
    using insertTokenScoreParameters_ok [OF Cons.prems(1-3)] by blast
  have n1: "node_of t1 n = Some (NRadix u)"
    using t1(2) Cons.prems(4) by simp
  note p = radix_put_node [OF n1, of w r]
  obtain t' where t': "insert_tokens ids (radix_put n w r t1) n r a ws = Inr (ids, t')" "only_field n (radix_put n w r t1) t'"
    "node_of t' n = Some (NRadix (foldl (\<lambda>u (w, d). radix_insert w d u) (radix_insert w r u) (map (\<lambda>w. (w, r)) ws)))"
    using Cons.IH [of "radix_put n w r t1" "radix_insert w r u"] p t1(4,5) Cons.prems(3) by blast
  show ?case
    using t1(1) t' only_field_trans [OF only_field_trans [OF t1(3) p(2)] t'(2)] by simp
qed simp

lemma insertDocumentScoreParameters_ok:
  assumes "tables_ok t n" "r \<le> length (internalIdToId ids)"
  shows "\<exists>t'. insertDocumentScoreParameters ids t n (IdNumber r) a cnt = Inr (ids, t') \<and> node_of t' = node_of t \<and>
    only_field n t t' \<and> tables_ok t' n \<and> freq_row t' n r"
proof -
  obtain fl fr where t: "map_get (fieldLengths t) n = Some fl" "map_get (frequencies t) n = Some fr"
    using assms(1) by (auto simp: tables_ok_def)
  show ?thesis
    using assms t
    by (auto simp: insertDocumentScoreParameters_def Let_def only_field_def tables_ok_def freq_row_def node_of_def fun_eq_iff)
qed

text \<open>The keys under which a value is found in a field.\<close>

definition value_keys :: "separators \<Rightarrow> tokenizer \<Rightarrow> jsstring \<Rightarrow> node \<Rightarrow> jsval \<Rightarrow> key set" where
  "value_keys seps tk n x v =
     (case x of
        NBool a \<Rightarrow> {KBool (js_truthy v)}
      | NAVL a \<Rightarrow> (case v of JNum k \<Rightarrow> {KNum k} | _ \<Rightarrow> {})
      | NRadix a \<Rightarrow> (case v of JStr s \<Rightarrow> KWord ` set (fresh_tokens seps tk n s) | _ \<Rightarrow> {})
      | NFlat a \<Rightarrow> {KVal v}
      | NBKD a \<Rightarrow> (case as_point v of Some q \<Rightarrow> {KPoint q} | None \<Rightarrow> {})
      | NPosition a \<Rightarrow> {})"

fun same_kind :: "node \<Rightarrow> node \<Rightarrow> bool" where
  "same_kind (NBool _) (NBool _) = True"
| "same_kind (NAVL _) (NAVL _) = True"
| "same_kind (NRadix _) (NRadix _) = True"
| "same_kind (NFlat _) (NFlat _) = True"
| "same_kind (NBKD _) (NBKD _) = True"
| "same_kind (NPosition _) (NPosition _) = True"
| "same_kind _ _ = False"

lemma value_keys_kind: "same_kind x y \<Longrightarrow> value_keys seps tk n y v = value_keys seps tk n x v"
  by (cases x; cases y) (simp_all add: value_keys_def)

lemma same_kind_refl [simp]: "same_kind x x"
  by (cases x) simp_all

lemma same_kind_trans: "same_kind x y \<Longrightarrow> same_kind y z \<Longrightarrow> same_kind x z"
  by (cases x; cases y; cases z) simp_all

definition adds_doc :: "jsstring \<Rightarrow> nat \<Rightarrow> key set \<Rightarrow> index \<Rightarrow> index \<Rightarrow> bool" where
  "adds_doc n d ks t t' =
     (index_inv t' \<and> only_field n t t' \<and>
      (\<exists>x y. node_of t n = Some x \<and> node_of t' n = Some y \<and> same_kind x y \<and>
         (\<forall>k. field_docs y k = field_docs x k \<union> (if k \<in> ks then {d} else {}))))"

lemma adds_doc_put:
  assumes "index_inv t" "node_of t n = Some x" "same_kind x y" "field_inv y"
    and "\<And>k. field_docs y k = field_docs x k \<union> (if k \<in> ks then {d} else {})"
  shows "adds_doc n d ks t (put_node n y t)"
  unfolding adds_doc_def
proof (intro conjI exI)
  show only: "only_field n t (put_node n y t)"
    by (rule only_field_put [OF assms(2)])
  show "index_inv (put_node n y t)"
  proof (rule index_inv_only_field [OF assms(1) only _ assms(4)])
    show "node_of (put_node n y t) n = Some y"
      using assms(2) by simp
    show "tables_ok t n" if "y = NRadix u" for u
      using that assms(1-3) index_invD(4) [OF assms(1)] by (cases x) auto
  qed
  show "node_of t n = Some x" "node_of (put_node n y t) n = Some y" "same_kind x y"
    using assms by simp_all
  show "\<forall>k. field_docs y k = field_docs x k \<union> (if k \<in> ks then {d} else {})"
    using assms(5) by blast
qed

lemma adds_doc_none: "index_inv t \<Longrightarrow> node_of t n = Some x \<Longrightarrow> adds_doc n d {} t t"
  by (auto simp: adds_doc_def)

lemma field_docs_bool:
  "field_docs (NBool (bool_insert d b a)) k = field_docs (NBool a) k \<union> (if k \<in> {KBool b} then {d} else {})"
  by (cases k) (auto simp: bool_docs_def bool_insert_def)

lemma field_docs_avl:
  "avl_inv a \<Longrightarrow> field_docs (NAVL (avl_insert q d z a)) k = field_docs (NAVL a) k \<union> (if k \<in> {KNum q} then {d} else {})"
  by (cases k) (auto simp: avl.docs_ins)

lemma field_docs_flat:
  "flat_inv a \<Longrightarrow> field_docs (NFlat (flat_insert v d a)) k = field_docs (NFlat a) k \<union> (if k \<in> {KVal v} then {d} else {})"
  by (cases k) (auto simp: flat.docs_ins)

lemma field_docs_bkd:
  "bkd_inv a \<Longrightarrow> field_docs (NBKD (bkd_insert q [d] a)) k = field_docs (NBKD a) k \<union> (if k \<in> {KPoint q} then {d} else {})"
  by (cases k) (auto simp: bkd.docs_ins)

lemma field_docs_radix:
  "radix_ok a \<Longrightarrow> field_docs (NRadix (foldl (\<lambda>u (w, d). radix_insert w d u) a (map (\<lambda>w. (w, d)) ws))) k =
     field_docs (NRadix a) k \<union> (if k \<in> KWord ` set ws then {d} else {})"
  by (cases k) (auto simp: radix.docs_ins_all)

lemma rw_foldl_insert: "rw (foldl (\<lambda>u (w, d). radix_insert w d u) a ps) = rw a"
  by (induction ps arbitrary: a) auto

lemma insert_scalar_radix:
  assumes inv: "index_inv t" and x: "node_of t n = Some (NRadix a)" and lang: "lang_ok tk lang"
    and d: "d \<le> length (internalIdToId ids)"
  shows "\<exists>t'. insert_scalar seps tk lang cnt thr n d (JStr s) (ids, t) = Inr (ids, t') \<and>
    adds_doc n d (KWord ` set (fresh_tokens seps tk n s)) t t'"
proof -
  let ?ws = "fresh_tokens seps tk n s"
  let ?y = "foldl (\<lambda>u (w, d). radix_insert w d u) a (map (\<lambda>w. (w, d)) ?ws)"
  have tab: "tables_ok t n" and ok: "radix_ok a" "rw a = []"
    using index_invD(3) [OF inv x] index_invD(4) [OF inv x] by simp_all
  obtain t1 where t1: "insertDocumentScoreParameters ids t n (IdNumber d) ?ws cnt = Inr (ids, t1)" "node_of t1 = node_of t"
    "only_field n t t1" "tables_ok t1 n" "freq_row t1 n d"
    using insertDocumentScoreParameters_ok [OF tab d] by blast
  obtain t' where t': "insert_tokens ids t1 n d ?ws ?ws = Inr (ids, t')" "only_field n t1 t'" "node_of t' n = Some (NRadix ?y)"
    using insert_tokens_ok [OF t1(4,5) d, of a ?ws ?ws] t1(2) x by auto
  have run: "insert_scalar seps tk lang cnt thr n d (JStr s) (ids, t) = Inr (ids, t')"
    by (simp add: insert_scalar_def x tokenize_uncached [OF lang] t1(1) t'(1))
  have only: "only_field n t t'"
    by (rule only_field_trans [OF t1(3) t'(2)])
  have "index_inv t'"
  proof (rule index_inv_only_field [OF inv only t'(3)])
    show "field_inv (NRadix ?y)"
      using ok radix.inv_ins_all [OF ok(1)] by (simp add: rw_foldl_insert)
  qed (rule tab)
  then show ?thesis
    using run only x t'(3) field_docs_radix [OF ok(1), of d ?ws] unfolding adds_doc_def by fastforce
qed

lemma insert_scalar_adds:
  assumes inv: "index_inv t" and x: "node_of t n = Some x" and lang: "lang_ok tk lang"
    and d: "d \<le> length (internalIdToId ids)"
  shows "\<exists>t'. insert_scalar seps tk lang cnt thr n d v (ids, t) = Inr (ids, t') \<and> adds_doc n d (value_keys seps tk n x v) t t'"
proof -
  note fi = index_invD(3) [OF inv x]
  show ?thesis
  proof (cases x)
    case (NBool a)
    have "adds_doc n d (value_keys seps tk n x v) t (put_node n (NBool (bool_insert d (js_truthy v) a)) t)"
      by (rule adds_doc_put [OF inv x])
        (use fi NBool in \<open>simp_all add: value_keys_def field_docs_bool del: field_docs.simps\<close>, simp add: boolean.inv_ins)
    then show ?thesis
      using NBool x by (simp add: insert_scalar_def)
  next
    case (NAVL a)
    let ?z = "Some (case thr of None \<Rightarrow> 1 | Some z \<Rightarrow> z)"
    show ?thesis
    proof (cases "\<exists>k. v = JNum k")
      case True
      then obtain k where v: "v = JNum k" ..
      have "adds_doc n d (value_keys seps tk n x v) t (put_node n (NAVL (avl_insert k d ?z a)) t)"
        by (rule adds_doc_put [OF inv x])
          (use fi NAVL v in \<open>simp_all add: value_keys_def field_docs_avl del: field_docs.simps\<close>, simp add: avl.inv_ins)
      then show ?thesis
        using NAVL x v by (simp add: insert_scalar_def)
    next
      case False
      then have "value_keys seps tk n x v = {}" "insert_scalar seps tk lang cnt thr n d v (ids, t) = Inr (ids, t)"
        using NAVL x by (simp_all add: value_keys_def insert_scalar_def split: jsval.split)
      then show ?thesis
        using adds_doc_none [OF inv x] by simp
    qed
  next
    case (NRadix a)
    show ?thesis
    proof (cases "\<exists>s. v = JStr s")
      case True
      then obtain s where v: "v = JStr s" ..
      then show ?thesis
        using insert_scalar_radix [OF inv x [unfolded NRadix] lang d] by (simp add: value_keys_def NRadix)
    next
      case False
      then have "value_keys seps tk n x v = {}" "insert_scalar seps tk lang cnt thr n d v (ids, t) = Inr (ids, t)"
        using NRadix x by (simp_all add: value_keys_def insert_scalar_def split: jsval.split)
      then show ?thesis
        using adds_doc_none [OF inv x] by simp
    qed
  next
    case (NFlat a)
    have "adds_doc n d (value_keys seps tk n x v) t (put_node n (NFlat (flat_insert v d a)) t)"
      by (rule adds_doc_put [OF inv x])
        (use fi NFlat in \<open>simp_all add: value_keys_def field_docs_flat del: field_docs.simps\<close>, simp add: flat.inv_ins)
    then show ?thesis
      using NFlat x by (simp add: insert_scalar_def)
  next
    case (NBKD a)
    show ?thesis
    proof (cases "as_point v")
      case None
      then show ?thesis
        using NBKD x adds_doc_none [OF inv x] by (simp add: value_keys_def insert_scalar_def)
    next
      case (Some q)
      have "adds_doc n d (value_keys seps tk n x v) t (put_node n (NBKD (bkd_insert q [d] a)) t)"
        by (rule adds_doc_put [OF inv x])
          (use fi NBKD Some in \<open>simp_all add: value_keys_def field_docs_bkd del: field_docs.simps\<close>, simp add: bkd.inv_ins)
      then show ?thesis
        using NBKD x Some by (simp add: insert_scalar_def)
    qed
  next
    case (NPosition a)
    then show ?thesis
      using x adds_doc_none [OF inv x] by (simp add: insert_scalar_def value_keys_def)
  qed
qed

lemma adds_doc_trans:
  assumes "adds_doc n d ks t t1" "adds_doc n d ls t1 t2"
  shows "adds_doc n d (ks \<union> ls) t t2"
proof -
  obtain x y where 1: "node_of t n = Some x" "node_of t1 n = Some y" "same_kind x y"
    "\<forall>k. field_docs y k = field_docs x k \<union> (if k \<in> ks then {d} else {})" "only_field n t t1"
    using assms(1) unfolding adds_doc_def by blast
  obtain z where 2: "node_of t2 n = Some z" "same_kind y z"
    "\<forall>k. field_docs z k = field_docs y k \<union> (if k \<in> ls then {d} else {})" "only_field n t1 t2" "index_inv t2"
    using assms(2) 1(2) unfolding adds_doc_def by auto
  have "\<forall>k. field_docs z k = field_docs x k \<union> (if k \<in> ks \<union> ls then {d} else {})"
    using 1(4) 2(3) by simp
  then show ?thesis
    unfolding adds_doc_def
    using 1(1) 2(1,5) same_kind_trans [OF 1(3) 2(2)] only_field_trans [OF 1(5) 2(4)] by blast
qed

lemma insert_each_adds:
  assumes "index_inv t" "node_of t n = Some x" "lang_ok tk lang" "d \<le> length (internalIdToId ids)"
  shows "\<exists>t'. insert_each (map (insert_scalar seps tk lang cnt thr n d) vs) (ids, t) = Inr (ids, t') \<and>
    adds_doc n d (\<Union>v \<in> set vs. value_keys seps tk n x v) t t'"
  using assms(1,2)
proof (induction vs arbitrary: t x)
  case Nil
  then show ?case
    using adds_doc_none by simp
next
  case (Cons v vs)
  obtain t1 where t1: "insert_scalar seps tk lang cnt thr n d v (ids, t) = Inr (ids, t1)"
    "adds_doc n d (value_keys seps tk n x v) t t1"
    using insert_scalar_adds [OF Cons.prems assms(3,4)] by blast
  obtain y where y: "node_of t1 n = Some y" "same_kind x y" "index_inv t1"
    using t1(2) Cons.prems(2) unfolding adds_doc_def by auto
  obtain t2 where t2: "insert_each (map (insert_scalar seps tk lang cnt thr n d) vs) (ids, t1) = Inr (ids, t2)"
    "adds_doc n d (\<Union>v \<in> set vs. value_keys seps tk n y v) t1 t2"
    using Cons.IH [OF y(3,1)] by blast
  show ?case
    using t1(1) t2(1) adds_doc_trans [OF t1(2) t2(2)] value_keys_kind [OF y(2)] by simp
qed

subsection \<open>Removal\<close>

definition drops_doc :: "jsstring \<Rightarrow> nat \<Rightarrow> key set \<Rightarrow> index \<Rightarrow> index \<Rightarrow> bool" where
  "drops_doc n d ks t t' =
     (index_inv t' \<and> only_field n t t' \<and>
      (\<exists>x y. node_of t n = Some x \<and> node_of t' n = Some y \<and> same_kind x y \<and>
         (\<forall>k. field_docs y k = field_docs x k - (if k \<in> ks then {d} else {}))))"

lemma radix_drop_word:
  assumes "radix_ok a" "rw a = []"
  shows "radix_ok (fst (radix_removeDocumentByWord w d True a))" "rw (fst (radix_removeDocumentByWord w d True a)) = []"
    "w \<noteq> [] \<Longrightarrow> radix_docs (fst (radix_removeDocumentByWord w d True a)) v = radix_docs a v - (if v = w then {d} else {})"
  using radix_removeByWord_spec [OF assms(1), of w w d] assms
  by (auto simp: radix_removeDocumentByWord_def radix_docs_def split: option.splits)

lemma removeTokenScoreParameters_ok:
  assumes "tables_ok t n"
  shows "\<exists>t'. removeTokenScoreParameters t n w = Inr t' \<and> node_of t' = node_of t \<and> only_field n t t' \<and> tables_ok t' n"
  using assms
  by (auto simp: removeTokenScoreParameters_def tables_ok_def only_field_def node_of_def fun_eq_iff Let_def)

lemma removeDocumentScoreParameters_ok:
  assumes "tables_ok t n"
  shows "\<exists>ids' t'. removeDocumentScoreParameters ids t n i cnt = Inr (ids', t') \<and> node_of t' = node_of t \<and>
    only_field n t t' \<and> tables_ok t' n"
  using assms
  by (auto simp: removeDocumentScoreParameters_def tables_ok_def only_field_def node_of_def fun_eq_iff Let_def split: prod.split)

lemma remove_tokens_ok:
  assumes "tables_ok t n" "node_of t n = Some (NRadix u)"
  shows "\<exists>t'. remove_tokens t n d ws = Inr t' \<and> only_field n t t' \<and>
    node_of t' n = Some (NRadix (foldl (\<lambda>u w. fst (radix_removeDocumentByWord w d True u)) u ws))"
  using assms
proof (induction ws arbitrary: t u)
  case (Cons w ws)
  obtain t1 where t1: "removeTokenScoreParameters t n w = Inr t1" "node_of t1 = node_of t" "only_field n t t1" "tables_ok t1 n"
    using removeTokenScoreParameters_ok [OF Cons.prems(1)] by blast
  let ?u = "fst (radix_removeDocumentByWord w d True u)"
  have n1: "node_of t1 n = Some (NRadix u)"
    using t1(2) Cons.prems(2) by simp
  have p: "radix_drop n w d t1 = put_node n (NRadix ?u) t1"
    by (simp add: radix_drop_def n1)
  have p': "node_of (radix_drop n w d t1) n = Some (NRadix ?u)" "tables_ok (radix_drop n w d t1) n" "only_field n t1 (radix_drop n w d t1)"
    unfolding p using n1 t1(4) only_field_put [OF n1] by simp_all
  obtain t' where t': "remove_tokens (radix_drop n w d t1) n d ws = Inr t'" "only_field n (radix_drop n w d t1) t'"
    "node_of t' n = Some (NRadix (foldl (\<lambda>u w. fst (radix_removeDocumentByWord w d True u)) ?u ws))"
    using Cons.IH [OF p'(2,1)] by blast
  show ?case
    using t1(1) t' only_field_trans [OF only_field_trans [OF t1(3) p'(3)] t'(2)] by simp
qed simp

lemma radix_drop_words:
  assumes "radix_ok a" "rw a = []" "[] \<notin> set ws"
  shows "let b = foldl (\<lambda>u w. fst (radix_removeDocumentByWord w d True u)) a ws
    in radix_ok b \<and> rw b = [] \<and> (\<forall>v. radix_docs b v = radix_docs a v - (if v \<in> set ws then {d} else {}))"
  using assms
proof (induction ws arbitrary: a)
  case (Cons w ws)
  let ?a = "fst (radix_removeDocumentByWord w d True a)"
  have w: "w \<noteq> []"
    using Cons.prems(3) by auto
  note r = radix_drop_word [OF Cons.prems(1,2), of w d]
  have "[] \<notin> set ws"
    using Cons.prems(3) by simp
  with Cons.IH [OF r(1,2)] r(3) [OF w] show ?case
    by (auto simp: Let_def)
qed simp

lemma fresh_tokens_not_Nil: "[] \<notin> set (fresh_tokens seps tk n s)"
  by (auto simp: fresh_tokens_def Let_def)

lemma remove_scalar_radix:
  assumes inv: "index_inv t" and x: "node_of t n = Some (NRadix a)" and tk: "cache_ok tk" "lang_ok tk lang" "58 \<notin> set n"
    and ty: "\<not> isVectorType ty"
  shows "\<exists>tk' ids' t'. remove_scalar seps lang cnt n ext d ty (JStr s) (tk, ids, t) = Inr ((tk', ids', t'), True) \<and>
    drops_doc n d (KWord ` set (fresh_tokens seps tk n s)) t t'"
proof -
  let ?ws = "fresh_tokens seps tk n s"
  let ?y = "foldl (\<lambda>u w. fst (radix_removeDocumentByWord w d True u)) a ?ws"
  have tab: "tables_ok t n" and ok: "radix_ok a" "rw a = []"
    using index_invD(3) [OF inv x] index_invD(4) [OF inv x] by simp_all
  obtain tk' where tk': "tokenize seps tk s lang (Some n) True = Inr (tk', ?ws)"
    using tokenize_fresh [OF tk(1), of "Some n" lang seps s True] tk(2,3) by (auto simp: lang_ok_def)
  obtain ids' t1 where t1: "removeDocumentScoreParameters ids t n (IdString ext) cnt = Inr (ids', t1)" "node_of t1 = node_of t"
    "only_field n t t1" "tables_ok t1 n"
    using removeDocumentScoreParameters_ok [OF tab] by blast
  obtain t' where t': "remove_tokens t1 n d ?ws = Inr t'" "only_field n t1 t'" "node_of t' n = Some (NRadix ?y)"
    using remove_tokens_ok [OF t1(4), of a d ?ws] t1(2) x by auto
  have run: "remove_scalar seps lang cnt n ext d ty (JStr s) (tk, ids, t) = Inr ((tk', ids', t'), True)"
    by (simp add: remove_scalar_def ty x tk' t1(1) t'(1))
  have only: "only_field n t t'"
    by (rule only_field_trans [OF t1(3) t'(2)])
  have y: "radix_ok ?y" "rw ?y = []" "\<And>v. radix_docs ?y v = radix_docs a v - (if v \<in> set ?ws then {d} else {})"
    using radix_drop_words [OF ok fresh_tokens_not_Nil, of d seps tk n s] by (auto simp: Let_def)
  have "index_inv t'"
    by (rule index_inv_only_field [OF inv only t'(3)]) (use y tab in simp_all)
  moreover have "field_docs (NRadix ?y) k = field_docs (NRadix a) k - (if k \<in> KWord ` set ?ws then {d} else {})" for k
    using y(3) by (cases k) auto
  ultimately have "drops_doc n d (KWord ` set ?ws) t t'"
    unfolding drops_doc_def using only x t'(3) by (metis same_kind.simps(3))
  with run show ?thesis
    by blast
qed

lemma drops_doc_put:
  assumes "index_inv t" "node_of t n = Some x" "same_kind x y" "field_inv y"
    and "\<And>k. field_docs y k = field_docs x k - (if k \<in> ks then {d} else {})"
  shows "drops_doc n d ks t (put_node n y t)"
proof -
  have only: "only_field n t (put_node n y t)"
    by (rule only_field_put [OF assms(2)])
  have "tables_ok t n" if "y = NRadix u" for u
    using that assms(1-3) index_invD(4) [OF assms(1)] by (cases x) auto
  then have "index_inv (put_node n y t)"
    using index_inv_only_field [OF assms(1) only _ assms(4)] assms(2) by simp
  with only assms show ?thesis
    unfolding drops_doc_def by simp
qed

lemma remove_scalar_bool:
  assumes "index_inv t" "node_of t n = Some (NBool a)" "\<not> isVectorType ty"
  shows "\<exists>t'. remove_scalar seps lang cnt n ext d ty v (tk, ids, t) = Inr ((tk, ids, t'), True) \<and> drops_doc n d {KBool (js_truthy v)} t t'"
proof -
  have "drops_doc n d {KBool (js_truthy v)} t (put_node n (NBool (bool_delete d (js_truthy v) a)) t)"
  proof (rule drops_doc_put [OF assms(1,2)])
    show "field_docs (NBool (bool_delete d (js_truthy v) a)) k =
        field_docs (NBool a) k - (if k \<in> {KBool (js_truthy v)} then {d} else {})" for k
      by (cases k) (auto simp: bool_docs_def bool_delete_def)
    show "field_inv (NBool (bool_delete d (js_truthy v) a))"
      using index_invD(3) [OF assms(1,2)] by (simp add: bool_inv_def bool_delete_def)
  qed simp
  with assms show ?thesis
    by (simp add: remove_scalar_def)
qed

lemma remove_scalar_flat:
  assumes "index_inv t" "node_of t n = Some (NFlat a)" "\<not> isVectorType ty"
  shows "\<exists>t'. remove_scalar seps lang cnt n ext d ty v (tk, ids, t) = Inr ((tk, ids, t'), True) \<and> drops_doc n d {KVal v} t t'"
proof -
  have "drops_doc n d {KVal v} t (put_node n (NFlat (flat_removeDocument d v a)) t)"
  proof (rule drops_doc_put [OF assms(1,2)])
    show "field_docs (NFlat (flat_removeDocument d v a)) k = field_docs (NFlat a) k - (if k \<in> {KVal v} then {d} else {})" for k
      by (cases k) (auto simp: flat_docs_removeDocument)
    show "field_inv (NFlat (flat_removeDocument d v a))"
      using index_invD(3) [OF assms(1,2)] by (simp add: flat_inv_removeDocument)
  qed simp
  with assms show ?thesis
    by (simp add: remove_scalar_def)
qed

subsection \<open>Properties\<close>

definition document_keys :: "separators \<Rightarrow> tokenizer \<Rightarrow> jsstring \<Rightarrow> jsstring \<Rightarrow> node \<Rightarrow> jsval \<Rightarrow> key set" where
  "document_keys seps tk n ty x v =
     (if isArrayType ty then (case v of JArr vs \<Rightarrow> \<Union>v \<in> set vs. value_keys seps tk n x v | _ \<Rightarrow> {})
      else value_keys seps tk n x v)"

text \<open>
  C5: Inserting a property's value into an index succeeds and refines adding the document to the
  set of each key of the value (words, number, truth value, enum value or point, of every element of
  an array): those sets gain the document, every other set of every field stays, and the index
  invariant is kept.
\<close>

theorem index_insert_refines:
  assumes "index_inv t" "node_of t n = Some x" "\<not> isVectorType ty" "lang_ok tk lang" "d \<le> length (internalIdToId ids)"
  shows "\<exists>t'. index_insert seps tk lang cnt thr n d ty v (ids, t) = Inr (ids, t') \<and>
    adds_doc n d (document_keys seps tk n ty x v) t t'"
proof (cases "isArrayType ty")
  case True
  show ?thesis
  proof (cases "\<exists>vs. v = JArr vs")
    case arr: True
    then obtain vs where v: "v = JArr vs" ..
    show ?thesis
      using insert_each_adds [OF assms(1,2,4,5), of seps cnt thr vs] assms(3) True
      by (simp add: index_insert_def document_keys_def v)
  next
    case False
    then have "index_insert seps tk lang cnt thr n d ty v (ids, t) = Inr (ids, t)" "document_keys seps tk n ty x v = {}"
      using assms(3) True by (simp_all add: index_insert_def document_keys_def split: jsval.split)
    with adds_doc_none [OF assms(1,2)] show ?thesis
      by simp
  qed
next
  case False
  with insert_scalar_adds [OF assms(1,2,4,5), of seps cnt thr v] assms(3) show ?thesis
    by (simp add: index_insert_def document_keys_def)
qed

definition title_index :: index where
  "title_index = score_tables (js ''title'') (set_node (js ''title'') (NRadix radix_root) False index_empty)"

lemma title_index_ok: "index_inv title_index" "node_of title_index (js ''title'') = Some (NRadix radix_root)"
proof -
  show n: "node_of title_index (js ''title'') = Some (NRadix radix_root)"
    by (simp add: title_index_def score_tables_def set_node_def node_of_def)
  have only: "node_of title_index m = (if m = js ''title'' then Some (NRadix radix_root) else None)" for m
    by (simp add: title_index_def score_tables_def set_node_def node_of_def index_empty_def)
  show "index_inv title_index"
  proof (rule index_invI)
    show "field_inv x" if "node_of title_index m = Some x" for m x
      using that empty_field_inv(3) unfolding only by (auto split: if_splits)
    show "tables_ok title_index m" if "node_of title_index m = Some (NRadix u)" for m u
      using that unfolding only by (simp add: title_index_def tables_ok_score_tables split: if_splits)
  qed (simp_all add: title_index_def score_tables_def set_node_def index_empty_def wf_map_def)
qed

lemma title_types: "\<not> isVectorType (js ''string'')" "\<not> isArrayType (js ''string'')" "58 \<notin> set (js ''title'')"
  by code_simp+

theorem index_insert_refines_witness:
  "\<exists>t'. index_insert (\<lambda>_. english_sep) default_tokenizer None 1 None (js ''title'') 1 (js ''string'') (JStr (js ''Fast jobs''))
      (\<lparr>idToInternalId = [(js ''a'', 1)], internalIdToId = [js ''a'']\<rparr>, title_index) =
        Inr (\<lparr>idToInternalId = [(js ''a'', 1)], internalIdToId = [js ''a'']\<rparr>, t') \<and>
     adds_doc (js ''title'') 1 {KWord (js ''fast''), KWord (js ''jobs'')} title_index t'"
proof -
  have "fresh_tokens (\<lambda>_. english_sep) default_tokenizer (js ''title'') (js ''Fast jobs'') = [js ''fast'', js ''jobs'']"
    by code_simp
  then have keys: "document_keys (\<lambda>_. english_sep) default_tokenizer (js ''title'') (js ''string'') (NRadix radix_root)
      (JStr (js ''Fast jobs'')) = {KWord (js ''fast''), KWord (js ''jobs'')}"
    by (simp add: document_keys_def title_types value_keys_def)
  show ?thesis
    using index_insert_refines [OF title_index_ok title_types(1), of default_tokenizer None 1
        "\<lparr>idToInternalId = [(js ''a'', 1)], internalIdToId = [js ''a'']\<rparr>" "\<lambda>_. english_sep" 1 None "JStr (js ''Fast jobs'')"]
    unfolding keys by (simp add: lang_ok_def)
qed



end
