(* ===== verification/Orama_Filters.thy ===== *)
theory Orama_Filters
  imports Orama_Index_Inv
begin

text \<open>
  The filters of a search (\<open>searchByWhereClause\<close>): what each filter describes, stated on the
  documents the field holds under each key, and that the code returns exactly the documents every
  clause describes.
\<close>

subsection \<open>What a filter describes\<close>

lemma set_rangeSearch: "bst (avl_tree.root a) \<Longrightarrow> set (rangeSearch a e t) = (\<Union>k \<in> {k. e \<le> k \<and> k \<le> t}. avl_docs a k)"
  by (simp only: rangeSearch_filter set_set_new avl_docs_selected)

lemma set_lessThan: "bst (avl_tree.root a) \<Longrightarrow> set (lessThan a e t) = (\<Union>k \<in> {k. k < e \<or> t \<and> k = e}. avl_docs a k)"
  by (simp only: lessThan_filter set_set_new avl_docs_selected)

lemma set_greaterThan: "bst (avl_tree.root a) \<Longrightarrow> set (greaterThan a e t) = (\<Union>k \<in> {k. e < k \<or> t \<and> k = e}. avl_docs a k)"
  unfolding greaterThan_filter set_set_new
  by (subst avl_docs_selected [symmetric, where sel = "\<lambda>k. e < k \<or> t \<and> k = e"]) auto

fun num_op_sat :: "num_op \<Rightarrow> rat \<Rightarrow> bool option" where
  "num_op_sat (NGt t) k = Some (t < k)"
| "num_op_sat (NGte t) k = Some (t \<le> k)"
| "num_op_sat (NLt t) k = Some (k < t)"
| "num_op_sat (NLte t) k = Some (k \<le> t)"
| "num_op_sat (NEq t) k = Some (k = t)"
| "num_op_sat (NBetween x y) k = Some (x \<le> k \<and> k \<le> y)"
| "num_op_sat (NOther s) k = None"

fun flat_op_docs :: "(jsval \<Rightarrow> nat set) \<Rightarrow> jsval flat_op \<Rightarrow> nat set option" where
  "flat_op_docs D (OpEq v) = Some (D v)"
| "flat_op_docs D (OpIn vs) = Some (\<Union>v \<in> set vs. D v)"
| "flat_op_docs D (OpNin vs) = Some (\<Union>v \<in> - set vs. D v)"
| "flat_op_docs D (OpOther s) = None"

fun flat_arr_op_docs :: "(jsval \<Rightarrow> nat set) \<Rightarrow> jsval flat_arr_op \<Rightarrow> nat set option" where
  "flat_arr_op_docs D (ContainsAll vs) = Some (if vs = [] then {} else \<Inter>v \<in> set vs. D v)"
| "flat_arr_op_docs D (ContainsAny vs) = Some (\<Union>v \<in> set vs. D v)"
| "flat_arr_op_docs D (ArrOther s) = None"

definition in_radius :: "rat \<Rightarrow> point \<Rightarrow> bool \<Rightarrow> bool \<Rightarrow> point \<Rightarrow> bool" where
  "in_radius m c inside precise p =
     (let s = point_distance precise inside (of_rat m) c p in if inside then s \<le> of_rat m else of_rat m < s)"

lemma in_radius_iff:
  "in_radius m c inside precise =
     (\<lambda>p. if inside then point_distance precise inside (of_rat m) c p \<le> of_rat m
          else of_rat m < point_distance precise inside (of_rat m) c p)"
  by (simp add: fun_eq_iff in_radius_def Let_def)

text \<open>The documents a filter on a field describes; None when the filter is not one for the field.\<close>

definition filter_docs :: "separators \<Rightarrow> tokenizer \<Rightarrow> jsstring \<Rightarrow> field_index \<Rightarrow> where_op \<Rightarrow> nat set option" where
  "filter_docs seps tk i fi w =
     (let D = field_docs (fi_node fi); none = (if where_keys w > 1 then None else Some {})
      in case fi_node fi of
           NBool a \<Rightarrow> Some (D (KBool (where_truthy w)))
         | NAVL a \<Rightarrow>
             (case w of
                WNum [c] \<Rightarrow> if (\<exists>s. c = NOther s) then None else Some (\<Union>k \<in> {k. num_op_sat c k = Some True}. D (KNum k))
              | _ \<Rightarrow> None)
         | NRadix a \<Rightarrow>
             (case w of
                WStr s \<Rightarrow> Some (\<Union>t \<in> set (fresh_tokens seps tk i s). D (KWord t))
              | WStrs ss \<Rightarrow> Some (\<Union>s \<in> set ss. \<Union>t \<in> set (fresh_tokens seps tk i s). D (KWord t))
              | _ \<Rightarrow> none)
         | NFlat a \<Rightarrow>
             (if fi_isArray fi then (case w of WFlatArr [c] \<Rightarrow> flat_arr_op_docs (\<lambda>v. D (KVal v)) c | _ \<Rightarrow> None)
              else (case w of WFlat [c] \<Rightarrow> flat_op_docs (\<lambda>v. D (KVal v)) c | _ \<Rightarrow> None))
         | NBKD a \<Rightarrow>
             (case w of
                WRadius v c u inside precise \<Rightarrow>
                  (case convertDistanceToMeters v u of
                     Inl e \<Rightarrow> None | Inr m \<Rightarrow> Some (\<Union>p \<in> {p. in_radius m c inside precise p}. D (KPoint p)))
              | WPolygon c inside precise \<Rightarrow> Some (\<Union>p \<in> {p. isPointInPolygon c p = inside}. D (KPoint p))
              | _ \<Rightarrow> None)
         | NPosition a \<Rightarrow> none)"

lemma where_num_docs:
  assumes "bst (avl_tree.root a)"
  shows "(\<nexists>s. c = NOther s) \<and> (\<exists>s. where_num a (WNum [c]) = Inr s \<and> set s = (\<Union>k \<in> {k. num_op_sat c k = Some True}. avl_docs a k)) \<or>
    (\<exists>s. c = NOther s) \<and> (\<exists>e. where_num a (WNum [c]) = Inl e)"
proof (cases c)
  case (NEq t)
  then show ?thesis
    by (auto simp: where_num_def avl_docs_def split: option.splits)
qed (auto simp: where_num_def set_rangeSearch [OF assms] set_lessThan [OF assms] set_greaterThan [OF assms] less_le_not_le)

lemma where_num_other: "\<nexists>c. w = WNum [c] \<Longrightarrow> \<exists>e. where_num a w = Inl e"
  by (auto simp: where_num_def split: where_op.splits list.splits num_op.splits)

lemma flat_filter_docs:
  assumes "flat_inv a"
  shows "(case flat_op_docs (flat_docs a) c of
      None \<Rightarrow> (\<exists>e. flat_filter a [c] = Inl e) | Some D \<Rightarrow> (\<exists>s. flat_filter a [c] = Inr s \<and> set s = D))"
proof -
  have wf: "wf_map (numberToDocumentId a)"
    using assms by (simp add: flat_inv_def)
  then have mem: "(k, s) \<in> set (numberToDocumentId a) \<longleftrightarrow> map_get (numberToDocumentId a) k = Some s" for k s
    by (simp add: wf_map_def)
  have nin: "{x. \<exists>e n. (e, n) \<in> set (numberToDocumentId a) \<and> e \<notin> set ks \<and> x \<in> set n} = (\<Union>k \<in> - set ks. flat_docs a k)" for ks
    unfolding mem by (fastforce simp: flat_docs_get split: option.splits)
  show ?thesis
    by (cases c) (simp_all add: flat_filter_def set_foldl_union set_foldl_nin nin)
qed

lemma flat_filterArr_docs:
  "case flat_arr_op_docs (flat_docs a) c of
     None \<Rightarrow> (\<exists>e. flat_filterArr a [c] = Inl e) | Some D \<Rightarrow> (\<exists>s. flat_filterArr a [c] = Inr s \<and> set s = D)"
proof (cases c)
  case (ContainsAll vs)
  then show ?thesis
    by (cases vs) (auto simp: flat_filterArr_def set_foldl_inter)
next
  case (ContainsAny vs)
  then show ?thesis
    by (cases vs) (auto simp: flat_filterArr_def set_foldl_append)
qed (simp add: flat_filterArr_def)

lemma set_addGeoResult: "set (addGeoResult e t) = set e \<union> (\<Union>(p, ds) \<in> set t. set ds)"
  unfolding addGeoResult_def by (induction t arbitrary: e) auto

lemma set_addFindResult: "set (addFindResult e t) = set e \<union> (\<Union>(w, ds) \<in> set t. set ds)"
  unfolding addFindResult_def by (induction t arbitrary: e) auto

lemma geo_docs:
  assumes "bkd_inv a"
  shows "(\<Union>(p, ds) \<in> set (collect_points a P). set ds) = (\<Union>p \<in> {p. P p}. bkd_docs a p)"
proof -
  have none: "bkd_docs a p = {}" if "p \<notin> set (visit_order (bkd_root a))" for p
    using that assms by (auto simp: bkd_inv_def bkd_docs_def node_docs_def dom_def)
  have "(\<Union>(p, ds) \<in> set (collect_points a P). set ds) = (\<Union>p \<in> {p \<in> set (visit_order (bkd_root a)). P p}. bkd_docs a p)"
    unfolding collect_points_filter by (auto simp: bkd_docs_def)
  also have "\<dots> = (\<Union>p \<in> {p. P p}. bkd_docs a p)"
    using none by blast
  finally show ?thesis .
qed

lemma where_geo_docs:
  assumes "bkd_inv a"
  shows "case filter_docs seps tk i \<lparr>fi_node = NBKD a, fi_isArray = arr\<rparr> w of
      None \<Rightarrow> (\<exists>e. where_geo a w = Inl e) | Some D \<Rightarrow> (\<exists>s. where_geo a w = Inr s \<and> set s = D)"
proof (cases w)
  case (WRadius v c u inside precise)
  then show ?thesis
    by (cases "convertDistanceToMeters v u"; cases inside)
      (simp_all add: filter_docs_def where_geo_def Let_def searchByRadius_def set_addGeoResult geo_docs [OF assms] in_radius_iff)
next
  case (WPolygon c inside precise)
  have "{p. isPointInPolygon c p \<and> inside \<or> \<not> isPointInPolygon c p \<and> \<not> inside} = {p. isPointInPolygon c p = inside}"
    by auto
  with WPolygon show ?thesis
    by (simp add: filter_docs_def where_geo_def Let_def searchByPolygon_def set_addGeoResult geo_docs [OF assms])
qed (simp_all add: filter_docs_def where_geo_def Let_def)

lemma wf_foldl: "wf_map out \<Longrightarrow> (\<And>o1 p. p \<in> set ps \<Longrightarrow> wf_map o1 \<Longrightarrow> wf_map (f o1 p)) \<Longrightarrow> wf_map (foldl f out ps)"
  by (induction ps arbitrary: out) auto

lemma wf_findAllWords: "wf_map out \<Longrightarrow> wf_map (findAllWords t n r out x)"
proof (induction t n r out x rule: findAllWords.induct)
  case (1 t n r out k s c d e w)
  show ?case
    unfolding findAllWords.simps using 1 by (auto intro!: wf_foldl)
qed

lemma wf_radix_find: "wf_map (radix_find a t exact 0)"
  by (simp add: radix_find_def wf_findAllWords split: option.split)

lemma wf_map_Union:
  assumes "wf_map m"
  shows "(\<Union>(w, ds) \<in> set m. set ds) = (\<Union>w. case map_get m w of None \<Rightarrow> {} | Some ds \<Rightarrow> set ds)"
proof -
  have mem: "(w, ds) \<in> set m \<longleftrightarrow> map_get m w = Some ds" for w ds
    using assms by (simp add: wf_map_def)
  show ?thesis
  proof (intro set_eqI iffI)
    fix x
    assume "x \<in> (\<Union>(w, ds) \<in> set m. set ds)"
    then obtain w ds where "map_get m w = Some ds" "x \<in> set ds"
      unfolding mem [symmetric] by auto
    then show "x \<in> (\<Union>w. case map_get m w of None \<Rightarrow> {} | Some ds \<Rightarrow> set ds)"
      by (intro UN_I [of w]) simp_all
  next
    fix x
    assume "x \<in> (\<Union>w. case map_get m w of None \<Rightarrow> {} | Some ds \<Rightarrow> set ds)"
    then obtain w ds where "map_get m w = Some ds" "x \<in> set ds"
      by (auto split: option.splits)
    then show "x \<in> (\<Union>(w, ds) \<in> set m. set ds)"
      using mem by blast
  qed
qed

lemma find_exact_docs:
  assumes "radix_ok a" "rw a = []"
  shows "set (addFindResult s (radix_find a t True 0)) = set s \<union> radix_docs a t"
proof -
  have "(\<Union>(w, ds) \<in> set (radix_find a t True 0). set ds) = radix_docs a t"
    unfolding wf_map_Union [OF wf_radix_find] radix_find_exact [OF assms]
    by (auto simp: radix_docs_def split: option.splits if_splits)
  then show ?thesis
    by (simp add: set_addFindResult)
qed

lemma find_all_exact_docs:
  assumes "radix_ok a" "rw a = []"
  shows "set (foldl (\<lambda>s t. addFindResult s (radix_find a t True 0)) s ts) = set s \<union> (\<Union>t \<in> set ts. radix_docs a t)"
  by (induction ts arbitrary: s) (simp_all add: find_exact_docs [OF assms] Un_assoc)

lemma where_words_docs:
  assumes a: "radix_ok a" "rw a = []" and i: "58 \<notin> set i"
  shows "cache_ok tk \<Longrightarrow> lang_ok tk lang \<Longrightarrow>
    \<exists>tk' r. where_words seps lang i a ss (tk, s) = Inr (tk', r) \<and> cache_ok tk' \<and> same_settings tk tk' \<and>
      set r = set s \<union> (\<Union>s \<in> set ss. \<Union>t \<in> set (fresh_tokens seps tk i s). radix_docs a t)"
proof (induction ss arbitrary: tk s)
  case (Cons e ss)
  obtain tk1 where tk1: "tokenize seps tk e lang (Some i) True = Inr (tk1, fresh_tokens seps tk i e)" "cache_ok tk1"
    "same_settings tk tk1"
    using tokenize_fresh [OF Cons.prems(1), of "Some i" lang seps e True] i Cons.prems(2) by (auto simp: lang_ok_def)
  have lang1: "lang_ok tk1 lang"
    using Cons.prems(2) same_settings_fields(3) [OF tk1(3)] by (simp add: lang_ok_def)
  let ?s1 = "foldl (\<lambda>s t. addFindResult s (radix_find a t True 0)) s (fresh_tokens seps tk i e)"
  obtain tk' r where r: "where_words seps lang i a ss (tk1, ?s1) = Inr (tk', r)" "cache_ok tk'" "same_settings tk1 tk'"
    "set r = set ?s1 \<union> (\<Union>s \<in> set ss. \<Union>t \<in> set (fresh_tokens seps tk1 i s). radix_docs a t)"
    using Cons.IH [OF tk1(2) lang1] by blast
  show ?case
    using tk1(1) r(1,2) same_settings_trans [OF tk1(3) r(3)] r(4)
    by (simp add: find_all_exact_docs [OF a] fresh_tokens_settings [OF tk1(3)] Un_assoc)
qed simp

lemma where_property_docs:
  assumes inv: "index_inv e" and tk: "cache_ok tk" "lang_ok tk lang" and i: "58 \<notin> set i" and fi: "map_get (indexes e) i = Some fi"
  shows "case filter_docs seps tk i fi w of
      None \<Rightarrow> (\<exists>err. where_property seps lang e i w tk = Inl err)
    | Some D \<Rightarrow> (\<exists>tk' r. where_property seps lang e i w tk = Inr (tk', r) \<and> cache_ok tk' \<and> same_settings tk tk' \<and> set r = D)"
proof -
  have fin: "field_inv (fi_node fi)"
    using index_invD(3) [OF inv, of i] fi by (simp add: node_of_def)
  show ?thesis
  proof (cases "fi_node fi")
    case (NBool a)
    then show ?thesis
      using tk fi by (simp add: where_property_def filter_docs_def Let_def set_union_def bool_docs_def)
  next
    case (NAVL a)
    have b: "bst (avl_tree.root a)"
      using fin NAVL by (simp add: avl_inv_def)
    show ?thesis
    proof (cases "\<exists>c. w = WNum [c]")
      case True
      then obtain c where w: "w = WNum [c]" ..
      show ?thesis
        using where_num_docs [OF b, of c] tk fi NAVL w
        by (auto simp: where_property_def filter_docs_def Let_def set_union_def where_keys_def)
    next
      case False
      then obtain err where "where_num a w = Inl err"
        using where_num_other by blast
      moreover have "filter_docs seps tk i fi w = None"
        using False NAVL by (auto simp: filter_docs_def Let_def split: where_op.splits list.splits)
      ultimately show ?thesis
        using fi NAVL by (simp add: where_property_def Let_def)
    qed
  next
    case (NRadix a)
    have ok: "radix_ok a" "rw a = []"
      using fin NRadix by simp_all
    show ?thesis
    proof (cases "\<exists>ss. w = WStrs ss \<or> (\<exists>s. w = WStr s \<and> ss = [s])")
      case True
      then obtain ss where ss: "w = WStrs ss \<or> (\<exists>s. w = WStr s \<and> ss = [s])" ..
      then show ?thesis
        using where_words_docs [OF ok i tk, of seps ss "[]"] fi NRadix
        by (auto simp: where_property_def filter_docs_def Let_def)
    next
      case False
      then show ?thesis
        using fi NRadix tk by (cases w) (auto simp: where_property_def filter_docs_def Let_def)
    qed
  next
    case (NFlat a)
    have f: "flat_inv a"
      using fin NFlat by simp
    show ?thesis
    proof (cases "fi_isArray fi")
      case True
      show ?thesis
      proof (cases "\<exists>c. w = WFlatArr [c]")
        case c: True
        then obtain c where w: "w = WFlatArr [c]" ..
        show ?thesis
          using flat_filterArr_docs [of a c] fi NFlat tk True w
          by (auto simp: where_property_def filter_docs_def where_enum_def Let_def set_union_def where_keys_def split: option.splits)
      next
        case c: False
        have "filter_docs seps tk i fi w = None"
          using c NFlat True by (auto simp: filter_docs_def Let_def split: where_op.splits list.splits)
        moreover have "\<exists>err. where_property seps lang e i w tk = Inl err"
          using c fi NFlat True
          by (auto simp: where_property_def where_enum_def Let_def where_keys_def flat_filterArr_def split: where_op.splits list.splits)
        ultimately show ?thesis
          by simp
      qed
    next
      case False
      show ?thesis
      proof (cases "\<exists>c. w = WFlat [c]")
        case c: True
        then obtain c where w: "w = WFlat [c]" ..
        show ?thesis
          using flat_filter_docs [OF f, of c] fi NFlat tk False w
          by (auto simp: where_property_def filter_docs_def where_enum_def Let_def set_union_def where_keys_def split: option.splits)
      next
        case c: False
        have "filter_docs seps tk i fi w = None"
          using c NFlat False by (auto simp: filter_docs_def Let_def split: where_op.splits list.splits)
        moreover have "\<exists>err. where_property seps lang e i w tk = Inl err"
          using c fi NFlat False
          by (auto simp: where_property_def where_enum_def Let_def where_keys_def flat_filter_def split: where_op.splits list.splits)
        ultimately show ?thesis
          by simp
      qed
    qed
  next
    case (NBKD a)
    have b: "bkd_inv a"
      using fin NBKD by simp
    have fi': "fi = \<lparr>fi_node = NBKD a, fi_isArray = fi_isArray fi\<rparr>"
      using NBKD by simp
    show ?thesis
      using where_geo_docs [OF b, where seps = seps and tk = tk and i = i and arr = "fi_isArray fi" and w = w, folded fi'] fi NBKD tk
      by (auto simp: where_property_def Let_def split: option.splits)
  next
    case (NPosition a)
    then show ?thesis
      using fi tk by (simp add: where_property_def filter_docs_def Let_def)
  qed
qed

lemma smallest_index_less: "e \<noteq> [] \<Longrightarrow> smallest_index e < length e"
proof -
  assume ne: "e \<noteq> []"
  have "fst (foldl (\<lambda>(i, z) n. if length (e ! n) < z then (n, length (e ! n)) else (i, z)) (i, z) ns) < length e"
    if "i < length e" "\<forall>n \<in> set ns. n < length e" for i z ns
    using that by (induction ns arbitrary: i z) auto
  from this [of 0 "[1..<length e]"] ne show ?thesis
    by (simp add: smallest_index_def)
qed

lemma set_native_intersection: "set (native_intersection t n) = set t \<inter> set n"
  by (auto simp: native_intersection_def)

lemma set_setIntersection:
  assumes "e \<noteq> []"
  shows "set (setIntersection native e) = \<Inter> (set ` set e)"
proof -
  consider s where "e = [s]" | t n where "e = [t, n]" | a b c r where "e = a # b # c # r"
    using assms by (metis list.exhaust)
  then show ?thesis
  proof cases
    case 3
    let ?k = "smallest_index e" and ?f = "\<lambda>n s. if native then native_intersection n s else filter (\<lambda>x. x \<in> set s) n"
    let ?others = "map (\<lambda>r. e ! r) (filter (\<lambda>r. r \<noteq> smallest_index e) [0..<length e])"
    have k: "?k < length e"
      by (rule smallest_index_less [OF assms])
    have fold: "set (foldl ?f n ss) = set n \<inter> \<Inter> (set ` set ss)" for n ss
      by (induction ss arbitrary: n) (auto simp: set_native_intersection)
    have "set e = (!) e ` {0..<length e}"
      by (auto simp: in_set_conv_nth)
    also have "{0..<length e} = insert ?k {r \<in> {0..<length e}. r \<noteq> ?k}"
      using k by auto
    finally have "set e = insert (e ! ?k) (set ?others)"
      by simp
    then have "set (foldl ?f (e ! ?k) ?others) = \<Inter> (set ` set e)"
      unfolding fold by simp
    then show ?thesis
      unfolding 3 setIntersection_def by (simp add: Let_def)
  qed (auto simp: setIntersection_def set_native_intersection)
qed

definition clause_docs :: "separators \<Rightarrow> tokenizer \<Rightarrow> index \<Rightarrow> jsstring \<times> where_op \<Rightarrow> nat set option" where
  "clause_docs seps tk e c =
     (case map_get (indexes e) (fst c) of None \<Rightarrow> None | Some fi \<Rightarrow> filter_docs seps tk (fst c) fi (snd c))"

lemma filter_docs_settings: "same_settings tk tk' \<Longrightarrow> filter_docs seps tk' = filter_docs seps tk"
  by (intro ext) (simp only: filter_docs_def fresh_tokens_settings)

lemma where_sets_docs:
  assumes inv: "index_inv e"
  shows "cache_ok tk \<Longrightarrow> lang_ok tk lang \<Longrightarrow> \<forall>c \<in> set ws. 58 \<notin> set (fst c) \<Longrightarrow>
    if None \<in> set (map (clause_docs seps tk e) ws) then (\<exists>err. where_sets seps lang e ws tk = Inl err)
    else (\<exists>tk' ss. where_sets seps lang e ws tk = Inr (tk', ss) \<and> cache_ok tk' \<and> same_settings tk tk' \<and>
      map (\<lambda>s. Some (set s)) ss = map (clause_docs seps tk e) ws)"
proof (induction ws arbitrary: tk)
  case (Cons c ws)
  obtain i w where c: "c = (i, w)"
    by fastforce
  have i: "58 \<notin> set i"
    using Cons.prems(3) c by simp
  show ?case
  proof (cases "clause_docs seps tk e (i, w)")
    case None
    then have "\<exists>err. where_property seps lang e i w tk = Inl err"
      using where_property_docs [OF inv Cons.prems(1,2) i, where seps = seps and w = w]
      by (cases "map_get (indexes e) i") (auto simp: clause_docs_def where_property_def)
    with None c show ?thesis
      by auto
  next
    case (Some D)
    then obtain fi where fi: "map_get (indexes e) i = Some fi" "filter_docs seps tk i fi w = Some D"
      by (auto simp: clause_docs_def split: option.splits)
    obtain tk1 r where r: "where_property seps lang e i w tk = Inr (tk1, r)" "cache_ok tk1" "same_settings tk tk1" "set r = D"
      using where_property_docs [OF inv Cons.prems(1,2) i fi(1), where seps = seps and w = w] fi(2) by auto
    have lang1: "lang_ok tk1 lang"
      using Cons.prems(2) same_settings_fields(3) [OF r(3)] by (simp add: lang_ok_def)
    have cd: "clause_docs seps tk1 e = clause_docs seps tk e"
      by (intro ext) (simp only: clause_docs_def filter_docs_settings [OF r(3)])
    have IH: "if None \<in> set (map (clause_docs seps tk e) ws) then (\<exists>err. where_sets seps lang e ws tk1 = Inl err)
      else (\<exists>tk' ss. where_sets seps lang e ws tk1 = Inr (tk', ss) \<and> cache_ok tk' \<and> same_settings tk1 tk' \<and>
        map (\<lambda>s. Some (set s)) ss = map (clause_docs seps tk e) ws)"
      using Cons.IH [OF r(2) lang1] Cons.prems(3) unfolding cd by simp
    show ?thesis
    proof (cases "None \<in> set (map (clause_docs seps tk e) ws)")
      case True
      then obtain err where "where_sets seps lang e ws tk1 = Inl err"
        using IH by auto
      then show ?thesis
        using True c r(1) by auto
    next
      case False
      then obtain tk2 ss where ss: "where_sets seps lang e ws tk1 = Inr (tk2, ss)" "cache_ok tk2" "same_settings tk1 tk2"
        "map (\<lambda>s. Some (set s)) ss = map (clause_docs seps tk e) ws"
        using IH by auto
      show ?thesis
        using False c r(1,4) ss Some same_settings_trans [OF r(3) ss(3)] by auto
    qed
  qed
qed simp

lemma searchByWhereClause_docs:
  assumes "index_inv e" "cache_ok tk" "lang_ok tk lang" "\<forall>c \<in> set ws. 58 \<notin> set (fst c)" "ws \<noteq> []"
  shows "if None \<in> set (map (clause_docs seps tk e) ws) then (\<exists>err. searchByWhereClause seps native lang e ws tk = Inl err)
    else (\<exists>tk' r. searchByWhereClause seps native lang e ws tk = Inr (tk', r) \<and> cache_ok tk' \<and> same_settings tk tk' \<and>
      set r = \<Inter> (the ` clause_docs seps tk e ` set ws))"
proof (cases "None \<in> set (map (clause_docs seps tk e) ws)")
  case True
  then show ?thesis
    using where_sets_docs [OF assms(1-4), of seps] by (auto simp: searchByWhereClause_def)
next
  case False
  then obtain tk' ss where ss: "where_sets seps lang e ws tk = Inr (tk', ss)" "cache_ok tk'" "same_settings tk tk'"
    "map (\<lambda>s. Some (set s)) ss = map (clause_docs seps tk e) ws"
    using where_sets_docs [OF assms(1-4), of seps] by auto
  have ne: "rev ss \<noteq> []"
    using ss(4) assms(5) by (metis list.map_disc_iff rev_is_Nil_conv)
  have "set ` set ss = the ` clause_docs seps tk e ` set ws"
    using arg_cong [OF ss(4), of "\<lambda>xs. the ` set xs"] by (simp add: image_image)
  then show ?thesis
    using False ss set_setIntersection [OF ne, of native] by (simp add: searchByWhereClause_def)
qed

subsection \<open>Properties\<close>

text \<open>
  C10: A filter with one or more clauses is rejected exactly when some clause names an unknown
  property or is not a filter for its field; otherwise it returns exactly the documents that every
  clause describes, with and without the engine's own set intersection.
\<close>

theorem searchByWhereClause_correct:
  assumes "index_inv e" "cache_ok tk" "lang_ok tk lang" "\<forall>c \<in> set ws. 58 \<notin> set (fst c)" "ws \<noteq> []"
  shows "if None \<in> set (map (clause_docs seps tk e) ws) then (\<exists>err. searchByWhereClause seps native lang e ws tk = Inl err)
    else (\<exists>tk' r. searchByWhereClause seps native lang e ws tk = Inr (tk', r) \<and>
      set r = \<Inter> (the ` clause_docs seps tk e ` set ws))"
  using searchByWhereClause_docs [OF assms, of seps native] by (auto split: if_splits)

definition draft_index :: index where
  "draft_index = set_node (js ''draft'') (NBool \<lparr>bn_true = [1, 3], bn_false = [2]\<rparr>) False index_empty"

lemma draft_index_ok: "index_inv draft_index"
  by (rule index_invI)
    (auto simp: draft_index_def set_node_def index_empty_def node_of_def bool_inv_def wf_map_def split: if_splits)

theorem searchByWhereClause_correct_witness:
  "\<exists>tk' r. searchByWhereClause (\<lambda>_. english_sep) False None draft_index [(js ''draft'', WBool True)] default_tokenizer = Inr (tk', r) \<and>
     set r = {1, 3}"
proof -
  have l: "lang_ok default_tokenizer None"
    by (simp add: lang_ok_def)
  have p: "\<forall>c \<in> set [(js ''draft'', WBool True)]. 58 \<notin> set (fst c)"
    by code_simp
  have d: "clause_docs (\<lambda>_. english_sep) default_tokenizer draft_index (js ''draft'', WBool True) = Some {1, 3}"
    by (simp add: clause_docs_def draft_index_def set_node_def index_empty_def filter_docs_def Let_def bool_docs_def where_truthy_def)
  show ?thesis
    using searchByWhereClause_correct [OF draft_index_ok createTokenizer_empty_cache [OF createTokenizer_default] l p,
        of "\<lambda>_. english_sep" False] d by simp
qed

end
