(* ===== verification/Orama_PT15.thy ===== *)
theory Orama_PT15
  imports Orama_Filters
begin

text \<open>
  The prefix index the search page uses in place of the radix tree (the plugin of
  \<^verbatim>\<open>assets/js/search-orama.js\<close>, \<^verbatim>\<open>Gt\<close> to \<^verbatim>\<open>qt\<close>): a text
  field has 15 levels, each a map from prefixes of words to the documents whose text has the word at
  about that position, so words near the start of a text score higher. Fields that are not text are
  left to the index of \<open>Orama_Index\<close>.
\<close>

subsection \<open>Levels\<close>

type_synonym level = "(jsstring, nat list) jsmap"

definition position_empty :: "level list" where
  "position_empty = replicate 15 []"

definition get_position :: "nat \<Rightarrow> nat \<Rightarrow> nat" where
  "get_position e t = (if t < 15 then e else (15 * e) div t)"

definition push_prefix :: "jsstring \<Rightarrow> nat \<Rightarrow> level \<Rightarrow> nat \<Rightarrow> level" where
  "push_prefix n r lv e =
     (let t = take e n; old = (case map_get lv t of None \<Rightarrow> [] | Some x \<Rightarrow> x) in map_set t (old @ [r]) lv)"

definition push_prefixes :: "jsstring \<Rightarrow> nat \<Rightarrow> level \<Rightarrow> level" where
  "push_prefixes n r lv = foldl (push_prefix n r) lv (rev [1..<Suc (length n)])"

definition insert_token :: "jsstring list \<Rightarrow> nat \<Rightarrow> level list \<Rightarrow> nat \<Rightarrow> level list" where
  "insert_token i r t e =
     (let k = 15 - get_position e (length i) - 1 in t[k := push_prefixes (i ! e) r (t ! k)])"

definition position_insert :: "jsstring list \<Rightarrow> nat \<Rightarrow> level list \<Rightarrow> level list" where
  "position_insert i r t = foldl (insert_token i r) t [0..<length i]"

definition insertString ::
    "separators \<Rightarrow> jsstring option \<Rightarrow> jsstring \<Rightarrow> nat \<Rightarrow> jsstring \<Rightarrow> tokenizer \<times> level list \<Rightarrow> (tokenizer \<times> level list) jsresult" where
  "insertString seps lang n r e = (\<lambda>(tk, t).
     lift_err (tokenize seps tk e lang (Some n) True) (\<lambda>(tk, i). Inr (tk, position_insert i r t)))"

definition drop_prefix :: "jsstring \<Rightarrow> nat \<Rightarrow> level \<Rightarrow> nat \<Rightarrow> level" where
  "drop_prefix n r lv e =
     (let t = take e n in case map_get lv t of None \<Rightarrow> lv | Some ds \<Rightarrow> map_set t (remove1 r ds) lv)"

definition drop_prefixes :: "jsstring \<Rightarrow> nat \<Rightarrow> level \<Rightarrow> level" where
  "drop_prefixes n r lv = foldl (drop_prefix n r) lv (rev [1..<Suc (length n)])"

definition remove_token :: "jsstring list \<Rightarrow> nat \<Rightarrow> level list \<Rightarrow> nat \<Rightarrow> level list" where
  "remove_token i r t e =
     (let k = 15 - get_position e (length i) - 1 in t[k := drop_prefixes (i ! e) r (t ! k)])"

definition position_remove :: "jsstring list \<Rightarrow> nat \<Rightarrow> level list \<Rightarrow> level list" where
  "position_remove i r t = foldl (remove_token i r) t [0..<length i]"

definition removeString ::
    "separators \<Rightarrow> jsstring option \<Rightarrow> jsstring \<Rightarrow> nat \<Rightarrow> jsstring \<Rightarrow> tokenizer \<times> level list \<Rightarrow> (tokenizer \<times> level list) jsresult" where
  "removeString seps lang n r e = (\<lambda>(tk, t).
     lift_err (tokenize seps tk e lang (Some n) True) (\<lambda>(tk, i). Inr (tk, position_remove i r t)))"

subsection \<open>Search in one field\<close>

type_synonym position_scores = "(nat, rat) jsmap"

definition add_hit :: "rat \<Rightarrow> nat list option \<Rightarrow> nat \<Rightarrow> position_scores \<Rightarrow> nat \<Rightarrow> position_scores" where
  "add_hit r flt t i d =
     (if (case flt of None \<Rightarrow> False | Some c \<Rightarrow> d \<notin> set c) then i
      else map_set d (case map_get i d of None \<Rightarrow> of_nat t * r | Some x \<Rightarrow> x + of_nat t * r) i)"

definition search_level :: "rat \<Rightarrow> nat list option \<Rightarrow> level list \<Rightarrow> jsstring \<Rightarrow> position_scores \<Rightarrow> nat \<Rightarrow> position_scores" where
  "search_level r flt n e i t =
     (case map_get (n ! t) e of None \<Rightarrow> i | Some ds \<Rightarrow> foldl (add_hit r flt t) i ds)"

definition position_search :: "jsstring list \<Rightarrow> level list \<Rightarrow> rat \<Rightarrow> nat list option \<Rightarrow> position_scores" where
  "position_search s n r flt = foldl (\<lambda>i e. foldl (search_level r flt n e) i [0..<15]) [] s"

definition searchString ::
    "separators \<Rightarrow> jsstring \<Rightarrow> node option \<Rightarrow> rat \<Rightarrow> nat list option \<Rightarrow> tokenizer \<Rightarrow> (tokenizer \<times> position_scores) jsresult" where
  "searchString seps t n r flt tk =
     lift_err (tokenize seps tk t None None True) (\<lambda>(tk, s).
       case n of
         Some (NPosition lv) \<Rightarrow> Inr (tk, position_search s lv r flt)
       | _ \<Rightarrow> if s = [] then Inr (tk, []) else Inl TypeError)"

subsection \<open>The plugin's index\<close>

definition pt15_field :: "jsstring \<Rightarrow> jsstring \<Rightarrow> index \<Rightarrow> index jsresult" where
  "pt15_field t ty e =
     (if isVectorType ty then
        lift_err (getVectorSize ty) (\<lambda>z.
          let e = add_searchable t ty e in Inr (e\<lparr>vectorIndexes := map_set t (vec_new z) (vectorIndexes e)\<rparr>))
      else
        (case empty_node (NPosition position_empty) ty of
           None \<Rightarrow> Inl (JsError (js ''INVALID_SCHEMA_TYPE: '' @ t))
         | Some x \<Rightarrow> Inr (add_searchable t ty (set_node t x (has_bracket ty) e))))"

function pt15_create :: "(jsstring \<times> schema) list \<Rightarrow> index \<Rightarrow> jsstring \<Rightarrow> index jsresult" where
  "pt15_create [] e n = Inr e"
| "pt15_create ((r, TyName ty) # rest) e n = lift_err (pt15_field (prop_path n r) ty e) (\<lambda>e. pt15_create rest e n)"
| "pt15_create ((r, TyObj kvs) # rest) e n = lift_err (pt15_create kvs e (prop_path n r)) (\<lambda>e. pt15_create rest e n)"
  by pat_completeness auto
termination
  by (relation "measure (\<lambda>(kvs, e, n). size_list (size_prod (\<lambda>_. 0) size) kvs)") auto

fun each_string ::
    "(jsstring \<Rightarrow> tokenizer \<times> level list \<Rightarrow> (tokenizer \<times> level list) jsresult) \<Rightarrow> jsval list \<Rightarrow> tokenizer \<times> level list \<Rightarrow> (tokenizer \<times> level list) jsresult" where
  "each_string f [] st = Inr st"
| "each_string f (v # vs) st = (case v of JStr s \<Rightarrow> lift_err (f s st) (each_string f vs) | _ \<Rightarrow> each_string f vs st)"

definition is_text :: "jsstring \<Rightarrow> bool" where
  "is_text ty = (ty = js ''string'' \<or> ty = js ''string[]'')"

text \<open>The texts of a value: the elements of an array, or the value.\<close>

definition texts :: "jsval \<Rightarrow> jsval list" where
  "texts s = (case s of JArr xs \<Rightarrow> xs | _ \<Rightarrow> [s])"

definition on_position ::
    "jsstring \<Rightarrow> (tokenizer \<times> level list \<Rightarrow> (tokenizer \<times> level list) jsresult) \<Rightarrow> tokenizer \<Rightarrow> index \<Rightarrow> (tokenizer \<times> index) jsresult" where
  "on_position n f tk t =
     need (node_of t n) (\<lambda>x.
       case x of
         NPosition u \<Rightarrow> lift_err (f (tk, u)) (\<lambda>(tk, u). Inr (tk, put_node n (NPosition u) t))
       | _ \<Rightarrow> Inl TypeError)"

definition pt15_insert ::
    "separators \<Rightarrow> jsstring option \<Rightarrow> int \<Rightarrow> jsstring \<Rightarrow> nat \<Rightarrow> jsstring \<Rightarrow> jsval \<Rightarrow> tokenizer \<times> id_store \<times> index \<Rightarrow> (tokenizer \<times> id_store \<times> index) jsresult" where
  "pt15_insert seps lang cnt n d ty s = (\<lambda>(tk, ids, t).
     if \<not> is_text ty then
       lift_err (index_insert seps tk lang cnt None n d ty s (ids, t)) (\<lambda>(ids, t). Inr (tk, ids, t))
     else
       lift_err (on_position n (each_string (insertString seps lang n d) (texts s)) tk t) (\<lambda>(tk, t). Inr (tk, ids, t)))"

definition pt15_remove ::
    "separators \<Rightarrow> jsstring option \<Rightarrow> int \<Rightarrow> jsstring \<Rightarrow> jsstring \<Rightarrow> nat \<Rightarrow> jsstring \<Rightarrow> jsval \<Rightarrow> removal_state \<Rightarrow> (removal_state \<times> bool) jsresult" where
  "pt15_remove seps lang cnt n ext d ty s = (\<lambda>(tk, ids, t).
     if \<not> is_text ty then index_remove seps lang cnt n ext d ty s (tk, ids, t)
     else
       lift_err (on_position n (each_string (removeString seps lang n d) (texts s)) tk t) (\<lambda>(tk, t).
         Inr ((tk, ids, t), True)))"

fun pt15_maps ::
    "separators \<Rightarrow> jsstring \<Rightarrow> (jsstring, rat) jsmap \<Rightarrow> nat list option \<Rightarrow> index \<Rightarrow> jsstring list \<Rightarrow> tokenizer \<Rightarrow> (tokenizer \<times> position_scores list) jsresult" where
  "pt15_maps seps t boost flt e [] tk = Inr (tk, [])"
| "pt15_maps seps t boost flt e (s # ss) tk =
     need (node_of e s) (\<lambda>x.
     lift_err (searchString seps t (Some x) (case map_get boost s of None \<Rightarrow> 1 | Some b \<Rightarrow> b) flt tk) (\<lambda>(tk, i).
     lift_err (pt15_maps seps t boost flt e ss tk) (\<lambda>(tk, is). Inr (tk, i # is))))"

definition largest_map :: "position_scores list \<Rightarrow> nat" where
  "largest_map f =
     fst (foldl (\<lambda>(i, z) (r, m). if int (length m) > z then (r, int (length m)) else (i, z)) (0, -1) (enumerate 0 f))"

definition merge_map :: "position_scores \<Rightarrow> position_scores \<Rightarrow> position_scores" where
  "merge_map p t = foldl (\<lambda>p (e, n). map_set e (case map_get p e of None \<Rightarrow> n | Some x \<Rightarrow> x + n) p) p t"

definition merge_maps :: "position_scores list \<Rightarrow> position_scores jsresult" where
  "merge_maps f =
     (case f of
        [] \<Rightarrow> Inl TypeError
      | [m] \<Rightarrow> Inr m
      | _ \<Rightarrow>
          (let h = largest_map f
           in Inr (foldl merge_map (f ! h) (map (\<lambda>e. f ! e) (filter (\<lambda>e. e \<noteq> h) [0..<length f])))))"

definition pt15_search ::
    "separators \<Rightarrow> index \<Rightarrow> jsstring \<Rightarrow> tokenizer \<Rightarrow> jsstring list \<Rightarrow> bool \<Rightarrow> nat \<Rightarrow> (jsstring, rat) jsmap \<Rightarrow> nat list option \<Rightarrow> (tokenizer \<times> position_scores) jsresult" where
  "pt15_search seps e t tk props exact tol boost flt =
     (if tol \<noteq> 0 then Inl (JsError (js ''Tolerance not implemented yet''))
      else if exact then Inl (JsError (js ''Exact not implemented yet''))
      else
        lift_err (pt15_maps seps t boost flt e props tk) (\<lambda>(tk, f).
        lift_err (merge_maps f) (\<lambda>p. Inr (tk, p))))"

definition is_position :: "node \<Rightarrow> bool" where
  "is_position x = (case x of NPosition a \<Rightarrow> True | _ \<Rightarrow> False)"

definition pt15_where ::
    "separators \<Rightarrow> bool \<Rightarrow> jsstring option \<Rightarrow> index \<Rightarrow> (jsstring \<times> where_op) list \<Rightarrow> tokenizer \<Rightarrow> (tokenizer \<times> nat list) jsresult" where
  "pt15_where seps native lang e ws tk =
     (if list_ex (\<lambda>c. node_of e (fst c) = None) ws then Inl TypeError
      else if list_ex (\<lambda>c. case node_of e (fst c) of Some x \<Rightarrow> is_position x | None \<Rightarrow> False) ws
      then Inl (JsError (js ''String filters are not supported''))
      else searchByWhereClause seps native lang e ws tk)"

definition pt15_save :: "index \<Rightarrow> (index_json \<times> (jsstring, field_index) jsmap) jsresult" where
  "pt15_save e =
     lift_err (index_save (e\<lparr>indexes := filter (\<lambda>(n, fi). \<not> is_position (fi_node fi)) (indexes e)\<rparr>)) (\<lambda>j.
       Inr (j, filter (\<lambda>(n, fi). is_position (fi_node fi)) (indexes e)))"

definition pt15_load :: "index_json \<times> (jsstring, field_index) jsmap \<Rightarrow> index jsresult" where
  "pt15_load t =
     lift_err (index_load (fst t)) (\<lambda>n.
       Inr (n\<lparr>indexes := foldl (\<lambda>m (k, v). map_set k v m) (snd t) (indexes n)\<rparr>))"

subsection \<open>Postings\<close>

definition posting :: "level \<Rightarrow> jsstring \<Rightarrow> nat list" where
  "posting lv w = (case map_get lv w of None \<Rightarrow> [] | Some ds \<Rightarrow> ds)"

lemma get_position_less: "e < t \<Longrightarrow> get_position e t < 15"
  by (auto simp: get_position_def div_less_iff_less_mult)

lemma posting_push_prefix: "posting (push_prefix n r lv e) w = posting lv w @ (if w = take e n then [r] else [])"
  by (auto simp: posting_def push_prefix_def Let_def split: option.splits)

lemma posting_foldl_push:
  "posting (foldl (push_prefix n r) lv es) w = posting lv w @ concat (map (\<lambda>e. if w = take e n then [r] else []) es)"
  by (induction es arbitrary: lv) (simp_all add: posting_push_prefix)

lemma concat_single:
  "distinct es \<Longrightarrow> (\<And>e f. e \<in> set es \<Longrightarrow> f \<in> set es \<Longrightarrow> P e \<Longrightarrow> P f \<Longrightarrow> e = f) \<Longrightarrow>
   concat (map (\<lambda>e. if P e then [r] else []) es) = (if \<exists>e \<in> set es. P e then [r] else [])"
proof (induction es)
  case (Cons e es)
  have IH: "concat (map (\<lambda>e. if P e then [r] else []) es) = (if \<exists>e \<in> set es. P e then [r] else [])"
    using Cons.prems by (intro Cons.IH) simp_all
  have "\<not> (\<exists>f \<in> set es. P f)" if "P e"
    using Cons.prems that by auto
  with IH show ?case
    by auto
qed simp

lemma posting_push_prefixes: "posting (push_prefixes n r lv) w = posting lv w @ (if w \<noteq> [] \<and> startsWith n w then [r] else [])"
proof -
  have "concat (map (\<lambda>e. if w = take e n then [r] else []) (rev [1..<Suc (length n)])) =
      (if \<exists>e \<in> set (rev [1..<Suc (length n)]). w = take e n then [r] else [])"
  proof (rule concat_single)
    fix e f
    assume "e \<in> set (rev [1..<Suc (length n)])" "f \<in> set (rev [1..<Suc (length n)])" "w = take e n" "w = take f n"
    then show "e = f"
      by (auto dest: arg_cong [of _ _ length] simp del: upt_Suc)
  qed simp
  moreover have "(\<exists>e \<in> set (rev [1..<Suc (length n)]). w = take e n) \<longleftrightarrow> w \<noteq> [] \<and> startsWith n w"
  proof
    assume "w \<noteq> [] \<and> startsWith n w"
    then have "length w \<in> set (rev [1..<Suc (length n)])" "w = take (length w) n"
      by (auto simp: startsWith_iff Suc_le_eq simp del: upt_Suc)
    then show "\<exists>e \<in> set (rev [1..<Suc (length n)]). w = take e n"
      by blast
  next
    assume "\<exists>e \<in> set (rev [1..<Suc (length n)]). w = take e n"
    then obtain e where e: "1 \<le> e" "e \<le> length n" "w = take e n"
      by (auto simp del: upt_Suc)
    then have "w \<noteq> []" "n = w @ drop e n"
      by auto
    then show "w \<noteq> [] \<and> startsWith n w"
      unfolding startsWith_iff by blast
  qed
  ultimately show ?thesis
    by (simp add: push_prefixes_def posting_foldl_push del: upt_Suc)
qed

text \<open>The level of a word of a text.\<close>

definition level_of :: "jsstring list \<Rightarrow> nat \<Rightarrow> nat" where
  "level_of i e = 15 - get_position e (length i) - 1"

lemma level_of_less: "level_of i e < 15"
  by (simp add: level_of_def)

lemma insert_token_posting:
  assumes "length t = 15" "l < 15"
  shows "length (insert_token i r t e) = 15"
    "posting (insert_token i r t e ! l) w =
      posting (t ! l) w @ (if level_of i e = l \<and> w \<noteq> [] \<and> startsWith (i ! e) w then [r] else [])"
  using assms level_of_less [of i e]
  by (auto simp: insert_token_def Let_def level_of_def nth_list_update posting_push_prefixes)

lemma position_insert_posting:
  assumes "length t = 15" "l < 15" "w \<noteq> []"
  shows "length (position_insert i r t) = 15 \<and>
    posting (position_insert i r t ! l) w =
      posting (t ! l) w @ concat (map (\<lambda>e. if level_of i e = l \<and> startsWith (i ! e) w then [r] else []) [0..<length i])"
proof -
  have "length (foldl (insert_token i r) t es) = 15 \<and>
    posting (foldl (insert_token i r) t es ! l) w =
      posting (t ! l) w @ concat (map (\<lambda>e. if level_of i e = l \<and> startsWith (i ! e) w then [r] else []) es)"
    if "length t = 15" for t es
    using that
  proof (induction es arbitrary: t)
    case (Cons e es)
    note s = insert_token_posting [OF Cons.prems assms(2), of i r e]
    show ?case
      using Cons.IH [OF s(1)] s(2) [of w] assms(3) by simp
  qed simp
  from this [OF assms(1)] show ?thesis
    by (simp add: position_insert_def)
qed

subsection \<open>Scores\<close>

definition hits :: "jsstring list \<Rightarrow> level list \<Rightarrow> (nat \<times> nat) list" where
  "hits s n = concat (map (\<lambda>e. concat (map (\<lambda>t. map (\<lambda>d. (t, d)) (posting (n ! t) e)) [0..<15])) s)"

lemma search_level_hits:
  "search_level r flt n e i t = foldl (\<lambda>i (t, d). add_hit r flt t i d) i (map (\<lambda>d. (t, d)) (posting (n ! t) e))"
  by (simp add: search_level_def posting_def foldl_map split: option.split)

lemma foldl_concat_map: "foldl (\<lambda>i x. foldl f i (g x)) i xs = foldl f i (concat (map g xs))"
  by (induction xs arbitrary: i) simp_all

lemma position_search_hits: "position_search s n r flt = foldl (\<lambda>i (t, d). add_hit r flt t i d) [] (hits s n)"
proof -
  have "foldl (search_level r flt n e) i ts =
      foldl (\<lambda>i (t, d). add_hit r flt t i d) i (concat (map (\<lambda>t. map (\<lambda>d. (t, d)) (posting (n ! t) e)) ts))" for e i ts
    unfolding foldl_concat_map [symmetric] search_level_hits ..
  then show ?thesis
    by (simp only: position_search_def hits_def foldl_concat_map)
qed

definition admits :: "nat list option \<Rightarrow> nat \<Rightarrow> bool" where
  "admits flt d = (case flt of None \<Rightarrow> True | Some c \<Rightarrow> d \<in> set c)"

definition hit_score :: "rat \<Rightarrow> nat \<Rightarrow> (nat \<times> nat) list \<Rightarrow> rat" where
  "hit_score r d hs = (\<Sum>(t, x) \<leftarrow> hs. if x = d then of_nat t * r else 0)"

lemma hit_score_none: "d \<notin> snd ` set hs \<Longrightarrow> hit_score r d hs = 0"
  by (induction hs) (auto simp: hit_score_def)

lemma foldl_add_hit:
  "map_get (foldl (\<lambda>i (t, d). add_hit r flt t i d) i hs) d =
     (if admits flt d \<and> d \<in> snd ` set hs
      then Some ((case map_get i d of None \<Rightarrow> 0 | Some x \<Rightarrow> x) + hit_score r d hs) else map_get i d)"
proof (induction hs arbitrary: i)
  case (Cons h hs)
  obtain t x where h: "h = (t, x)"
    by fastforce
  have step: "map_get (add_hit r flt t i x) d =
      (if x = d \<and> admits flt d then Some ((case map_get i d of None \<Rightarrow> 0 | Some x \<Rightarrow> x) + of_nat t * r) else map_get i d)"
    by (cases flt) (auto simp: add_hit_def admits_def split: option.splits)
  have sum: "hit_score r d ((t, x) # hs) = (if x = d then of_nat t * r else 0) + hit_score r d hs"
    by (simp add: hit_score_def)
  show ?case
    using Cons.IH [of "add_hit r flt t i x"] hit_score_none [of d hs r] by (auto simp: h step sum split: option.splits)
qed (simp add: hit_score_def)

lemma position_search_get:
  "map_get (position_search s n r flt) d =
     (if admits flt d \<and> d \<in> snd ` set (hits s n) then Some (hit_score r d (hits s n)) else None)"
  by (simp add: position_search_hits foldl_add_hit)

lemma hit_score_append: "hit_score r d (xs @ ys) = hit_score r d xs + hit_score r d ys"
  by (simp add: hit_score_def)

lemma hit_score_concat: "hit_score r d (concat xss) = (\<Sum>xs \<leftarrow> xss. hit_score r d xs)"
  by (induction xss) (simp_all add: hit_score_append, simp add: hit_score_def)

lemma hit_score_level: "hit_score r d (map (\<lambda>d. (t, d)) ds) = of_nat (count_list ds d) * (of_nat t * r)"
  by (induction ds) (auto simp: hit_score_def algebra_simps)


subsection \<open>The index of a collection\<close>

definition position_of :: "(nat \<times> jsstring list) list \<Rightarrow> level list" where
  "position_of ps = foldl (\<lambda>t (d, ws). position_insert ws d t) position_empty ps"

definition word_hits :: "jsstring \<Rightarrow> nat \<Rightarrow> nat \<times> jsstring list \<Rightarrow> nat list" where
  "word_hits q l p =
     concat (map (\<lambda>e. if level_of (snd p) e = l \<and> startsWith (snd p ! e) q then [fst p] else []) [0..<length (snd p)])"

lemma position_of_posting:
  assumes "l < 15" "q \<noteq> []"
  shows "length (position_of ps) = 15 \<and> posting (position_of ps ! l) q = concat (map (word_hits q l) ps)"
proof (induction ps rule: rev_induct)
  case Nil
  show ?case
    using assms by (simp add: position_of_def position_empty_def posting_def)
next
  case (snoc p ps)
  have "position_of (ps @ [p]) = position_insert (snd p) (fst p) (position_of ps)"
    by (simp add: position_of_def split: prod.split)
  with snoc position_insert_posting [OF _ assms, of "position_of ps" "snd p" "fst p"] show ?case
    by (simp add: word_hits_def)
qed

definition text_score :: "rat \<Rightarrow> nat \<Rightarrow> jsstring \<Rightarrow> nat \<times> jsstring list \<Rightarrow> rat" where
  "text_score r d q p =
     (\<Sum>e \<leftarrow> [0..<length (snd p)]. if fst p = d \<and> startsWith (snd p ! e) q then of_nat (level_of (snd p) e) * r else 0)"

lemma sum_levels: "k < 15 \<Longrightarrow> (\<Sum>l \<leftarrow> [0..<15]. if l = k then f l else 0) = (f k :: rat)"
  by (simp add: interv_sum_list_conv_sum_set_nat)

lemma word_hits_score: "(\<Sum>l \<leftarrow> [0..<15]. hit_score r d (map (\<lambda>d. (l, d)) (word_hits q l p))) = text_score r d q p"
proof -
  have one: "(\<Sum>l \<leftarrow> [0..<15]. hit_score r d (map (\<lambda>d. (l, d)) (if level_of (snd p) e = l \<and> startsWith (snd p ! e) q then [fst p] else []))) =
      (if fst p = d \<and> startsWith (snd p ! e) q then of_nat (level_of (snd p) e) * r else 0)" for e
  proof (cases "fst p = d \<and> startsWith (snd p ! e) q")
    case True
    have "hit_score r d (map (\<lambda>d. (l, d)) (if level_of (snd p) e = l \<and> startsWith (snd p ! e) q then [fst p] else [])) =
        (if l = level_of (snd p) e then of_nat l * r else 0)" for l
      using True by (simp add: hit_score_def)
    then show ?thesis
      using True sum_levels [OF level_of_less, where f = "\<lambda>l. of_nat l * r"] by simp
  next
    case False
    have zero: "hit_score r d (map (\<lambda>d. (l, d)) (if level_of (snd p) e = l \<and> startsWith (snd p ! e) q then [fst p] else [])) = 0" for l
      using False by (auto simp: hit_score_def)
    show ?thesis
      unfolding zero using False by auto
  qed
  have "(\<Sum>l \<leftarrow> [0..<15]. hit_score r d (map (\<lambda>d. (l, d))
      (concat (map (\<lambda>e. if level_of (snd p) e = l \<and> startsWith (snd p ! e) q then [fst p] else []) es)))) =
    (\<Sum>e \<leftarrow> es. if fst p = d \<and> startsWith (snd p ! e) q then of_nat (level_of (snd p) e) * r else 0)" for es
  proof (induction es)
    case Nil
    show ?case
      by (simp add: hit_score_def)
  next
    case (Cons e es)
    show ?case
      unfolding list.map concat.simps map_append hit_score_append sum_list_addf one Cons.IH by simp
  qed
  then show ?thesis
    by (simp only: word_hits_def text_score_def)
qed

lemma collection_score:
  "(\<Sum>l \<leftarrow> [0..<15]. hit_score r d (map (\<lambda>d. (l, d)) (concat (map (word_hits q l) ps)))) = (\<Sum>p \<leftarrow> ps. text_score r d q p)"
proof (induction ps)
  case Nil
  show ?case
    by (simp add: hit_score_def)
next
  case (Cons p ps)
  show ?case
    unfolding list.map concat.simps map_append hit_score_append sum_list_addf word_hits_score Cons.IH by simp
qed

lemma hits_score:
  assumes "[] \<notin> set s"
  shows "hit_score r d (hits s (position_of ps)) = (\<Sum>q \<leftarrow> s. \<Sum>p \<leftarrow> ps. text_score r d q p)"
proof -
  have "(\<Sum>l \<leftarrow> [0..<15]. hit_score r d (map (\<lambda>d. (l, d)) (posting (position_of ps ! l) q))) = (\<Sum>p \<leftarrow> ps. text_score r d q p)"
    if "q \<in> set s" for q
  proof -
    have "q \<noteq> []"
      using that assms by auto
    then have "map (\<lambda>l. hit_score r d (map (\<lambda>d. (l, d)) (posting (position_of ps ! l) q))) [0..<15] =
        map (\<lambda>l. hit_score r d (map (\<lambda>d. (l, d)) (concat (map (word_hits q l) ps)))) [0..<15]"
      using position_of_posting by (intro map_cong) simp_all
    then show ?thesis
      by (simp only: collection_score)
  qed
  then have "map (\<lambda>q. \<Sum>l \<leftarrow> [0..<15]. hit_score r d (map (\<lambda>d. (l, d)) (posting (position_of ps ! l) q))) s =
      map (\<lambda>q. \<Sum>p \<leftarrow> ps. text_score r d q p) s"
    by (intro map_cong refl)
  then show ?thesis
    by (simp only: hits_def hit_score_concat map_map o_def)
qed

lemma hits_docs:
  assumes "[] \<notin> set s"
  shows "d \<in> snd ` set (hits s (position_of ps)) \<longleftrightarrow> (\<exists>q \<in> set s. \<exists>ws. (d, ws) \<in> set ps \<and> (\<exists>w \<in> set ws. startsWith w q))"
proof -
  have word: "(\<exists>l < 15. d \<in> set (word_hits q l p)) \<longleftrightarrow> fst p = d \<and> (\<exists>w \<in> set (snd p). startsWith w q)" for q p
  proof -
    have "d \<in> set (word_hits q l p) \<longleftrightarrow> fst p = d \<and> (\<exists>e < length (snd p). level_of (snd p) e = l \<and> startsWith (snd p ! e) q)" for l
      by (force simp: word_hits_def)
    then show ?thesis
      using level_of_less by (metis in_set_conv_nth)
  qed
  have post: "(\<exists>l < 15. d \<in> set (posting (position_of ps ! l) q)) \<longleftrightarrow>
      (\<exists>ws. (d, ws) \<in> set ps \<and> (\<exists>w \<in> set ws. startsWith w q))" if "q \<in> set s" for q
  proof -
    have "q \<noteq> []"
      using that assms by auto
    then have "(l < 15 \<and> d \<in> set (posting (position_of ps ! l) q)) \<longleftrightarrow> (l < 15 \<and> (\<exists>p \<in> set ps. d \<in> set (word_hits q l p)))" for l
      using position_of_posting [of l q ps] by auto
    then have "(\<exists>l < 15. d \<in> set (posting (position_of ps ! l) q)) \<longleftrightarrow> (\<exists>p \<in> set ps. \<exists>l < 15. d \<in> set (word_hits q l p))"
      by blast
    also have "\<dots> \<longleftrightarrow> (\<exists>ws. (d, ws) \<in> set ps \<and> (\<exists>w \<in> set ws. startsWith w q))"
      unfolding word by force
    finally show ?thesis .
  qed
  have "d \<in> snd ` set (hits s n) \<longleftrightarrow> (\<exists>q \<in> set s. \<exists>l < 15. d \<in> set (posting (n ! l) q))" for n
    by (force simp: hits_def)
  then show ?thesis
    using post by simp
qed

subsection \<open>Removal\<close>

lemma posting_drop_prefix: "posting (drop_prefix n r lv e) w = (if w = take e n then remove1 r (posting lv w) else posting lv w)"
  by (auto simp: posting_def drop_prefix_def Let_def split: option.splits)

lemma posting_foldl_drop:
  "posting (foldl (drop_prefix n r) lv es) w = (remove1 r ^^ length (filter (\<lambda>e. w = take e n) es)) (posting lv w)"
  by (induction es arbitrary: lv) (simp_all add: posting_drop_prefix funpow_swap1)

lemma length_concat_if: "length (concat (map (\<lambda>e. if P e then [r] else []) es)) = length (filter P es)"
  by (induction es) auto

lemma prefix_count:
  "length (filter (\<lambda>e. w = take e (n :: jsstring)) (rev [1..<Suc (length n)])) = (if w \<noteq> [] \<and> startsWith n w then 1 else 0)"
proof -
  have none: "posting [] w = []"
    by (simp add: posting_def)
  have "length (posting (push_prefixes n 0 []) w) = length (filter (\<lambda>e. w = take e n) (rev [1..<Suc (length n)]))"
    unfolding push_prefixes_def posting_foldl_push none length_append length_concat_if by simp
  from this [symmetric] show ?thesis
    unfolding posting_push_prefixes none append_Nil if_distrib [of length] list.size add_0 One_nat_def .
qed

lemma posting_drop_prefixes:
  "posting (drop_prefixes n r lv) w = (if w \<noteq> [] \<and> startsWith n w then remove1 r (posting lv w) else posting lv w)"
  unfolding drop_prefixes_def posting_foldl_drop prefix_count by simp

lemma remove_token_posting:
  assumes "length t = 15" "l < 15"
  shows "length (remove_token i r t e) = 15"
    "posting (remove_token i r t e ! l) w =
      (if level_of i e = l \<and> w \<noteq> [] \<and> startsWith (i ! e) w then remove1 r (posting (t ! l) w) else posting (t ! l) w)"
  using assms level_of_less [of i e]
  by (auto simp: remove_token_def Let_def level_of_def nth_list_update posting_drop_prefixes)

lemma position_remove_posting:
  assumes "length t = 15" "l < 15" "w \<noteq> []"
  shows "posting (position_remove i r t ! l) w =
    (remove1 r ^^ length (filter (\<lambda>e. level_of i e = l \<and> startsWith (i ! e) w) [0..<length i])) (posting (t ! l) w)"
proof -
  have "posting (foldl (remove_token i r) t es ! l) w =
    (remove1 r ^^ length (filter (\<lambda>e. level_of i e = l \<and> startsWith (i ! e) w) es)) (posting (t ! l) w)"
    if "length t = 15" for t es
    using that
  proof (induction es arbitrary: t)
    case (Cons e es)
    note s = remove_token_posting [OF Cons.prems assms(2), of i r e]
    show ?case
      using Cons.IH [OF s(1)] s(2) [of w] assms(3) by (simp add: funpow_swap1)
  qed simp
  from this [OF assms(1)] show ?thesis
    by (simp add: position_remove_def)
qed

lemma concat_if_replicate: "concat (map (\<lambda>e. if P e then [r] else []) es) = replicate (length (filter P es)) r"
  by (induction es) auto

lemma remove1_pow_replicate: "r \<notin> set ds \<Longrightarrow> (remove1 r ^^ k) (ds @ replicate k r) = ds"
  by (induction k) (simp_all add: funpow_swap1 remove1_append)

subsection \<open>Several fields\<close>

definition total_score :: "rat option list \<Rightarrow> rat option" where
  "total_score xs = (if \<exists>x \<in> set xs. x \<noteq> None then Some (\<Sum>x \<leftarrow> xs. case x of None \<Rightarrow> 0 | Some a \<Rightarrow> a) else None)"

lemma total_mset: "mset xs = mset ys \<Longrightarrow> total_score xs = total_score ys"
  unfolding total_score_def by (metis (no_types, lifting) mset_map set_mset_mset sum_mset_sum_list)

lemma total_simps [simp]: "total_score [] = None" "total_score [x] = x"
  by (auto simp: total_score_def split: option.split)

lemma total_merge: "total_score (total_score [x, y] # xs) = total_score (x # y # xs)"
  by (auto simp: total_score_def split: option.splits)

lemma merge_map_get: "wf_map t \<Longrightarrow> map_get (merge_map p t) d = total_score [map_get p d, map_get t d]"
proof (induction t arbitrary: p)
  case Nil
  show ?case
    by (auto simp: merge_map_def total_score_def split: option.split)
next
  case (Cons x t)
  obtain e n where x: "x = (e, n)"
    by fastforce
  have t: "wf_map t" "map_get t e = None"
    using Cons.prems by (auto simp: x wf_map_def map_of_eq_None_iff)
  show ?case
    using Cons.IH [OF t(1), of "map_set e (case map_get p e of None \<Rightarrow> n | Some x \<Rightarrow> x + n) p"] t(2)
    by (auto simp: merge_map_def x total_score_def split: option.splits)
qed

lemma foldl_merge_get:
  "list_all wf_map ts \<Longrightarrow> map_get (foldl merge_map p ts) d = total_score (map_get p d # map (\<lambda>t. map_get t d) ts)"
  by (induction ts arbitrary: p) (simp_all add: merge_map_get total_merge)

lemma largest_map_less: "f \<noteq> [] \<Longrightarrow> largest_map f < length f"
proof -
  have "fst (foldl (\<lambda>(i, z) (r, m). if int (length m) > z then (r, int (length m)) else (i, z)) a (enumerate k g)) \<in>
      insert (fst a) {k..<k + length g}" for a k and g :: "position_scores list"
  proof (induction g arbitrary: a k)
    case (Cons m g)
    let ?a = "if int (length m) > snd a then (k, int (length m)) else a"
    have "?a = (case a of (i, z) \<Rightarrow> if int (length m) > z then (k, int (length m)) else (i, z))"
      by (simp split: prod.split)
    with Cons.IH [of ?a "Suc k"] show ?case
      by (auto split: if_splits prod.splits)
  qed simp
  from this [of "(0, -1)" 0 f] show "f \<noteq> [] \<Longrightarrow> largest_map f < length f"
    by (auto simp: largest_map_def)
qed

lemma mset_pick:
  assumes "h < length f"
  shows "mset (f ! h # map (\<lambda>e. f ! e) (filter (\<lambda>e. e \<noteq> h) [0..<length f])) = mset f"
proof -
  have "filter (\<lambda>e. e \<noteq> h) xs = removeAll h xs" for xs
    by (induction xs) auto
  then have "filter (\<lambda>e. e \<noteq> h) [0..<length f] = remove1 h [0..<length f]"
    by (simp add: distinct_remove1_removeAll)
  then have "mset (h # filter (\<lambda>e. e \<noteq> h) [0..<length f]) = mset [0..<length f]"
    using assms by simp
  then have "mset (map (\<lambda>e. f ! e) (h # filter (\<lambda>e. e \<noteq> h) [0..<length f])) = mset (map (\<lambda>e. f ! e) [0..<length f])"
    by (simp only: mset_map)
  then show ?thesis
    by (simp add: map_nth)
qed

lemma merge_maps_total:
  assumes "f \<noteq> []" "list_all wf_map f"
  shows "\<exists>m. merge_maps f = Inr m \<and> (\<forall>d. map_get m d = total_score (map (\<lambda>t. map_get t d) f))"
proof (cases "tl f = []")
  case True
  then obtain m where "f = [m]"
    using assms(1) by (cases f) auto
  then show ?thesis
    by (simp add: merge_maps_def)
next
  case False
  let ?h = "largest_map f"
  let ?rest = "map (\<lambda>e. f ! e) (filter (\<lambda>e. e \<noteq> ?h) [0..<length f])"
  have "set ?rest \<subseteq> set f"
    by auto
  then have wf: "list_all wf_map ?rest"
    using assms(2) by (auto simp: list_all_iff)
  have "map_get (foldl merge_map (f ! ?h) ?rest) d = total_score (map (\<lambda>t. map_get t d) f)" for d
  proof -
    have "mset (map (\<lambda>t. map_get t d) (f ! ?h # ?rest)) = mset (map (\<lambda>t. map_get t d) f)"
      using mset_pick [OF largest_map_less [OF assms(1)]] by (simp only: mset_map)
    from total_mset [OF this] show ?thesis
      unfolding foldl_merge_get [OF wf] by (simp only: list.map)
  qed
  moreover have "merge_maps f = Inr (foldl merge_map (f ! ?h) ?rest)"
    using False assms(1) by (auto simp: merge_maps_def Let_def split: list.split)
  ultimately show ?thesis
    by blast
qed

lemma merge_maps_wf: "merge_maps f = Inr m \<Longrightarrow> list_all wf_map f \<Longrightarrow> wf_map m"
proof -
  assume m: "merge_maps f = Inr m" and f: "list_all wf_map f"
  have step: "wf_map (merge_map p t)" if "wf_map p" for p t
    using that unfolding merge_map_def by (induction t arbitrary: p) auto
  have fold: "wf_map (foldl merge_map p ts)" if "wf_map p" for p ts
    using that by (induction ts arbitrary: p) (simp_all add: step)
  show "wf_map m"
  proof (cases "tl f = []")
    case True
    with m f show ?thesis
      by (cases f) (auto simp: merge_maps_def)
  next
    case False
    then have "f \<noteq> []"
      by auto
    from largest_map_less [OF this] have "wf_map (f ! largest_map f)"
      using f by (simp add: list_all_length)
    with m False fold show ?thesis
      by (auto simp: merge_maps_def Let_def split: list.splits)
  qed
qed

lemma position_search_wf: "wf_map (position_search s n r flt)"
proof -
  have "wf_map (foldl (\<lambda>i (t, d). add_hit r flt t i d) i hs)" if "wf_map i" for i hs
    using that by (induction hs arbitrary: i) (auto simp: add_hit_def)
  from this [OF wf_map_Nil] show ?thesis
    unfolding position_search_hits .
qed

definition boost_of :: "(jsstring, rat) jsmap \<Rightarrow> jsstring \<Rightarrow> rat" where
  "boost_of boost s = (case map_get boost s of None \<Rightarrow> 1 | Some b \<Rightarrow> b)"

text \<open>What a search reports of one field that holds the texts \<open>ps\<close>: the sum, over the words that
  start with a term, of the level of the word times the boost.\<close>

definition field_score :: "jsstring list \<Rightarrow> rat \<Rightarrow> nat list option \<Rightarrow> (nat \<times> jsstring list) list \<Rightarrow> nat \<Rightarrow> rat option" where
  "field_score s r flt ps d =
     (if admits flt d \<and> (\<exists>q \<in> set s. \<exists>ws. (d, ws) \<in> set ps \<and> (\<exists>w \<in> set ws. startsWith w q))
      then Some (\<Sum>q \<leftarrow> s. \<Sum>p \<leftarrow> ps. text_score r d q p) else None)"

lemma position_search_score:
  "[] \<notin> set s \<Longrightarrow> map_get (position_search s (position_of ps) r flt) d = field_score s r flt ps d"
  by (simp add: position_search_get hits_docs hits_score field_score_def)

lemma pt15_maps_run:
  assumes "cache_ok tk" "list_all (\<lambda>s. node_of e s = Some (NPosition (lv s))) ss"
  shows "\<exists>tk'. pt15_maps seps t boost flt e ss tk =
    Inr (tk', map (\<lambda>s. position_search (fresh_tokens seps tk [] t) (lv s) (boost_of boost s) flt) ss) \<and> cache_ok tk' \<and> same_settings tk tk'"
  using assms
proof (induction ss arbitrary: tk)
  case (Cons s ss)
  obtain tk1 where tk1: "tokenize seps tk t None None True = Inr (tk1, fresh_tokens seps tk [] t)" "cache_ok tk1" "same_settings tk tk1"
    using tokenize_fresh [OF Cons.prems(1), of None None seps t True] by auto
  obtain tk2 where 2: "pt15_maps seps t boost flt e ss tk1 =
      Inr (tk2, map (\<lambda>s. position_search (fresh_tokens seps tk1 [] t) (lv s) (boost_of boost s) flt) ss)" "cache_ok tk2" "same_settings tk1 tk2"
    using Cons.IH [OF tk1(2)] Cons.prems(2) by auto
  have "same_settings tk tk2"
    using same_settings_trans [OF tk1(3) 2(3)] .
  with 2 tk1(1) Cons.prems(2) show ?case
    by (simp add: searchString_def need_def boost_of_def fresh_tokens_settings [OF tk1(3)])
qed simp

lemma pt15_search_scores:
  assumes "cache_ok tk" "props \<noteq> []"
    and "list_all (\<lambda>s. node_of e s = Some (NPosition (position_of (ps s)))) props"
  shows "\<exists>tk' m. pt15_search seps e str tk props False 0 boost flt = Inr (tk', m) \<and> wf_map m \<and> cache_ok tk' \<and> same_settings tk tk' \<and>
    (\<forall>d. map_get m d = total_score (map (\<lambda>s. field_score (fresh_tokens seps tk [] str) (boost_of boost s) flt (ps s) d) props))"
proof -
  let ?q = "fresh_tokens seps tk [] str"
  let ?f = "map (\<lambda>s. position_search ?q (position_of (ps s)) (boost_of boost s) flt) props"
  obtain tk' where maps: "pt15_maps seps str boost flt e props tk = Inr (tk', ?f)" "cache_ok tk'" "same_settings tk tk'"
    using pt15_maps_run [OF assms(1,3)] by blast
  have "?f \<noteq> []" "list_all wf_map ?f"
    using assms(2) by (simp_all add: list_all_iff position_search_wf)
  from merge_maps_total [OF this] obtain m where m: "merge_maps ?f = Inr m"
    "\<forall>d. map_get m d = total_score (map (\<lambda>t. map_get t d) ?f)"
    by blast
  have "pt15_search seps e str tk props False 0 boost flt = Inr (tk', m)"
    by (simp add: pt15_search_def maps(1) m(1))
  moreover have "map_get m d = total_score (map (\<lambda>s. field_score ?q (boost_of boost s) flt (ps s) d) props)" for d
    using m(2) by (simp only: map_map o_def position_search_score [OF fresh_tokens_not_Nil])
  moreover have "wf_map m"
    using merge_maps_wf [OF m(1)] by (simp add: list_all_iff position_search_wf)
  ultimately show ?thesis
    using maps(2,3) by blast
qed

subsection \<open>Properties\<close>

text \<open>
  C6: A search over text fields that hold a collection of texts succeeds and reports a document
  exactly if it passes the filter and one of its texts in one of the fields has a word that starts
  with a search term. Its score is the sum over the fields of the level of each such word times the
  boost of the field, whichever field has the most hits and so is merged into.
\<close>

theorem pt15_search_correct:
  assumes "cache_ok tk" "props \<noteq> []"
    and "list_all (\<lambda>s. node_of e s = Some (NPosition (position_of (ps s)))) props"
  shows "\<exists>tk' m. pt15_search seps e str tk props False 0 boost flt = Inr (tk', m) \<and>
    (\<forall>d. map_get m d = total_score (map (\<lambda>s. field_score (fresh_tokens seps tk [] str) (boost_of boost s) flt (ps s) d) props))"
  using pt15_search_scores [OF assms] by blast

definition two_fields :: index where
  "two_fields =
     set_node (js ''body'') (NPosition (position_of [(1, [js ''fast'', js ''jobs''])])) False
       (set_node (js ''title'') (NPosition (position_of [(1, [js ''jobs'']), (2, [js ''task''])])) False index_empty)"

theorem pt15_search_correct_witness:
  "\<exists>tk' m. pt15_search (\<lambda>_. english_sep) two_fields (js ''job'') default_tokenizer [js ''title'', js ''body''] False 0 [] None = Inr (tk', m) \<and>
     map_get m 1 = Some 27 \<and> map_get m 2 = None"
proof -
  let ?ps = "\<lambda>s. if s = js ''title'' then [(1, [js ''jobs'']), (2, [js ''task''])] else [(1, [js ''fast'', js ''jobs''])]"
  have q: "fresh_tokens (\<lambda>_. english_sep) default_tokenizer [] (js ''job'') = [js ''job'']"
    by code_simp
  have n: "list_all (\<lambda>s. node_of two_fields s = Some (NPosition (position_of (?ps s)))) [js ''title'', js ''body'']"
    by code_simp
  have v: "total_score (map (\<lambda>s. field_score [js ''job''] (boost_of [] s) None (?ps s) 1) [js ''title'', js ''body'']) = Some 27"
    "total_score (map (\<lambda>s. field_score [js ''job''] (boost_of [] s) None (?ps s) 2) [js ''title'', js ''body'']) = None"
    by (simp_all add: total_score_def field_score_def text_score_def level_of_def get_position_def boost_of_def admits_def
        startsWith_def) (code_simp+)
  have t: "[js ''title'', js ''body''] \<noteq> []"
    by simp
  from pt15_search_correct [where boost = "[]" and flt = None and seps = "\<lambda>_. english_sep" and str = "js ''job''", OF createTokenizer_empty_cache [OF createTokenizer_default] t n]
  show ?thesis
    unfolding q v [symmetric] by blast
qed

text \<open>
  Removing from the levels the words of a text that was inserted for a new document restores every
  posting list, also where several words of the text share a prefix at one level.
\<close>

theorem position_remove_insert:
  assumes "length t = 15" "\<forall>l < 15. \<forall>w. r \<notin> set (posting (t ! l) w)" "l < 15" "w \<noteq> []"
  shows "posting (position_remove i r (position_insert i r t) ! l) w = posting (t ! l) w"
proof -
  note ins = position_insert_posting [OF assms(1,3,4), of i r]
  have "r \<notin> set (posting (t ! l) w)"
    using assms(2,3) by blast
  then show ?thesis
    using ins position_remove_posting [OF _ assms(3,4), of "position_insert i r t" i r]
    by (simp add: concat_if_replicate remove1_pow_replicate)
qed

theorem position_remove_insert_witness:
  "posting (position_remove [js ''job'', js ''jobs''] 2 (position_insert [js ''job'', js ''jobs''] 2 (position_of [(1, [js ''job''])])) ! 14) (js ''jo'') = [1]"
proof -
  have new: "\<forall>l < 15. \<forall>w. 2 \<notin> set (posting (position_of [(1, [js ''job''])] ! l) w)"
    by (intro allI impI)
      (auto simp: position_of_def position_empty_def position_insert_def insert_token_def get_position_def
        posting_push_prefixes nth_list_update, simp add: posting_def)
  have "posting (position_of [(1, [js ''job''])] ! 14) (js ''jo'') = [1]"
    by code_simp
  then show ?thesis
    using position_remove_insert [OF _ new, of 14 "js ''jo''" "[js ''job'', js ''jobs'']"]
    by (simp add: position_of_posting)
qed

text \<open>
  The search fails where it is not implemented: with a tolerance, with exact matching, and, though
  nothing in the code says so, with an empty list of fields, where it reads the best of no maps.
\<close>

theorem pt15_search_errors:
  "pt15_search seps e str tk props exact (Suc k) boost flt = Inl (JsError (js ''Tolerance not implemented yet'')) \<and>
   pt15_search seps e str tk props True 0 boost flt = Inl (JsError (js ''Exact not implemented yet'')) \<and>
   pt15_search seps e str tk [] False 0 boost flt = Inl TypeError"
  by (simp_all add: pt15_search_def merge_maps_def)

end
