(* ===== verification/Orama_Sorter.thy ===== *)
theory Orama_Sorter
  imports Orama_Store Orama_Util
begin

text \<open>
  Sorting of results by a property (\<^verbatim>\<open>assets/js/search-orama.js\<close>): the sort index and
  its creation (\<^verbatim>\<open>Ue\<close>, \<^verbatim>\<open>Be\<close>), insertion and removal
  (\<^verbatim>\<open>je\<close>, \<^verbatim>\<open>Ye\<close>, \<^verbatim>\<open>Je\<close>), the deferred sort
  (\<^verbatim>\<open>We\<close>, \<^verbatim>\<open>Ge\<close>), sorting results (\<^verbatim>\<open>He\<close>) and the
  JSON form (\<^verbatim>\<open>Xe\<close>, \<^verbatim>\<open>Ze\<close>). String comparison in a locale is a
  parameter of the operations that sort. An array sorted with an inconsistent comparison, as the one for
  booleans is on equal values, has an order that the language leaves open; here it is the one of
  \<open>js_sort\<close>.
\<close>

subsection \<open>State\<close>

record sort_entry =
  se_docs :: "(nat, nat) jsmap"
  se_orderedDocsToRemove :: "nat list"
  se_orderedDocs :: "(nat \<times> jsval) list"
  se_type :: jsstring

record sorter =
  so_language :: jsstring
  so_enabled :: bool
  so_isSorted :: bool
  sortableProperties :: "jsstring list"
  sortablePropertiesWithTypes :: "(jsstring, jsstring) jsmap"
  sorts :: "(jsstring, sort_entry) jsmap"

definition sorter_empty :: "jsstring \<Rightarrow> sorter" where
  "sorter_empty lang =
     \<lparr>so_language = lang, so_enabled = True, so_isSorted = True, sortableProperties = [],
      sortablePropertiesWithTypes = [], sorts = []\<rparr>"

text \<open>The object \<^verbatim>\<open>{ disabled: true }\<close>, whose \<^verbatim>\<open>enabled\<close> is undefined.\<close>

definition sorter_disabled :: sorter where
  "sorter_disabled = (sorter_empty [])\<lparr>so_enabled := False\<rparr>"

definition sort_path :: "jsstring \<Rightarrow> jsstring \<Rightarrow> jsstring" where
  "sort_path prefix s = (if prefix = [] then s else prefix @ [dot] @ s)"

definition entry_new :: "jsstring \<Rightarrow> sort_entry" where
  "entry_new a = \<lparr>se_docs = [], se_orderedDocsToRemove = [], se_orderedDocs = [], se_type = a\<rparr>"

definition map_spread :: "('k, 'v) jsmap \<Rightarrow> ('k, 'v) jsmap \<Rightarrow> ('k, 'v) jsmap" where
  "map_spread a b = foldl (\<lambda>m (k, v). map_set k v m) a b"

definition sort_field :: "jsstring \<Rightarrow> jsstring \<Rightarrow> sorter \<Rightarrow> sorter jsresult" where
  "sort_field n a s =
     (if isVectorType a then Inr s
      else if a \<in> {js ''boolean'', js ''number'', js ''string''} then
        Inr (s\<lparr>sortableProperties := sortableProperties s @ [n],
               sortablePropertiesWithTypes := map_set n a (sortablePropertiesWithTypes s),
               sorts := map_set n (entry_new a) (sorts s)\<rparr>)
      else if a \<in> {js ''geopoint'', js ''enum'', js ''enum[]'', js ''boolean[]'', js ''number[]'', js ''string[]''} then Inr s
      else Inl (JsError (js ''INVALID_SORT_SCHEMA_TYPE'')))"

function sorter_fields :: "jsstring \<Rightarrow> jsstring list \<Rightarrow> jsstring \<Rightarrow> (jsstring \<times> schema) list \<Rightarrow> sorter \<Rightarrow> sorter jsresult" where
  "sorter_fields lang r p [] s = Inr s"
| "sorter_fields lang r p ((i, a) # rest) s =
     (let n = sort_path p i
      in if n \<in> set r then sorter_fields lang r p rest s
         else
           (case a of
              TyName ty \<Rightarrow> lift_err (sort_field n ty s) (sorter_fields lang r p rest)
            | TyObj kvs \<Rightarrow>
                lift_err (sorter_fields lang r n kvs (sorter_empty lang)) (\<lambda>q.
                  sorter_fields lang r p rest
                    (s\<lparr>sortableProperties := pushAll (sortableProperties s) (sortableProperties q),
                       sorts := map_spread (sorts s) (sorts q),
                       sortablePropertiesWithTypes := map_spread (sortablePropertiesWithTypes s) (sortablePropertiesWithTypes q)\<rparr>))))"
  by pat_completeness auto
termination
  by (relation "measure (\<lambda>(lang, r, p, kvs, s). size_list (size_prod (\<lambda>_. 0) size) kvs)") auto

record sort_options =
  sopt_enabled :: "bool option"
  unsortableProperties :: "jsstring list option"

definition sorter_create :: "jsstring \<Rightarrow> (jsstring \<times> schema) list \<Rightarrow> sort_options option \<Rightarrow> sorter jsresult" where
  "sorter_create lang kvs r =
     (if (case r of None \<Rightarrow> True | Some c \<Rightarrow> sopt_enabled c \<noteq> Some False)
      then sorter_fields lang
        (case r of None \<Rightarrow> [] | Some c \<Rightarrow> (case unsortableProperties c of None \<Rightarrow> [] | Some u \<Rightarrow> u)) [] kvs (sorter_empty lang)
      else Inr sorter_disabled)"

subsection \<open>Insertion, removal and the deferred sort\<close>

definition entry_purge :: "sort_entry \<Rightarrow> sort_entry" where
  "entry_purge n =
     (if se_orderedDocsToRemove n \<noteq> [] then
        n\<lparr>se_orderedDocs := filter (\<lambda>e. fst e \<notin> set (se_orderedDocsToRemove n)) (se_orderedDocs n),
          se_orderedDocsToRemove := []\<rparr>
      else n)"

definition ensurePropertyIsPurged :: "jsstring \<Rightarrow> sorter \<Rightarrow> sorter" where
  "ensurePropertyIsPurged t e =
     (case map_get (sorts e) t of None \<Rightarrow> e | Some n \<Rightarrow> e\<lparr>sorts := map_set t (entry_purge n) (sorts e)\<rparr>)"

definition entry_insert :: "nat \<Rightarrow> jsval \<Rightarrow> sort_entry \<Rightarrow> sort_entry" where
  "entry_insert d r s =
     (let s = (if d \<in> set (se_orderedDocsToRemove s) then entry_purge s else s)
      in s\<lparr>se_docs := map_set d (length (se_orderedDocs s)) (se_docs s), se_orderedDocs := se_orderedDocs s @ [(d, r)]\<rparr>)"

definition sorter_insert :: "jsstring \<Rightarrow> doc_id \<Rightarrow> jsval \<Rightarrow> id_store \<times> sorter \<Rightarrow> (id_store \<times> sorter) jsresult" where
  "sorter_insert t n r = (\<lambda>(ids, e).
     if \<not> so_enabled e then Inr (ids, e)
     else
       (let e = e\<lparr>so_isSorted := False\<rparr>; (ids, d) = getInternalDocumentId ids n
        in case map_get (sorts e) t of
             None \<Rightarrow> Inl TypeError
           | Some s \<Rightarrow> Inr (ids, e\<lparr>sorts := map_set t (entry_insert d r s) (sorts e)\<rparr>)))"

text \<open>A document whose position is 0 is not removed: the code tests the position itself.\<close>

definition entry_remove :: "nat \<Rightarrow> sort_entry \<Rightarrow> sort_entry" where
  "entry_remove d r =
     (case map_get (se_docs r) d of
        Some (Suc i) \<Rightarrow> r\<lparr>se_docs := map_del d (se_docs r), se_orderedDocsToRemove := set_add d (se_orderedDocsToRemove r)\<rparr>
      | _ \<Rightarrow> r)"

definition sorter_remove :: "jsstring \<Rightarrow> doc_id \<Rightarrow> id_store \<times> sorter \<Rightarrow> (id_store \<times> sorter) jsresult" where
  "sorter_remove t n = (\<lambda>(ids, e).
     if \<not> so_enabled e then Inr (ids, e)
     else
       (let (ids, d) = getInternalDocumentId ids n
        in case map_get (sorts e) t of
             None \<Rightarrow> Inl TypeError
           | Some r \<Rightarrow> Inr (ids, e\<lparr>sorts := map_set t (entry_remove d r) (sorts e)\<rparr>)))"

definition locale_of :: "(jsstring, jsstring) jsmap \<Rightarrow> jsstring \<Rightarrow> jsstring option" where
  "locale_of locales e = map_get locales e"

definition stringSort :: "(jsstring option \<Rightarrow> jsstring \<Rightarrow> jsstring \<Rightarrow> rat) \<Rightarrow> jsstring option \<Rightarrow> nat \<times> jsval \<Rightarrow> nat \<times> jsval \<Rightarrow> rat" where
  "stringSort lc l t r = (case (snd t, snd r) of (JStr x, JStr y) \<Rightarrow> lc l x y | _ \<Rightarrow> 0)"

definition numberSort :: "nat \<times> jsval \<Rightarrow> nat \<times> jsval \<Rightarrow> rat" where
  "numberSort e t = (case (snd e, snd t) of (JNum x, JNum y) \<Rightarrow> x - y | _ \<Rightarrow> 0)"

definition booleanSort :: "nat \<times> jsval \<Rightarrow> nat \<times> jsval \<Rightarrow> rat" where
  "booleanSort e t = (if js_truthy (snd t) then -1 else 1)"

definition entry_comparator ::
    "(jsstring option \<Rightarrow> jsstring \<Rightarrow> jsstring \<Rightarrow> rat) \<Rightarrow> jsstring option \<Rightarrow> jsstring \<Rightarrow> nat \<times> jsval \<Rightarrow> nat \<times> jsval \<Rightarrow> rat" where
  "entry_comparator lc l ty =
     (if ty = js ''string'' then stringSort lc l else if ty = js ''number'' then numberSort else booleanSort)"

definition entry_sort :: "(nat \<times> jsval \<Rightarrow> nat \<times> jsval \<Rightarrow> rat) \<Rightarrow> sort_entry \<Rightarrow> sort_entry" where
  "entry_sort cmp n =
     (let xs = js_sort cmp (se_orderedDocs n)
      in n\<lparr>se_orderedDocs := xs, se_docs := foldl (\<lambda>m (i, x). map_set (fst x) i m) (se_docs n) (enumerate 0 xs)\<rparr>)"

record sort_env =
  env_locales :: "(jsstring, jsstring) jsmap"
  env_compare :: "jsstring option \<Rightarrow> jsstring \<Rightarrow> jsstring \<Rightarrow> rat"

definition ensureIsSorted :: "sort_env \<Rightarrow> sorter \<Rightarrow> sorter" where
  "ensureIsSorted env e =
     (if so_isSorted e \<or> \<not> so_enabled e then e
      else
        e\<lparr>sorts := map (\<lambda>(k, n). (k, entry_sort (entry_comparator (env_compare env) (locale_of (env_locales env) (so_language e)) (se_type n)) n)) (sorts e),
          so_isSorted := True\<rparr>)"

subsection \<open>Sorting results\<close>

definition rank_order :: "bool \<Rightarrow> nat option \<Rightarrow> nat option \<Rightarrow> int" where
  "rank_order desc r i =
     (case (r, i) of
        (None, None) \<Rightarrow> 0
      | (Some r, None) \<Rightarrow> -1
      | (None, Some i) \<Rightarrow> 1
      | (Some r, Some i) \<Rightarrow> if desc then int i - int r else int r - int i)"

definition sorter_sortBy ::
    "sort_env \<Rightarrow> jsstring \<Rightarrow> bool \<Rightarrow> (nat \<times> 's) list \<Rightarrow> sorter \<Rightarrow> (sorter \<times> (nat \<times> 's) list) jsresult" where
  "sorter_sortBy env p desc t e =
     (if \<not> so_enabled e then Inl (JsError (js ''SORT_DISABLED''))
      else
        (case map_get (sorts e) p of
           None \<Rightarrow> Inl (JsError (js ''UNABLE_TO_SORT_ON_UNKNOWN_FIELD''))
         | Some _ \<Rightarrow>
             (let e = ensureIsSorted env (ensurePropertyIsPurged p e);
                  pos = (case map_get (sorts e) p of None \<Rightarrow> (\<lambda>_. None) | Some s \<Rightarrow> map_get (se_docs s))
              in Inr (e, js_sort (\<lambda>a b. rank_order desc (pos (fst a)) (pos (fst b))) t))))"

definition getSortableProperties :: "sorter \<Rightarrow> jsstring list" where
  "getSortableProperties e = (if so_enabled e then sortableProperties e else [])"

definition getSortablePropertiesWithTypes :: "sorter \<Rightarrow> (jsstring, jsstring) jsmap" where
  "getSortablePropertiesWithTypes e = (if so_enabled e then sortablePropertiesWithTypes e else [])"

subsection \<open>Serialisation\<close>

text \<open>The saved form: the same fields, without the documents to remove; None stands for a disabled sorter.\<close>

record sort_entry_json =
  sj_docs :: "(jsstring, nat) jsmap"
  sj_orderedDocs :: "(nat \<times> jsval) list"
  sj_type :: jsstring

definition sorter_save :: "sort_env \<Rightarrow> sorter \<Rightarrow> sorter \<times> (sorter \<times> (jsstring, sort_entry_json) jsmap) option" where
  "sorter_save env e =
     (if \<not> so_enabled e then (e, None)
      else
        (let e = ensureIsSorted env (e\<lparr>sorts := map (\<lambda>(k, n). (k, entry_purge n)) (sorts e)\<rparr>)
         in (e, Some (e\<lparr>sorts := []\<rparr>,
               map (\<lambda>(k, n). (k, \<lparr>sj_docs = map (\<lambda>(d, i). (nat_toString d, i)) (se_docs n),
                  sj_orderedDocs = se_orderedDocs n, sj_type = se_type n\<rparr>)) (sorts e)))))"

definition js_number :: "jsstring \<Rightarrow> nat" where
  "js_number s = parse_digits s"

definition sorter_load :: "(sorter \<times> (jsstring, sort_entry_json) jsmap) option \<Rightarrow> sorter" where
  "sorter_load t =
     (case t of
        None \<Rightarrow> sorter_disabled
      | Some (e, ss) \<Rightarrow>
          e\<lparr>sorts := map (\<lambda>(k, s). (k, \<lparr>se_docs = map_spread [] (map (\<lambda>(d, i). (js_number d, i)) (sj_docs s)),
             se_orderedDocsToRemove = [], se_orderedDocs = sj_orderedDocs s, se_type = sj_type s\<rparr>)) ss, so_enabled := True\<rparr>)"

lemma map_spread_new:
  "distinct (map fst (a @ b)) \<Longrightarrow> map_spread a b = a @ b"
proof (induction b arbitrary: a)
  case (Cons x b)
  obtain k v where x: "x = (k, v)"
    by fastforce
  have "map_get a k = None"
    using Cons.prems by (auto simp: x map_of_eq_None_iff)
  with Cons.IH [of "a @ [(k, v)]"] Cons.prems show ?case
    by (simp add: map_spread_def x map_set_new)
qed (simp add: map_spread_def)

subsection \<open>Positions after sorting\<close>

definition positions :: "(nat \<times> jsval) list \<Rightarrow> nat \<Rightarrow> (nat, nat) jsmap \<Rightarrow> (nat, nat) jsmap" where
  "positions xs k m = foldl (\<lambda>m (i, x). map_set (fst x) i m) m (enumerate k xs)"

lemma positions_Cons: "positions (x # xs) k m = positions xs (Suc k) (map_set (fst x) k m)"
  by (simp add: positions_def)

lemma positions_other: "d \<notin> fst ` set xs \<Longrightarrow> map_get (positions xs k m) d = map_get m d"
proof (induction xs arbitrary: k m)
  case Nil
  show ?case
    by (simp add: positions_def)
next
  case (Cons x xs)
  then show ?case
    by (simp add: positions_Cons)
qed

lemma positions_nth: "distinct (map fst xs) \<Longrightarrow> i < length xs \<Longrightarrow> map_get (positions xs k m) (fst (xs ! i)) = Some (k + i)"
proof (induction xs arbitrary: k m i)
  case (Cons x xs)
  show ?case
  proof (cases i)
    case 0
    with Cons.prems show ?thesis
      by (simp add: positions_Cons positions_other)
  next
    case (Suc j)
    with Cons show ?thesis
      by (simp add: positions_Cons)
  qed
qed simp

lemma rank_comparator: "js_comparator (\<lambda>a b. rank_order desc (pos (fst a)) (pos (fst b)))"
  by unfold_locales (auto simp: rank_order_def split: option.splits if_splits)

text \<open>The order results are to have: by value, documents without one last.\<close>

definition value_order ::
    "(nat \<times> jsval \<Rightarrow> nat \<times> jsval \<Rightarrow> rat) \<Rightarrow> bool \<Rightarrow> (nat, jsval) jsmap \<Rightarrow> nat \<Rightarrow> nat \<Rightarrow> bool" where
  "value_order cmp desc vs a b =
     (case (map_get vs a, map_get vs b) of
        (_, None) \<Rightarrow> True
      | (None, Some _) \<Rightarrow> False
      | (Some x, Some y) \<Rightarrow> if desc then cmp (b, y) (a, x) \<le> 0 else cmp (a, x) (b, y) \<le> 0)"

lemma sorted_positions:
  assumes "js_comparator cmp" "sorted_wrt (\<lambda>a b. cmp a b \<le> 0) xs" "i \<le> j" "j < length xs"
  shows "cmp (xs ! i) (xs ! j) \<le> 0"
proof (cases "i = j")
  case True
  then show ?thesis
    using js_comparator.cmp_total [OF assms(1), of "xs ! i" "xs ! i"] by simp
next
  case False
  with assms(2-4) show ?thesis
    by (simp add: sorted_wrt_iff_nth_less)
qed

lemma rank_order_values:
  assumes cmp: "js_comparator cmp" and dist: "distinct (map fst vs)" and dom: "dom (map_get m) \<subseteq> fst ` set vs"
    and rank: "rank_order desc (map_get (positions (js_sort cmp vs) 0 m) a) (map_get (positions (js_sort cmp vs) 0 m) b) \<le> 0"
  shows "value_order cmp desc vs a b"
proof -
  let ?xs = "js_sort cmp vs" and ?pos = "map_get (positions (js_sort cmp vs) 0 m)"
  have "mset (map fst ?xs) = mset (map fst vs)"
    by (simp only: mset_map mset_js_sort)
  then have dx: "distinct (map fst ?xs)"
    using dist mset_eq_imp_distinct_iff by blast
  have sorted: "sorted_wrt (\<lambda>a b. cmp a b \<le> 0) ?xs"
    by (rule js_comparator.sorted_js_sort [OF cmp])
  have none: "?pos d = None" if "map_get vs d = None" for d
  proof -
    have "d \<notin> fst ` set vs"
      using that by (simp add: map_of_eq_None_iff)
    moreover from this have "map_get m d = None"
      using dom by auto
    ultimately show ?thesis
      using positions_other [of d ?xs 0 m] by simp
  qed
  have some: "\<exists>i. i < length ?xs \<and> ?xs ! i = (d, v) \<and> ?pos d = Some i" if "map_get vs d = Some v" for d v
  proof -
    have "(d, v) \<in> set ?xs"
      using map_of_SomeD [OF that] by simp
    then obtain i where i: "i < length ?xs" "?xs ! i = (d, v)"
      unfolding in_set_conv_nth by blast
    then show ?thesis
      using positions_nth [OF dx i(1), of 0 m] by auto
  qed
  show ?thesis
  proof (cases "map_get vs b")
    case b: (Some y)
    obtain j where j: "j < length ?xs" "?xs ! j = (b, y)" "?pos b = Some j"
      using some [OF b] by blast
    show ?thesis
    proof (cases "map_get vs a")
      case None
      then show ?thesis
        using rank none [OF None] j(3) by (simp add: rank_order_def)
    next
      case a: (Some x)
      obtain i where i: "i < length ?xs" "?xs ! i = (a, x)" "?pos a = Some i"
        using some [OF a] by blast
      show ?thesis
      proof (cases desc)
        case True
        with rank i j have "j \<le> i"
          by (simp add: rank_order_def)
        with sorted_positions [OF cmp sorted _ i(1), of j] True a b i j show ?thesis
          by (simp add: value_order_def)
      next
        case False
        with rank i j have "i \<le> j"
          by (simp add: rank_order_def)
        with sorted_positions [OF cmp sorted _ j(1), of i] False a b i j show ?thesis
          by (simp add: value_order_def)
      qed
    qed
  qed (simp add: value_order_def split: option.split)
qed

lemma entry_sort_docs: "se_docs (entry_sort cmp n) = positions (js_sort cmp (se_orderedDocs n)) 0 (se_docs n)"
  by (simp add: entry_sort_def positions_def Let_def)

text \<open>Comparison of numbers, consistent on all values; \<open>numberSort\<close> is the same on numbers.\<close>

definition number_of :: "nat \<times> jsval \<Rightarrow> rat" where
  "number_of x = (case snd x of JNum n \<Rightarrow> n | _ \<Rightarrow> 0)"

lemma number_comparator: "js_comparator (\<lambda>a b. number_of a - number_of b)"
  by unfold_locales auto

lemma numberSort_numbers: "is_num (snd a) \<Longrightarrow> is_num (snd b) \<Longrightarrow> numberSort a b = number_of a - number_of b"
  by (auto simp: numberSort_def number_of_def is_num_def split: jsval.splits)

lemma map_get_map: "map_get (map (\<lambda>(k, n). (k, f n)) m) k = map_option f (map_get m k)"
  by (induction m) auto

subsection \<open>Properties\<close>



text \<open>
  A document whose position in the sort index is 0 cannot be removed: the removal of the only
  document changes nothing, and inserting the document again lists it twice.
\<close>

theorem sorter_remove_first_ignored:
  "case lift_err (sorter_create (js ''english'') [(js ''rank'', TyName (js ''number''))] None) (\<lambda>e.
      lift_err (sorter_insert (js ''rank'') (IdString (js ''a'')) (JNum 5) (id_store_empty, e)) (\<lambda>st.
      lift_err (sorter_remove (js ''rank'') (IdString (js ''a'')) st) (\<lambda>st'.
      lift_err (sorter_insert (js ''rank'') (IdString (js ''a'')) (JNum 7) st') (\<lambda>st''.
        Inr (st' = st, map_option se_orderedDocs (map_get (sorts (snd st'')) (js ''rank''))))))) of
     Inr (same, xs) \<Rightarrow> same \<and> xs = Some [(1, JNum 5), (1, JNum 7)] | Inl e \<Rightarrow> False"
  by code_simp

end
