(* ===== verification/Orama_DB.thy ===== *)
theory Orama_DB
  imports Orama_PT15 Orama_Sorter
begin

text \<open>
  The database of \<^verbatim>\<open>assets/js/search-orama.js\<close>: plugins and their hooks
  (\<^verbatim>\<open>ee\<close> to \<^verbatim>\<open>ie\<close>), creation (\<^verbatim>\<open>ht\<close>,
  \<^verbatim>\<open>pt\<close>), insertion of a document (\<^verbatim>\<open>yt\<close>, \<^verbatim>\<open>bt\<close>,
  \<^verbatim>\<open>vt\<close>) and of many (\<^verbatim>\<open>It\<close>, \<^verbatim>\<open>Ot\<close>).
  An operation returns the database also when it fails, since the code may fail after it has stored
  the document. A failure inside the index of a field leaves that field as it was.

  Hooks are functions of a plugin that the code calls with the database; a call is an entry of the log,
  and hooks that change the database themselves are outside the model. A hook is marked if it is an
  async function. The index is the built-in one or that of the prefix plugin; the document store, the
  sorter and the four function components are the built-in ones, and a function given in their place
  is only checked to be one. Sleeping between batches has no effect on the database and is left out.
\<close>

subsection \<open>Plugins, components and the database\<close>

datatype index_component = IndexDefault | IndexPT15

datatype tokenizer_component = TokObject tokenizer | TokConfig tokenizer_config

text \<open>The components of a configuration; \<open>cm_functions\<close> has the other names, marked if the value is a function.\<close>

record components =
  cm_tokenizer :: "tokenizer_component option"
  cm_index :: "index_component option"
  cm_functions :: "(jsstring, bool) jsmap"

definition no_components :: components where
  "no_components = \<lparr>cm_tokenizer = None, cm_index = None, cm_functions = []\<rparr>"

text \<open>A plugin: what \<^verbatim>\<open>getComponents\<close> returns where it is a function, and its hooks, marked if async.\<close>

record plugin =
  pl_name :: jsstring
  pl_components :: "components option"
  pl_hooks :: "(jsstring, bool) jsmap"

record hook =
  hk_plugin :: jsstring
  hk_async :: bool

datatype event = HookCall jsstring jsstring "jsstring option" | Warning jsstring

record db =
  db_id :: jsstring
  db_schema :: "(jsstring \<times> schema) list"
  db_tokenizer :: tokenizer
  db_component :: index_component
  db_ids :: id_store
  db_index :: index
  db_docs :: "jsval docs_store"
  db_sorting :: sorter
  db_hooks :: "(jsstring, hook list) jsmap"
  db_plugins :: "plugin list"
  db_insertions :: "int option"
  db_removals :: "int option"
  db_propertiesToSearch :: "jsstring list option"
  db_uid :: nat
  db_log :: "event list"

text \<open>What the code takes from its surroundings: separator classes, the prefix of generated ids, whether
  sets have a native intersection, the comparison of strings, and the languages it knows.\<close>

record engine_env =
  ev_seps :: separators
  ev_prefix :: jsstring
  ev_native :: bool
  ev_sort :: sort_env
  ev_languages :: "jsstring list"

type_synonym 'a db_result = "db \<times> 'a jsresult"

definition and_then :: "'a db_result \<Rightarrow> (db \<Rightarrow> 'a \<Rightarrow> 'b db_result) \<Rightarrow> 'b db_result" where
  "and_then r k = (case r of (e, Inl x) \<Rightarrow> (e, Inl x) | (e, Inr a) \<Rightarrow> k e a)"

subsection \<open>Hooks\<close>

definition hook_names :: "jsstring list" where
  "hook_names = map js
     [''beforeInsert'', ''afterInsert'', ''beforeRemove'', ''afterRemove'', ''beforeUpdate'', ''afterUpdate'',
      ''beforeSearch'', ''afterSearch'', ''beforeInsertMultiple'', ''afterInsertMultiple'', ''beforeRemoveMultiple'',
      ''afterRemoveMultiple'', ''beforeUpdateMultiple'', ''afterUpdateMultiple'', ''beforeLoad'', ''afterLoad'',
      ''afterCreate'']"

definition getAllPluginsByHook :: "plugin list \<Rightarrow> jsstring \<Rightarrow> hook list" where
  "getAllPluginsByHook ps t =
     concat (map (\<lambda>r. case map_get (pl_hooks r) t of
                        None \<Rightarrow> [] | Some a \<Rightarrow> [\<lparr>hk_plugin = pl_name r, hk_async = a\<rparr>]) ps)"

definition hooks_of :: "db \<Rightarrow> jsstring \<Rightarrow> hook list" where
  "hooks_of e t = (case map_get (db_hooks e) t of None \<Rightarrow> [] | Some hs \<Rightarrow> hs)"

definition isAsync :: "hook list \<Rightarrow> bool" where
  "isAsync hs = list_ex hk_async hs"

definition call_hook :: "jsstring \<Rightarrow> jsstring option \<Rightarrow> db \<Rightarrow> hook \<Rightarrow> db" where
  "call_hook t n e h = e\<lparr>db_log := db_log e @ [HookCall t (hk_plugin h) n]\<rparr>"

definition runSingleHook :: "jsstring \<Rightarrow> jsstring \<Rightarrow> db \<Rightarrow> db" where
  "runSingleHook t n e = foldl (call_hook t (Some n)) e (hooks_of e t)"

definition runMultipleHook :: "jsstring \<Rightarrow> db \<Rightarrow> db" where
  "runMultipleHook t e = foldl (call_hook t None) e (hooks_of e t)"

definition runAfterSearch :: "db \<Rightarrow> db" where
  "runAfterSearch e = foldl (call_hook (js ''afterSearch'') None) e (hooks_of e (js ''afterSearch''))"

definition runBeforeSearch :: "db \<Rightarrow> db" where
  "runBeforeSearch e = foldl (call_hook (js ''beforeSearch'') None) e (hooks_of e (js ''beforeSearch''))"

definition runAfterCreate :: "db \<Rightarrow> db" where
  "runAfterCreate e = foldl (call_hook (js ''afterCreate'') None) e (hooks_of e (js ''afterCreate''))"

subsection \<open>Creation\<close>

definition object_components :: "jsstring list" where
  "object_components = map js [''tokenizer'', ''index'', ''documentsStore'', ''sorter'']"

definition function_components :: "jsstring list" where
  "function_components = map js [''validateSchema'', ''getDocumentIndexId'', ''getDocumentProperties'', ''formatElapsedTime'']"

definition component_names :: "components \<Rightarrow> jsstring list" where
  "component_names c =
     (if cm_tokenizer c = None then [] else [js ''tokenizer'']) @ (if cm_index c = None then [] else [js ''index'']) @
     map_keys (cm_functions c)"

definition validateComponents :: "components \<Rightarrow> unit jsresult" where
  "validateComponents e =
     (if list_ex (\<lambda>n. map_get (cm_functions e) n = Some False) function_components
      then Inl (JsError (js ''COMPONENT_MUST_BE_FUNCTION''))
      else if list_ex (\<lambda>t. t \<notin> set object_components \<and> t \<notin> set function_components) (component_names e)
      then Inl (JsError (js ''UNSUPPORTED_COMPONENT''))
      else Inr ())"

definition merge_components :: "components \<Rightarrow> components \<Rightarrow> components" where
  "merge_components r n =
     \<lparr>cm_tokenizer = (if cm_tokenizer n = None then cm_tokenizer r else cm_tokenizer n),
      cm_index = (if cm_index n = None then cm_index r else cm_index n),
      cm_functions = map_spread (cm_functions r) (cm_functions n)\<rparr>"

fun plugin_components :: "plugin list \<Rightarrow> components \<Rightarrow> components jsresult" where
  "plugin_components [] r = Inr r"
| "plugin_components (t # ts) r =
     (case pl_components t of
        None \<Rightarrow> plugin_components ts r
      | Some n \<Rightarrow>
          if list_ex (\<lambda>e. e \<in> set (component_names r)) (component_names n)
          then Inl (JsError (js ''PLUGIN_COMPONENT_CONFLICT''))
          else plugin_components ts (merge_components r n))"

record create_options =
  co_schema :: "(jsstring \<times> schema) list"
  co_sort :: "sort_options option"
  co_language :: "jsstring option"
  co_components :: "components option"
  co_id :: "jsstring option"
  co_plugins :: "plugin list"

definition choose_tokenizer :: "engine_env \<Rightarrow> components \<Rightarrow> jsstring option \<Rightarrow> tokenizer jsresult" where
  "choose_tokenizer env r n =
     (case cm_tokenizer r of
        Some (TokObject tk) \<Rightarrow> Inr tk
      | Some (TokConfig cf) \<Rightarrow> createTokenizer (ev_languages env) cf
      | None \<Rightarrow>
          createTokenizer (ev_languages env)
            (default_config\<lparr>cf_language := Some (case n of None \<Rightarrow> js ''english'' | Some l \<Rightarrow> l)\<rparr>))"

definition component_create :: "index_component \<Rightarrow> (jsstring \<times> schema) list \<Rightarrow> index jsresult" where
  "component_create c kvs =
     (case c of IndexDefault \<Rightarrow> index_create kvs index_empty [] | IndexPT15 \<Rightarrow> pt15_create kvs index_empty [])"

definition create_db :: "engine_env \<Rightarrow> create_options \<Rightarrow> nat \<Rightarrow> db jsresult" where
  "create_db env co uid =
     lift_err (plugin_components (co_plugins co) (case co_components co of None \<Rightarrow> no_components | Some r \<Rightarrow> r)) (\<lambda>r.
       let given = (case co_id co of None \<Rightarrow> [] | Some i \<Rightarrow> i);
           (uid, i) = (if given = [] then uniqueId (ev_prefix env) uid else (uid, given));
           lang = (case co_language co of None \<Rightarrow> [] | Some l \<Rightarrow> l);
           c = (case cm_index r of None \<Rightarrow> IndexDefault | Some c \<Rightarrow> c)
       in lift_err (choose_tokenizer env r (co_language co)) (\<lambda>tk.
          if cm_tokenizer r \<noteq> None \<and> lang \<noteq> [] then Inl (JsError (js ''NO_LANGUAGE_WITH_CUSTOM_TOKENIZER''))
          else
            lift_err (validateComponents r) (\<lambda>u.
            lift_err (component_create c (co_schema co)) (\<lambda>ix.
            lift_err (sorter_create (language tk) (co_schema co) (co_sort co)) (\<lambda>so.
              Inr (runAfterCreate
                \<lparr>db_id = i, db_schema = co_schema co, db_tokenizer = tk, db_component = c, db_ids = id_store_empty,
                 db_index = ix, db_docs = docs_create, db_sorting = so,
                 db_hooks = map (\<lambda>e. (e, getAllPluginsByHook (co_plugins co) e)) hook_names,
                 db_plugins = co_plugins co, db_insertions = None, db_removals = None, db_propertiesToSearch = None, db_uid = uid,
                 db_log = []\<rparr>))))))"

subsection \<open>Insertion\<close>

text \<open>The insertions since the last reset, which the code schedules as a microtask.\<close>

definition trackInsertion :: "db \<Rightarrow> db" where
  "trackInsertion e =
     (let g = (case db_insertions e of None \<Rightarrow> 0 | Some g \<Rightarrow> g)
      in if g > 1000 then e\<lparr>db_log := db_log e @ [Warning (js ''ORAMA0001'')], db_insertions := Some (-1)\<rparr>
         else if g \<ge> 0 then e\<lparr>db_insertions := Some (g + 1)\<rparr>
         else e\<lparr>db_insertions := Some g\<rparr>)"

definition resetInsertions :: "db \<Rightarrow> db" where
  "resetInsertions e = e\<lparr>db_insertions := None\<rparr>"

definition check_property :: "jsstring \<Rightarrow> jsval \<Rightarrow> unit jsresult" where
  "check_property t r =
     lift_err
       (if t = js ''geopoint'' \<and> is_object r then
          lift_err (js_prop r (js ''lon'')) (\<lambda>lon.
            lift_err (js_prop r (js ''lat'')) (\<lambda>lat. Inr (is_num lon \<and> is_num lat)))
        else Inr False)
       (\<lambda>geo.
          if geo \<or> isVectorType t \<and> is_array r \<or> isArrayType t \<and> is_array r \<or>
            t \<in> {js ''enum'', js ''enum[]''} \<and> js_typeof r \<in> {js ''string'', js ''number''} \<or> js_typeof r = t
          then Inr () else Inl (JsError (js ''INVALID_DOCUMENT_PROPERTY'')))"

definition property_type :: "(jsstring, jsstring) jsmap \<Rightarrow> jsstring \<Rightarrow> jsstring" where
  "property_type f e = (case map_get f e of None \<Rightarrow> [] | Some t \<Rightarrow> t)"

fun check_properties :: "(jsstring, jsstring) jsmap \<Rightarrow> (jsstring \<times> jsval) list \<Rightarrow> unit jsresult" where
  "check_properties f [] = Inr ()"
| "check_properties f ((e, t) # d) =
     (if t = JUndef then check_properties f d
      else lift_err (check_property (property_type f e) t) (\<lambda>u. check_properties f d))"

record insert_options =
  io_language :: "jsstring option"
  io_skipHooks :: bool
  io_threshold :: "nat option"

definition component_insert ::
    "engine_env \<Rightarrow> insert_options \<Rightarrow> int \<Rightarrow> jsstring \<Rightarrow> nat \<Rightarrow> jsval \<Rightarrow> db \<Rightarrow> db jsresult" where
  "component_insert env io cnt i l n e =
     (let c = property_type (searchablePropertiesWithTypes (db_index e)) i
      in case db_component e of
           IndexPT15 \<Rightarrow>
             lift_err (pt15_insert (ev_seps env) (io_language io) cnt i l c n (db_tokenizer e, db_ids e, db_index e)) (\<lambda>(tk, ids, ix).
               Inr (e\<lparr>db_tokenizer := tk, db_ids := ids, db_index := ix\<rparr>))
         | IndexDefault \<Rightarrow>
             lift_err (index_insert (ev_seps env) (db_tokenizer e) (io_language io) cnt (io_threshold io) i l c n (db_ids e, db_index e)) (\<lambda>(ids, ix).
               Inr (e\<lparr>db_ids := ids, db_index := ix\<rparr>)))"

fun index_fields ::
    "engine_env \<Rightarrow> insert_options \<Rightarrow> int \<Rightarrow> jsstring \<Rightarrow> (jsstring, jsval) jsmap \<Rightarrow> jsstring list \<Rightarrow> db \<Rightarrow> unit db_result" where
  "index_fields env io cnt t r [] e = (e, Inr ())"
| "index_fields env io cnt t r (i # is) e =
     (case map_get r i of
        None \<Rightarrow> index_fields env io cnt t r is e
      | Some n \<Rightarrow>
          (let (ids, l) = getInternalDocumentId (db_ids e) (IdString t); e = e\<lparr>db_ids := ids\<rparr>
           in case component_insert env io cnt i l n e of
                Inl x \<Rightarrow> (e, Inl x)
              | Inr e \<Rightarrow> index_fields env io cnt t r is e))"

fun sort_fields :: "jsstring \<Rightarrow> (jsstring, jsval) jsmap \<Rightarrow> jsstring list \<Rightarrow> db \<Rightarrow> unit db_result" where
  "sort_fields t l [] e = (e, Inr ())"
| "sort_fields t l (n # ns) e =
     (case map_get l n of
        None \<Rightarrow> sort_fields t l ns e
      | Some r \<Rightarrow>
          (case sorter_insert n (IdString t) r (db_ids e, db_sorting e) of
             Inl x \<Rightarrow> (e, Inl x)
           | Inr (ids, so) \<Rightarrow> sort_fields t l ns (e\<lparr>db_ids := ids, db_sorting := so\<rparr>)))"

definition sort_document :: "jsstring \<Rightarrow> jsval \<Rightarrow> db \<Rightarrow> unit db_result" where
  "sort_document t d e =
     (let c = getSortableProperties (db_sorting e)
      in case getDocumentProperties d c [] of Inl x \<Rightarrow> (e, Inl x) | Inr l \<Rightarrow> sort_fields t l c e)"

text \<open>What both variants of insertion do before the fields: the id, the document store, the hooks before
  insertion and the check of the properties.\<close>

definition store_document :: "engine_env \<Rightarrow> jsval \<Rightarrow> db \<Rightarrow> jsstring db_result" where
  "store_document env t e =
     (case getDocumentIndexId (ev_prefix env) (db_uid e) t of
        Inl x \<Rightarrow> (e, Inl x)
      | Inr (uid, a) \<Rightarrow>
          (let (ids, c) = getInternalDocumentId (db_ids e) (IdString a); e = e\<lparr>db_uid := uid, db_ids := ids\<rparr>;
               (ds, stored) = docs_put (db_docs e) c t
           in if stored then (e\<lparr>db_docs := ds\<rparr>, Inr a) else (e, Inl (JsError (js ''DOCUMENT_ALREADY_EXISTS'')))))"

definition document_values :: "jsval \<Rightarrow> db \<Rightarrow> (jsstring, jsval) jsmap jsresult" where
  "document_values t e =
     lift_err (getDocumentProperties t (searchableProperties (db_index e)) []) (\<lambda>d.
     lift_err (check_properties (searchablePropertiesWithTypes (db_index e)) d) (\<lambda>u. Inr d))"

definition hook_unless :: "bool \<Rightarrow> jsstring \<Rightarrow> jsstring \<Rightarrow> db \<Rightarrow> db" where
  "hook_unless skip t a e = (if skip then e else runSingleHook t a e)"

definition insert_sync :: "engine_env \<Rightarrow> insert_options \<Rightarrow> jsval \<Rightarrow> db \<Rightarrow> jsstring db_result" where
  "insert_sync env io t e =
     and_then (store_document env t e) (\<lambda>e a.
       let l = docs_count (db_docs e); e = hook_unless (io_skipHooks io) (js ''beforeInsert'') a e
       in case document_values t e of
            Inl x \<Rightarrow> (e, Inl x)
          | Inr d \<Rightarrow>
              and_then (index_fields env io l a d (searchableProperties (db_index e)) e) (\<lambda>e u.
              and_then (sort_document a t e) (\<lambda>e u.
                (trackInsertion (hook_unless (io_skipHooks io) (js ''afterInsert'') a e), Inr a))))"

text \<open>The variant for async hooks reads the number of the document from the map of ids; it is there, since the
  document was stored before.\<close>

fun index_fields_async ::
    "engine_env \<Rightarrow> insert_options \<Rightarrow> int \<Rightarrow> jsstring \<Rightarrow> (jsstring, jsval) jsmap \<Rightarrow> jsstring list \<Rightarrow> db \<Rightarrow> unit db_result" where
  "index_fields_async env io cnt t r [] e = (e, Inr ())"
| "index_fields_async env io cnt t r (i # is) e =
     (case map_get r i of
        None \<Rightarrow> index_fields_async env io cnt t r is e
      | Some n \<Rightarrow>
          (case map_get (idToInternalId (db_ids e)) t of
             None \<Rightarrow> (e, Inl TypeError)
           | Some l \<Rightarrow>
               (case component_insert env io cnt i l n e of
                  Inl x \<Rightarrow> (e, Inl x)
                | Inr e \<Rightarrow> index_fields_async env io cnt t r is e)))"

definition insert_async :: "engine_env \<Rightarrow> insert_options \<Rightarrow> jsval \<Rightarrow> db \<Rightarrow> jsstring db_result" where
  "insert_async env io t e =
     and_then (store_document env t e) (\<lambda>e a.
       let l = docs_count (db_docs e); e = hook_unless (io_skipHooks io) (js ''beforeInsert'') a e
       in case document_values t e of
            Inl x \<Rightarrow> (e, Inl x)
          | Inr d \<Rightarrow>
              and_then (index_fields_async env io l a d (searchableProperties (db_index e)) e) (\<lambda>e u.
              and_then (sort_document a t e) (\<lambda>e u.
                (trackInsertion (hook_unless (io_skipHooks io) (js ''afterInsert'') a e), Inr a))))"

definition insert_doc :: "engine_env \<Rightarrow> insert_options \<Rightarrow> jsval \<Rightarrow> db \<Rightarrow> jsstring db_result" where
  "insert_doc env io t e =
     (case validateSchema t (db_schema e) of
        Inl x \<Rightarrow> (e, Inl x)
      | Inr (Some (c # s)) \<Rightarrow> (e, Inl (JsError (js ''SCHEMA_VALIDATION_FAILURE'')))
      | Inr _ \<Rightarrow>
          if isAsync (hooks_of e (js ''beforeInsert'')) \<or> isAsync (hooks_of e (js ''afterInsert''))
          then insert_async env io t e else insert_sync env io t e)"

subsection \<open>Insertion of many documents\<close>

fun insert_list :: "engine_env \<Rightarrow> insert_options \<Rightarrow> jsval list \<Rightarrow> db \<Rightarrow> jsstring list db_result" where
  "insert_list env io [] e = (e, Inr [])"
| "insert_list env io (t # ts) e =
     and_then (insert_doc env io t e) (\<lambda>e a. and_then (insert_list env io ts e) (\<lambda>e as. (e, Inr (a # as))))"

text \<open>The documents from \<open>s\<close> to \<open>a\<close>, as one batch: its length is the threshold for rebalancing.\<close>

definition insert_batch :: "engine_env \<Rightarrow> insert_options \<Rightarrow> jsval list \<Rightarrow> nat \<Rightarrow> nat \<Rightarrow> db \<Rightarrow> jsstring list db_result" where
  "insert_batch env io t s a e =
     (let c = take (a - s) (drop s t) in insert_list env (io\<lparr>io_threshold := Some (length c)\<rparr>) c e)"

partial_function (option) async_batches ::
    "engine_env \<Rightarrow> insert_options \<Rightarrow> nat \<Rightarrow> jsval list \<Rightarrow> nat \<Rightarrow> jsstring list \<Rightarrow> db \<Rightarrow> jsstring list db_result option" where
  "async_batches env io n t s i e =
     (if s < length t then
        (case insert_batch env io t s (min (s + n) (length t)) e of
           (e, Inl x) \<Rightarrow> Some (e, Inl x)
         | (e, Inr as) \<Rightarrow> async_batches env io n t (min (s + n) (length t)) (i @ as) e)
      else Some (e, Inr i))"

function sync_batches ::
    "engine_env \<Rightarrow> insert_options \<Rightarrow> nat \<Rightarrow> jsval list \<Rightarrow> nat \<Rightarrow> jsstring list \<Rightarrow> db \<Rightarrow> jsstring list db_result" where
  "sync_batches env io n t a i e =
     (if take n (drop (a * n) t) = [] then (e, Inr i)
      else and_then (insert_batch env io t (a * n) ((a + 1) * n) e) (\<lambda>e as. sync_batches env io n t (a + 1) (i @ as) e))"
  by pat_completeness auto
termination
proof (relation "measure (\<lambda>(env, io, n, t, a, i, e). length t - a * n)", goal_cases)
  case (2 env io n t a i e e' as)
  then have "0 < n" "a * n < length t"
    by (auto simp: not_le)
  then show ?case
    by simp
qed simp

definition insert_finish :: "insert_options \<Rightarrow> jsstring list db_result \<Rightarrow> jsstring list db_result" where
  "insert_finish io r =
     and_then r (\<lambda>e i. (if io_skipHooks io then e else runMultipleHook (js ''afterInsertMultiple'') e, Inr i))"

definition insertMultiple_async ::
    "engine_env \<Rightarrow> insert_options \<Rightarrow> nat option \<Rightarrow> jsval list \<Rightarrow> db \<Rightarrow> jsstring list db_result option" where
  "insertMultiple_async env io n t e =
     map_option (insert_finish io) (async_batches env io (case n of None \<Rightarrow> 1000 | Some n \<Rightarrow> n) t 0 [] e)"

definition insertMultiple_sync ::
    "engine_env \<Rightarrow> insert_options \<Rightarrow> nat option \<Rightarrow> jsval list \<Rightarrow> db \<Rightarrow> jsstring list db_result" where
  "insertMultiple_sync env io n t e =
     insert_finish io (sync_batches env io (case n of None \<Rightarrow> 1000 | Some n \<Rightarrow> n) t 0 [] e)"

declare sync_batches.simps [simp del]

subsection \<open>The numbers of documents during an insertion\<close>

lemma getInternal_small: "d \<le> length (internalIdToId ids) \<Longrightarrow> getInternalDocumentId ids (IdNumber d) = (ids, d)"
  by simp

lemma lift_err_Inr: "lift_err r k = Inr y \<longleftrightarrow> (\<exists>x. r = Inr x \<and> k x = Inr y)"
  by (cases r) (auto simp: lift_err_def)

lemma need_Inr: "need v k = Inr y \<longleftrightarrow> (\<exists>x. v = Some x \<and> k x = Inr y)"
  by (cases v) (auto simp: need_def)

lemma insert_tokens_ids:
  "d \<le> length (internalIdToId ids) \<Longrightarrow> insert_tokens ids t n d a ws = Inr (ids', t') \<Longrightarrow> ids' = ids"
proof (induction ws arbitrary: t)
  case (Cons w ws)
  from Cons.prems(2) obtain ids1 t1 where 1: "insertTokenScoreParameters ids t n (IdNumber d) a w = Inr (ids1, t1)"
    "insert_tokens ids1 (radix_put n w d t1) n d a ws = Inr (ids', t')"
    by (auto simp: lift_err_Inr)
  have "ids1 = ids"
    using 1(1) unfolding insertTokenScoreParameters_def getInternal_small [OF Cons.prems(1)]
    by (auto simp: need_Inr Let_def)
  with 1(2) Cons.IH [OF Cons.prems(1)] show ?case
    by simp
qed simp

lemma insert_scalar_ids:
  assumes "d \<le> length (internalIdToId ids)" "insert_scalar seps tk lang cnt thr n d v (ids, t) = Inr (ids', t')"
  shows "ids' = ids"
proof -
  have params: "ids1 = ids" if "insertDocumentScoreParameters ids t n (IdNumber d) a cnt = Inr (ids1, t1)" for a ids1 t1
    using that unfolding insertDocumentScoreParameters_def getInternal_small [OF assms(1)]
    by (auto simp: need_Inr Let_def)
  obtain x where x: "node_of t n = Some x"
    using assms(2) by (auto simp: insert_scalar_def need_Inr)
  show ?thesis
    using assms(2) insert_tokens_ids [OF assms(1)]
    by (cases x; cases v) (auto simp: insert_scalar_def x need_def lift_err_Inr split: option.splits dest!: params)
qed

lemma insert_each_ids:
  "d \<le> length (internalIdToId ids) \<Longrightarrow>
   insert_each (map (insert_scalar seps tk lang cnt thr n d) vs) (ids, t) = Inr (ids', t') \<Longrightarrow> ids' = ids"
proof (induction vs arbitrary: t)
  case (Cons v vs)
  then obtain ids1 t1 where 1: "insert_scalar seps tk lang cnt thr n d v (ids, t) = Inr (ids1, t1)"
    "insert_each (map (insert_scalar seps tk lang cnt thr n d) vs) (ids1, t1) = Inr (ids', t')"
    by (auto simp: lift_err_Inr)
  with insert_scalar_ids [OF Cons.prems(1) 1(1)] Cons.IH [OF Cons.prems(1)] show ?case
    by simp
qed simp

lemma index_insert_ids:
  assumes "d \<le> length (internalIdToId ids)" "index_insert seps tk lang cnt thr n d ty v (ids, t) = Inr (ids', t')"
  shows "ids' = ids"
  using assms(2) insert_scalar_ids [OF assms(1)] insert_each_ids [OF assms(1)]
  by (auto simp: index_insert_def need_Inr split: if_splits jsval.splits option.splits)

lemma pt15_insert_ids:
  assumes "d \<le> length (internalIdToId ids)" "pt15_insert seps lang cnt n d ty v (tk, ids, t) = Inr (tk', ids', t')"
  shows "ids' = ids"
  using assms(2) index_insert_ids [OF assms(1)]
  by (auto simp: pt15_insert_def lift_err_Inr split: if_splits)

text \<open>The document \<open>a\<close> has the number \<open>l\<close>.\<close>

definition knows :: "db \<Rightarrow> jsstring \<Rightarrow> nat \<Rightarrow> bool" where
  "knows e a l = (ids_ok (db_ids e) \<and> extern_id (db_ids e) l = Some a)"

lemma knows_get:
  assumes "knows e a l"
  shows "getInternalDocumentId (db_ids e) (IdString a) = (db_ids e, l)" "map_get (idToInternalId (db_ids e)) a = Some l"
    "l \<le> length (internalIdToId (db_ids e))"
  using assms ids.intern_known [of "db_ids e" l a] ids_ok_get [of "db_ids e" a l]
  by (auto simp: knows_def extern_id_Some)

text \<open>Two databases with the same documents, numbers and hooks.\<close>

definition same_docs :: "db \<Rightarrow> db \<Rightarrow> bool" where
  "same_docs e e' =
     (db_ids e' = db_ids e \<and> db_docs e' = db_docs e \<and> db_schema e' = db_schema e \<and> db_hooks e' = db_hooks e \<and>
      db_component e' = db_component e \<and> db_plugins e' = db_plugins e \<and> db_id e' = db_id e)"

lemma same_docs_refl [simp]: "same_docs e e"
  by (simp add: same_docs_def)

lemma same_docs_trans: "same_docs a b \<Longrightarrow> same_docs b c \<Longrightarrow> same_docs a c"
  by (simp add: same_docs_def)

lemma same_docs_knows: "same_docs e e' \<Longrightarrow> knows e' a l \<longleftrightarrow> knows e a l"
  by (simp add: same_docs_def knows_def)

lemma component_insert_same:
  assumes "l \<le> length (internalIdToId (db_ids e))" "component_insert env io cnt i l n e = Inr e'"
  shows "same_docs e e'"
  using assms(2) pt15_insert_ids [OF assms(1)] index_insert_ids [OF assms(1)]
  by (auto simp: component_insert_def Let_def lift_err_Inr same_docs_def split: index_component.splits)

lemma index_fields_same:
  "knows e t l \<Longrightarrow> index_fields env io cnt t r is e = (e', res) \<Longrightarrow> same_docs e e'"
proof (induction "is" arbitrary: e)
  case (Cons i "is")
  note k = knows_get [OF Cons.prems(1)]
  show ?case
  proof (cases "map_get r i")
    case None
    with Cons show ?thesis
      by simp
  next
    case (Some n)
    show ?thesis
    proof (cases "component_insert env io cnt i l n e")
      case (Inl x)
      with Cons.prems(2) Some k(1) show ?thesis
        by simp
    next
      case (Inr e1)
      have s: "same_docs e e1"
        by (rule component_insert_same [OF k(3) Inr])
      moreover have "same_docs e1 e'"
        using Cons.IH [of e1] Cons.prems Some k(1) Inr same_docs_knows [OF s] by simp
      ultimately show ?thesis
        by (rule same_docs_trans)
    qed
  qed
qed simp

lemma index_fields_async_same:
  "knows e t l \<Longrightarrow> index_fields_async env io cnt t r is e = index_fields env io cnt t r is e"
proof (induction "is" arbitrary: e)
  case (Cons i "is")
  note k = knows_get [OF Cons.prems(1)]
  show ?case
  proof (cases "map_get r i")
    case None
    with Cons show ?thesis
      by simp
  next
    case (Some n)
    show ?thesis
    proof (cases "component_insert env io cnt i l n e")
      case (Inl x)
      with Some k(1,2) show ?thesis
        by simp
    next
      case (Inr e1)
      have "knows e1 t l"
        using same_docs_knows [OF component_insert_same [OF k(3) Inr]] Cons.prems(1) by simp
      with Cons.IH [of e1] Some Inr k(1,2) show ?thesis
        by simp
    qed
  qed
qed simp

lemma sorter_insert_ids:
  assumes "getInternalDocumentId ids (IdString t) = (ids, l)" "sorter_insert n (IdString t) r (ids, so) = Inr (ids', so')"
  shows "ids' = ids"
  using assms by (auto simp: sorter_insert_def Let_def split: if_splits option.splits)

lemma sort_fields_same: "knows e t l \<Longrightarrow> sort_fields t vs ns e = (e', res) \<Longrightarrow> same_docs e e'"
proof (induction ns arbitrary: e)
  case (Cons n ns)
  note k = knows_get [OF Cons.prems(1)]
  show ?case
  proof (cases "map_get vs n")
    case None
    with Cons show ?thesis
      by simp
  next
    case (Some r)
    show ?thesis
    proof (cases "sorter_insert n (IdString t) r (db_ids e, db_sorting e)")
      case (Inl x)
      with Cons.prems(2) Some show ?thesis
        by simp
    next
      case (Inr y)
      obtain ids so where y: "y = (ids, so)"
        by fastforce
      let ?e = "e\<lparr>db_ids := ids, db_sorting := so\<rparr>"
      have s: "same_docs e ?e"
        using sorter_insert_ids [OF k(1)] Inr y by (simp add: same_docs_def)
      moreover have "same_docs ?e e'"
        using Cons.IH [of ?e] Cons.prems Some Inr y same_docs_knows [OF s] by simp
      ultimately show ?thesis
        by (rule same_docs_trans)
    qed
  qed
qed simp

lemma sort_document_same: "knows e t l \<Longrightarrow> sort_document t d e = (e', res) \<Longrightarrow> same_docs e e'"
  by (auto simp: sort_document_def Let_def split: sum.splits dest: sort_fields_same)

lemma call_hooks_same: "same_docs e (foldl (call_hook t n) e hs)"
  by (induction hs arbitrary: e) (auto simp: call_hook_def same_docs_def)

lemma hook_unless_same: "same_docs e (hook_unless skip t a e)"
  by (simp add: hook_unless_def runSingleHook_def call_hooks_same)

lemma trackInsertion_same: "same_docs e (trackInsertion e)"
  by (simp add: trackInsertion_def Let_def same_docs_def)

subsection \<open>The document store during an insertion\<close>

definition db_ok :: "db \<Rightarrow> bool" where
  "db_ok e = (ids_ok (db_ids e) \<and> docs_ok (db_docs e) \<and> (\<forall>l \<in> dom (map_get (docs (db_docs e))). extern_id (db_ids e) l \<noteq> None))"

lemma same_docs_ok: "same_docs e e' \<Longrightarrow> db_ok e' \<longleftrightarrow> db_ok e"
  by (simp add: same_docs_def db_ok_def)

text \<open>The document store of \<open>e'\<close> is that of \<open>e\<close> with the document \<open>t\<close> under the new key \<open>l\<close>.\<close>

definition stored :: "jsstring \<Rightarrow> nat \<Rightarrow> jsval \<Rightarrow> db \<Rightarrow> db \<Rightarrow> bool" where
  "stored a l t e e' =
     (knows e' a l \<and> map_get (docs (db_docs e)) l = None \<and>
      db_docs e' = \<lparr>docs = map_set l t (docs (db_docs e)), doc_count = doc_count (db_docs e) + 1\<rparr>)"

lemma stored_same: "stored a l t e e1 \<Longrightarrow> same_docs e1 e2 \<Longrightarrow> stored a l t e e2"
  by (simp add: stored_def same_docs_def knows_def)

lemma store_document_stored:
  assumes "db_ok e" "store_document env t e = (e', Inr a)"
  shows "\<exists>l. stored a l t e e'" "db_ok e'"
proof -
  obtain uid where id: "getDocumentIndexId (ev_prefix env) (db_uid e) t = Inr (uid, a)"
    using assms(2) by (auto simp: store_document_def Let_def split: sum.splits prod.splits if_splits)
  obtain ids c where c: "getInternalId_string (db_ids e) a = (ids, c)"
    by fastforce
  have new: "map_get (docs (db_docs e)) c = None" and
    e': "e' = e\<lparr>db_uid := uid, db_ids := ids, db_docs := \<lparr>docs = map_set c t (docs (db_docs e)), doc_count = doc_count (db_docs e) + 1\<rparr>\<rparr>"
    using assms(2) id c by (auto simp: store_document_def Let_def docs_put_def split: if_splits)
  have ok: "ids_ok ids" "extern_id ids c = Some a"
    using ids.intern_ok [OF _ c] assms(1) by (auto simp: db_ok_def)
  with new show "\<exists>l. stored a l t e e'"
    by (auto simp: stored_def knows_def e')
  have "\<exists>u. extern_id ids l = Some u" if "l \<in> dom (map_get (docs (db_docs e)))" for l
    using assms(1) that ids.intern_keeps [OF _ c] by (fastforce simp: db_ok_def)
  moreover have "docs_ok \<lparr>docs = map_set c t (docs (db_docs e)), doc_count = doc_count (db_docs e) + 1\<rparr>"
    using assms(1) wf_map_set [of "docs (db_docs e)" c t] map_set_new [OF new] by (simp add: db_ok_def docs_ok_def)
  ultimately show "db_ok e'"
    using ok by (auto simp: db_ok_def e' domI split: if_splits)
qed

lemma store_document_failed:
  assumes "db_ok e" "store_document env t e = (e', Inl x)"
  shows "db_ok e' \<and> db_docs e' = db_docs e"
proof (cases "getDocumentIndexId (ev_prefix env) (db_uid e) t")
  case (Inl y)
  with assms show ?thesis
    by (simp add: store_document_def)
next
  case (Inr y)
  obtain uid a where y: "y = (uid, a)"
    by fastforce
  obtain ids c where c: "getInternalId_string (db_ids e) a = (ids, c)"
    by fastforce
  have e': "e' = e\<lparr>db_uid := uid, db_ids := ids\<rparr>"
    using assms(2) Inr y c by (auto simp: store_document_def Let_def split: if_splits prod.splits)
  have "\<exists>u. extern_id ids l = Some u" if "l \<in> dom (map_get (docs (db_docs e)))" for l
    using assms(1) that ids.intern_keeps [OF _ c] by (fastforce simp: db_ok_def)
  then show ?thesis
    using assms(1) ids.intern_ok [OF _ c] by (auto simp: db_ok_def e')
qed

lemma insert_sync_after_store:
  assumes "store_document env t e = (e1, Inr a)" "knows e1 a l" "insert_sync env io t e = (e', r)"
  shows "same_docs e1 e' \<and> (r = Inr a \<or> (\<exists>x. r = Inl x))"
proof -
  let ?e2 = "hook_unless (io_skipHooks io) (js ''beforeInsert'') a e1"
  have 2: "same_docs e1 ?e2"
    by (rule hook_unless_same)
  show ?thesis
  proof (cases "document_values t ?e2")
    case (Inl x)
    with assms(1,3) 2 show ?thesis
      by (auto simp: insert_sync_def and_then_def)
  next
    case (Inr d)
    obtain e3 r3 where r3: "index_fields env io (docs_count (db_docs e1)) a d (searchableProperties (db_index ?e2)) ?e2 = (e3, r3)"
      by fastforce
    have 3: "same_docs e1 e3" "knows e3 a l"
      using index_fields_same [OF _ r3] same_docs_trans [OF 2] same_docs_knows assms(2) 2 by blast+
    obtain e4 r4 where r4: "sort_document a t e3 = (e4, r4)"
      by fastforce
    have 4: "same_docs e1 e4"
      using same_docs_trans [OF 3(1) sort_document_same [OF 3(2) r4]] .
    have 5: "same_docs e1 (trackInsertion (hook_unless (io_skipHooks io) (js ''afterInsert'') a e4))"
      by (rule same_docs_trans [OF 4 same_docs_trans [OF hook_unless_same trackInsertion_same]])
    have "insert_sync env io t e =
        (case r3 of Inl x \<Rightarrow> (e3, Inl x)
         | Inr u \<Rightarrow> (case r4 of Inl x \<Rightarrow> (e4, Inl x)
             | Inr u \<Rightarrow> (trackInsertion (hook_unless (io_skipHooks io) (js ''afterInsert'') a e4), Inr a)))"
      by (simp add: insert_sync_def and_then_def assms(1) Let_def Inr r3 r4 split: sum.split)
    with assms(3) 3(1) 4 5 show ?thesis
      by (auto split: sum.splits)
  qed
qed

lemma insert_async_sync:
  assumes "db_ok e"
  shows "insert_async env io t e = insert_sync env io t e"
proof (cases "store_document env t e")
  case (Pair e1 r)
  show ?thesis
  proof (cases r)
    case (Inl x)
    then show ?thesis
      by (simp add: insert_async_def insert_sync_def Pair and_then_def)
  next
    case (Inr a)
    obtain l where l: "knows e1 a l"
      using store_document_stored(1) [OF assms, of env t e1 a] Pair Inr unfolding stored_def by blast
    then have "knows (hook_unless (io_skipHooks io) (js ''beforeInsert'') a e1) a l"
      using same_docs_knows hook_unless_same by blast
    from index_fields_async_same [OF this] show ?thesis
      by (simp add: insert_async_def insert_sync_def Pair Inr and_then_def Let_def cong: sum.case_cong)
  qed
qed

lemma insert_doc_valid:
  assumes "db_ok e" "validateSchema t (db_schema e) = Inr p" "p = None \<or> p = Some []"
  shows "insert_doc env io t e = insert_sync env io t e"
  using assms(2,3) insert_async_sync [OF assms(1)] by (auto simp: insert_doc_def)

lemma insert_doc_cases:
  assumes "db_ok e"
  obtains x where "insert_doc env io t e = (e, Inl x)" | "insert_doc env io t e = insert_sync env io t e"
proof (cases "validateSchema t (db_schema e)")
  case (Inl x)
  then have "insert_doc env io t e = (e, Inl x)"
    by (simp add: insert_doc_def)
  then show ?thesis
    using that(1) by blast
next
  case (Inr p)
  show ?thesis
  proof (cases "p = None \<or> p = Some []")
    case True
    with Inr insert_doc_valid [OF assms] that(2) show ?thesis
      by blast
  next
    case False
    then obtain c s where "p = Some (c # s)"
      by (cases p) (auto simp: neq_Nil_conv)
    with Inr have "insert_doc env io t e = (e, Inl (JsError (js ''SCHEMA_VALIDATION_FAILURE'')))"
      by (simp add: insert_doc_def)
    then show ?thesis
      using that(1) by blast
  qed
qed

subsection \<open>Batches\<close>

lemma insert_batch_end:
  assumes "0 < n" "a * n < length t"
  shows "insert_batch env io t (a * n) (min (a * n + n) (length t)) e = insert_batch env io t (a * n) ((a + 1) * n) e"
proof -
  have "take (min (a * n + n) (length t) - a * n) (drop (a * n) t) = take ((a + 1) * n - a * n) (drop (a * n) t)"
    using assms by (simp add: min_def)
  then show ?thesis
    by (simp add: insert_batch_def)
qed

lemma batches_same:
  "0 < n \<Longrightarrow> async_batches env io n t (min (a * n) (length t)) i e = Some (sync_batches env io n t a i e)"
proof (induction env io n t a i e rule: sync_batches.induct)
  case (1 env io n t a i e)
  show ?case
  proof (cases "take n (drop (a * n) t) = []")
    case True
    then have "length t \<le> a * n"
      using 1(2) by simp
    then show ?thesis
      using True by (subst async_batches.simps, subst sync_batches.simps) simp
  next
    case False
    then have less: "a * n < length t"
      by (simp add: not_le)
    have s: "min (a * n) (length t) = a * n"
      using less by simp
    obtain e1 r where run: "insert_batch env io t (a * n) ((a + 1) * n) e = (e1, r)"
      by fastforce
    have next_s: "min (a * n + n) (length t) = min ((a + 1) * n) (length t)"
      by (simp add: add.commute)
    show ?thesis
    proof (cases r)
      case (Inl x)
      then show ?thesis
        using False run insert_batch_end [OF 1(2) less, of env io e] less
        by (subst async_batches.simps, subst sync_batches.simps) (simp add: s and_then_def)
    next
      case (Inr as)
      have "async_batches env io n t (min ((a + 1) * n) (length t)) (i @ as) e1 = Some (sync_batches env io n t (a + 1) (i @ as) e1)"
        using 1(1) [OF False] 1(2) by blast
      then show ?thesis
        using False run insert_batch_end [OF 1(2) less, of env io e] less Inr
        by (subst async_batches.simps, subst sync_batches.simps) (simp add: s and_then_def next_s)
    qed
  qed
qed

lemma async_batches_ended: "async_batches env io n t s i e = Some y \<Longrightarrow> n = 0 \<longrightarrow> length t \<le> s"
proof (rule async_batches.raw_induct [of "\<lambda>env io n t s i e y. n = 0 \<longrightarrow> length t \<le> s", rotated], assumption)
  fix f :: "engine_env \<Rightarrow> insert_options \<Rightarrow> nat \<Rightarrow> jsval list \<Rightarrow> nat \<Rightarrow> jsstring list \<Rightarrow> db \<Rightarrow> jsstring list db_result option"
  fix env io n t s i e y
  assume IH: "\<And>env io n t s i e y. f env io n t s i e = Some y \<Longrightarrow> n = 0 \<longrightarrow> length t \<le> s"
    and run: "(if s < length t then
        (case insert_batch env io t s (min (s + n) (length t)) e of
           (e, Inl x) \<Rightarrow> Some (e, Inl x)
         | (e, Inr as) \<Rightarrow> f env io n t (min (s + n) (length t)) (i @ as) e)
      else Some (e, Inr i)) = Some y"
  show "n = 0 \<longrightarrow> length t \<le> s"
  proof
    assume n: "n = 0"
    have "f env io 0 t s i e = Some y" if "s < length t"
      using run that by (simp add: n insert_batch_def min_def)
    with IH show "length t \<le> s"
      using not_le by blast
  qed
qed

lemma async_batches_stuck: "s < length t \<Longrightarrow> async_batches env io 0 t s i e = None"
  by (cases "async_batches env io 0 t s i e") (auto dest: async_batches_ended)

subsection \<open>A database with one text field\<close>

text \<open>Square roots are not evaluated; the databases below have no vectors.\<close>

lemma sqrt_code [code]: "sqrt x = sqrt x"
  by simp

definition plain_env :: engine_env where
  "plain_env =
     \<lparr>ev_seps = \<lambda>_. english_sep, ev_prefix = js ''1'', ev_native = False,
      ev_sort = \<lparr>env_locales = [], env_compare = \<lambda>_ _ _. 0\<rparr>, ev_languages = [js ''english'', js ''german'']\<rparr>"

definition title_options :: create_options where
  "title_options =
     \<lparr>co_schema = [(js ''title'', TyName (js ''string''))], co_sort = None, co_language = None, co_components = None,
      co_id = None, co_plugins = []\<rparr>"

definition title_doc :: "string \<Rightarrow> string \<Rightarrow> jsval" where
  "title_doc a t = JObj [(js ''id'', JStr (js a)), (js ''title'', JStr (js t))]"

definition plain_insert :: "jsstring option \<Rightarrow> insert_options" where
  "plain_insert l = \<lparr>io_language = l, io_skipHooks = False, io_threshold = None\<rparr>"

definition title_db :: db where
  "title_db =
     \<lparr>db_id = js ''1-0'', db_schema = [(js ''title'', TyName (js ''string''))], db_tokenizer = default_tokenizer,
      db_component = IndexDefault, db_ids = id_store_empty, db_index = add_searchable (js ''title'') (js ''string'') title_index,
      db_docs = docs_create,
      db_sorting = (sorter_empty (js ''english''))\<lparr>sortableProperties := [js ''title''],
        sortablePropertiesWithTypes := [(js ''title'', js ''string'')], sorts := [(js ''title'', entry_new (js ''string''))]\<rparr>,
      db_hooks = map (\<lambda>e. (e, [])) hook_names, db_plugins = [], db_insertions = None, db_removals = None, db_propertiesToSearch = None,
      db_uid = 1, db_log = []\<rparr>"

lemma title_db_ok: "db_ok title_db"
  by (simp add: db_ok_def title_db_def docs_ok_def docs_create_def)

subsection \<open>Properties\<close>

text \<open>
  C3: An insertion keeps the numbering of documents and the store consistent, whether it succeeds or
  fails. If it succeeds it returns the id of the document, the store has the document under a new
  number of that id and every other document unchanged, and the count is one more.
\<close>

theorem insert_doc_stores:
  assumes "db_ok e" "insert_doc env io t e = (e', r)"
  shows "db_ok e' \<and> (\<forall>a. r = Inr a \<longrightarrow> (\<exists>l. stored a l t e e'))"
  using assms(1)
proof (rule insert_doc_cases [of e env io t])
  fix x
  assume "insert_doc env io t e = (e, Inl x)"
  with assms show ?thesis
    by auto
next
  assume "insert_doc env io t e = insert_sync env io t e"
  with assms(2) have run: "insert_sync env io t e = (e', r)"
    by simp
  obtain e1 r1 where 1: "store_document env t e = (e1, r1)"
    by fastforce
  show ?thesis
  proof (cases r1)
    case (Inl x)
    with run 1 have "e' = e1" "r = Inl x"
      by (simp_all add: insert_sync_def and_then_def)
    with store_document_failed [OF assms(1)] 1 Inl show ?thesis
      by auto
  next
    case (Inr a)
    obtain l where l: "stored a l t e e1"
      using store_document_stored(1) [OF assms(1)] 1 Inr by blast
    have "same_docs e1 e' \<and> (r = Inr a \<or> (\<exists>x. r = Inl x))"
      using insert_sync_after_store [OF _ _ run] 1 Inr l by (auto simp: stored_def)
    with l stored_same store_document_stored(2) [OF assms(1)] 1 Inr same_docs_ok show ?thesis
      by blast
  qed
qed

theorem insert_doc_stores_witness:
  "\<exists>e' l. insert_doc plain_env (plain_insert None) (title_doc ''a'' ''Fast jobs'') title_db = (e', Inr (js ''a'')) \<and>
     stored (js ''a'') l (title_doc ''a'' ''Fast jobs'') title_db e'"
proof -
  have "snd (insert_doc plain_env (plain_insert None) (title_doc ''a'' ''Fast jobs'') title_db) = Inr (js ''a'')"
    by code_simp
  then obtain e' where e': "insert_doc plain_env (plain_insert None) (title_doc ''a'' ''Fast jobs'') title_db = (e', Inr (js ''a''))"
    by (metis prod.collapse)
  from insert_doc_stores [OF title_db_ok e'] e' show ?thesis
    by blast
qed

text \<open>
  C25: The variant of insertion that runs with async hooks does what the other one does: it reads the
  number of the document from the map of ids, where the store has put it.
\<close>

theorem insert_async_same:
  assumes "db_ok e"
  shows "insert_async env io t e = insert_sync env io t e"
  using assms by (rule insert_async_sync)

theorem insert_async_same_witness:
  "insert_async plain_env (plain_insert None) (title_doc ''a'' ''Fast jobs'') title_db =
   insert_sync plain_env (plain_insert None) (title_doc ''a'' ''Fast jobs'') title_db"
  by (rule insert_async_same [OF title_db_ok])

text \<open>
  Inserting a document whose id is stored already fails and changes nothing.
\<close>

theorem insert_duplicate_rejected:
  assumes "db_ok e" "validateSchema t (db_schema e) = Inr None" "js_prop t (js ''id'') = Inr (JStr a)" "a \<noteq> []"
    and "extern_id (db_ids e) l = Some a" "map_get (docs (db_docs e)) l \<noteq> None"
  shows "insert_doc env io t e = (e, Inl (JsError (js ''DOCUMENT_ALREADY_EXISTS'')))"
proof -
  have "getDocumentIndexId (ev_prefix env) (db_uid e) t = Inr (db_uid e, a)"
    using assms(3,4) by (simp add: getDocumentIndexId_def lift_err_def js_truthy_def)
  moreover have "getInternalId_string (db_ids e) a = (db_ids e, l)"
    using assms(1,5) ids.intern_known by (simp add: db_ok_def)
  ultimately have "store_document env t e = (e, Inl (JsError (js ''DOCUMENT_ALREADY_EXISTS'')))"
    using assms(6) by (simp add: store_document_def Let_def docs_put_def)
  then show ?thesis
    using insert_doc_valid [OF assms(1,2)] by (simp add: insert_sync_def and_then_def)
qed

theorem insert_duplicate_rejected_witness:
  "let e = title_db\<lparr>db_ids := \<lparr>idToInternalId = [(js ''a'', 1)], internalIdToId = [js ''a'']\<rparr>,
                     db_docs := \<lparr>docs = [(1, title_doc ''a'' ''Fast jobs'')], doc_count = 1\<rparr>\<rparr>
   in insert_doc plain_env (plain_insert None) (title_doc ''a'' ''Slow jobs'') e = (e, Inl (JsError (js ''DOCUMENT_ALREADY_EXISTS'')))"
proof -
  let ?e = "title_db\<lparr>db_ids := \<lparr>idToInternalId = [(js ''a'', 1)], internalIdToId = [js ''a'']\<rparr>,
                     db_docs := \<lparr>docs = [(1, title_doc ''a'' ''Fast jobs'')], doc_count = 1\<rparr>\<rparr>"
  have ok: "db_ok ?e"
    by (simp add: db_ok_def ids_ok_def docs_ok_def wf_map_def extern_id_def getDocumentIdFromInternalId_def)
  have v: "validateSchema (title_doc ''a'' ''Slow jobs'') (db_schema ?e) = Inr None"
    "js_prop (title_doc ''a'' ''Slow jobs'') (js ''id'') = Inr (JStr (js ''a''))" "js ''a'' \<noteq> []"
    by code_simp+
  have k: "extern_id (db_ids ?e) 1 = Some (js ''a'')" "map_get (docs (db_docs ?e)) 1 \<noteq> None"
    by (simp_all add: extern_id_def getDocumentIdFromInternalId_def)
  show ?thesis
    unfolding Let_def by (rule insert_duplicate_rejected [OF ok v k])
qed

text \<open>
  C15: For every positive batch size, and the default one, the async insertion of many documents returns, and
  returns what the other variant does.
\<close>

theorem insertMultiple_async_returns:
  assumes "n \<noteq> Some 0"
  shows "insertMultiple_async env io n t e = Some (insertMultiple_sync env io n t e)"
proof -
  have "0 < (case n of None \<Rightarrow> 1000 | Some n \<Rightarrow> n)"
    using assms by (auto split: option.split)
  from batches_same [OF this, of env io t 0 "[]" e] show ?thesis
    by (simp add: insertMultiple_async_def insertMultiple_sync_def)
qed

theorem insertMultiple_async_returns_witness:
  "insertMultiple_async plain_env (plain_insert None) (Some 2) [title_doc ''a'' ''Fast jobs'', title_doc ''b'' ''Slow jobs''] title_db =
   Some (insertMultiple_sync plain_env (plain_insert None) (Some 2) [title_doc ''a'' ''Fast jobs'', title_doc ''b'' ''Slow jobs''] title_db)"
proof -
  have "Some 2 \<noteq> Some (0 :: nat)"
    by simp
  then show ?thesis
    by (rule insertMultiple_async_returns)
qed

text \<open>
  With batch size 0 the async variant never returns on a list of documents, where the other variant
  returns at once and inserts nothing.
\<close>

theorem insertMultiple_batch_size_0:
  assumes "t \<noteq> []"
  shows "insertMultiple_async env io (Some 0) t e = None \<and> sync_batches env io 0 t 0 [] e = (e, Inr [])"
proof -
  have "insertMultiple_async env io (Some 0) t e = None"
    using async_batches_stuck [of 0 t env io "[]" e] assms by (simp add: insertMultiple_async_def)
  moreover have "sync_batches env io 0 t 0 [] e = (e, Inr [])"
    by (subst sync_batches.simps) simp
  ultimately show ?thesis ..
qed

theorem insertMultiple_batch_size_0_witness:
  "insertMultiple_async plain_env (plain_insert None) (Some 0) [title_doc ''a'' ''Fast jobs''] title_db = None"
proof -
  have "[title_doc ''a'' ''Fast jobs''] \<noteq> []"
    by simp
  from insertMultiple_batch_size_0 [OF this] show ?thesis
    by blast
qed


end
