(* ===== verification/Orama_Results.thy ===== *)
theory Orama_Results
  imports Orama_DB
begin

text \<open>
  What \<^verbatim>\<open>assets/js/search-orama.js\<close> builds from a list of results: facets
  (\<^verbatim>\<open>Nt\<close> to \<^verbatim>\<open>xt\<close>), groups (\<^verbatim>\<open>Rt\<close>, \<^verbatim>\<open>Mt\<close>), a
  page of hits (\<^verbatim>\<open>Ft\<close>) and a page of hits with distinct values (in
  \<^verbatim>\<open>Ct\<close>).

  An object that the code uses as a map has its keys in the order of insertion, as the language has for
  names that are not array indices. A facet value that is the name of a member of
  \<^verbatim>\<open>Object.prototype\<close> is outside the model of facets; groups have the code's failure on them.
  A score is a real number, None where it is not finite.
\<close>

subsection \<open>Text of values\<close>

fun decimals :: "nat \<Rightarrow> rat \<Rightarrow> jsstring" where
  "decimals 0 f = []"
| "decimals (Suc k) f = (if f = 0 then [] else (let d = \<lfloor>10 * f\<rfloor> in (48 + nat d) # decimals k (10 * f - of_int d)))"

text \<open>The text of a number, for numbers of at most 17 decimals that are not so large or small as to be
  written with an exponent.\<close>

definition num_toString :: "rat \<Rightarrow> jsstring" where
  "num_toString x =
     (let a = \<bar>x\<bar>; f = a - of_int \<lfloor>a\<rfloor>
      in (if x < 0 then [45] else []) @ nat_toString (nat \<lfloor>a\<rfloor>) @ (if f = 0 then [] else [dot] @ decimals 17 f))"

fun js_toString :: "jsval \<Rightarrow> jsstring" where
  "js_toString JUndef = js ''undefined''"
| "js_toString JNull = js ''null''"
| "js_toString (JBool b) = (if b then js ''true'' else js ''false'')"
| "js_toString (JNum n) = num_toString n"
| "js_toString (JStr s) = s"
| "js_toString (JArr xs) = js_join (js '','') (map (\<lambda>x. if x = JUndef \<or> x = JNull then [] else js_toString x) xs)"
| "js_toString (JObj kvs) = js ''[object Object]''"

text \<open>A document that is not stored is undefined.\<close>

definition doc_value :: "jsval option \<Rightarrow> jsval" where
  "doc_value d = (case d of None \<Rightarrow> JUndef | Some v \<Rightarrow> v)"

subsection \<open>Facets\<close>

record facet =
  fc_ranges :: "(rat \<times> rat) list option"
  fc_sort :: "jsstring option"
  fc_offset :: "nat option"
  fc_limit :: "nat option"

type_synonym counts = "(jsstring, nat) jsmap"

record facet_result =
  fr_count :: nat
  fr_values :: counts

definition sortAsc :: "jsstring \<times> nat \<Rightarrow> jsstring \<times> nat \<Rightarrow> int" where
  "sortAsc e t = int (snd e) - int (snd t)"

definition sortDesc :: "jsstring \<times> nat \<Rightarrow> jsstring \<times> nat \<Rightarrow> int" where
  "sortDesc e t = int (snd t) - int (snd e)"

definition sortingPredicate :: "jsstring option \<Rightarrow> jsstring \<times> nat \<Rightarrow> jsstring \<times> nat \<Rightarrow> int" where
  "sortingPredicate e = (if js_lower (case e of None \<Rightarrow> js ''desc'' | Some s \<Rightarrow> s) = js ''asc'' then sortAsc else sortDesc)"

definition range_key :: "rat \<times> rat \<Rightarrow> jsstring" where
  "range_key r = num_toString (fst r) @ js ''-'' @ num_toString (snd r)"

definition in_range :: "jsval \<Rightarrow> rat \<times> rat \<Rightarrow> bool" where
  "in_range r rg = (case r of JNum x \<Rightarrow> fst rg \<le> x \<and> x \<le> snd rg | _ \<Rightarrow> False)"

definition was_seen :: "jsstring list option \<Rightarrow> jsstring \<Rightarrow> bool" where
  "was_seen n e = (case n of None \<Rightarrow> False | Some s \<Rightarrow> e \<in> set s)"

definition numberFacet :: "(rat \<times> rat) list \<Rightarrow> jsval \<Rightarrow> counts \<times> jsstring list option \<Rightarrow> counts \<times> jsstring list option" where
  "numberFacet rgs r st =
     foldl (\<lambda>(t, n) rg.
       let e = range_key rg
       in if was_seen n e \<or> \<not> in_range r rg then (t, n)
          else (case map_get t e of
                  None \<Rightarrow> (map_set e 1 t, n)
                | Some c \<Rightarrow> (map_set e (c + 1) t, map_option (set_add e) n))) st rgs"

definition valueFacet :: "bool \<Rightarrow> jsval \<Rightarrow> counts \<times> jsstring list option \<Rightarrow> counts \<times> jsstring list option" where
  "valueFacet boolean v = (\<lambda>(t, n).
     let k = (if v = JUndef \<or> v = JNull then (if boolean then js ''false'' else []) else js_toString v)
     in if was_seen n k then (t, n)
        else (map_set k ((case map_get t k of None \<Rightarrow> 0 | Some c \<Rightarrow> c) + 1) t, map_option (set_add k) n))"

definition iterate :: "jsval \<Rightarrow> jsval list jsresult" where
  "iterate v = (case v of JArr xs \<Rightarrow> Inr xs | JStr s \<Rightarrow> Inr (map (\<lambda>c. JStr [c]) s) | _ \<Rightarrow> Inl TypeError)"

definition facet_value :: "jsval \<Rightarrow> jsstring \<Rightarrow> jsval jsresult" where
  "facet_value t e = (if dot \<in> set e then getNested t e else js_prop t e)"

definition facet_step :: "jsstring option \<Rightarrow> facet \<Rightarrow> jsval \<Rightarrow> counts \<Rightarrow> counts jsresult" where
  "facet_step ty fc v i =
     (case ty of
        None \<Rightarrow> Inl (JsError (js ''FACET_NOT_SUPPORTED''))
      | Some s \<Rightarrow>
          if s = js ''number'' then need (fc_ranges fc) (\<lambda>rgs. Inr (fst (numberFacet rgs v (i, None))))
          else if s = js ''number[]'' then
            lift_err (iterate v) (\<lambda>vs.
              if vs = [] then Inr i
              else need (fc_ranges fc) (\<lambda>rgs. Inr (fst (foldl (\<lambda>st v. numberFacet rgs v st) (i, Some []) vs))))
          else if s \<in> {js ''boolean'', js ''enum'', js ''string''} then
            Inr (fst (valueFacet (s = js ''boolean'') v (i, None)))
          else if s \<in> {js ''boolean[]'', js ''enum[]'', js ''string[]''} then
            lift_err (iterate v) (\<lambda>vs. Inr (fst (foldl (\<lambda>st v. valueFacet (s = js ''boolean[]'') v st) (i, Some []) vs)))
          else Inl (JsError (js ''FACET_NOT_SUPPORTED'')))"

definition facet_init :: "jsstring option \<Rightarrow> facet \<Rightarrow> counts jsresult" where
  "facet_init ty fc =
     (if ty = Some (js ''number'')
      then need (fc_ranges fc) (\<lambda>rgs. Inr (map_spread [] (map (\<lambda>r. (range_key r, 0)) rgs)))
      else Inr [])"

text \<open>The properties of a facet search are independent of each other, except for the order in which they fail.\<close>

fun facet_docs ::
    "(jsstring, jsstring) jsmap \<Rightarrow> (jsstring, facet) jsmap \<Rightarrow> jsval list \<Rightarrow> (jsstring, counts) jsmap \<Rightarrow> (jsstring, counts) jsmap jsresult" where
  "facet_docs a n [] r = Inr r"
| "facet_docs a n (t # ts) r =
     lift_err
       (insert_each (map (\<lambda>(e, fc) r.
          lift_err (facet_value t e) (\<lambda>v.
          lift_err (facet_step (map_get a e) fc v (case map_get r e of None \<Rightarrow> [] | Some i \<Rightarrow> i)) (\<lambda>i.
            Inr (map_set e i r)))) n) r)
       (facet_docs a n ts)"

definition facet_page :: "facet \<Rightarrow> counts \<Rightarrow> counts" where
  "facet_page fc vs =
     (let lo = (case fc_offset fc of None \<Rightarrow> 0 | Some x \<Rightarrow> x); hi = (case fc_limit fc of None \<Rightarrow> 10 | Some x \<Rightarrow> x)
      in take (hi - lo) (drop lo (js_sort (sortingPredicate (fc_sort fc)) vs)))"

definition facet_finish :: "(jsstring, jsstring) jsmap \<Rightarrow> jsstring \<times> facet \<Rightarrow> counts \<Rightarrow> facet_result" where
  "facet_finish a f vs =
     \<lparr>fr_count = length vs, fr_values = (if map_get a (fst f) = Some (js ''string'') then facet_page (snd f) vs else vs)\<rparr>"

fun facet_inits :: "(jsstring, jsstring) jsmap \<Rightarrow> (jsstring, facet) jsmap \<Rightarrow> (jsstring, counts) jsmap jsresult" where
  "facet_inits a [] = Inr []"
| "facet_inits a ((e, fc) # n) =
     lift_err (facet_init (map_get a e) fc) (\<lambda>i. lift_err (facet_inits a n) (\<lambda>r. Inr ((e, i) # r)))"

definition facets_of ::
    "(jsstring, jsstring) jsmap \<Rightarrow> (jsstring, facet) jsmap \<Rightarrow> jsval list \<Rightarrow> (jsstring, facet_result) jsmap jsresult" where
  "facets_of a n ts =
     lift_err (facet_inits a n) (\<lambda>r.
     lift_err (facet_docs a n ts r) (\<lambda>r.
       Inr (map (\<lambda>(e, fc). (e, facet_finish a (e, fc) (case map_get r e of None \<Rightarrow> [] | Some i \<Rightarrow> i))) n)))"

type_synonym results = "(nat \<times> real option) list"

definition getFacets :: "db \<Rightarrow> results \<Rightarrow> (jsstring, facet) jsmap \<Rightarrow> (jsstring, facet_result) jsmap db_result" where
  "getFacets e t n =
     (let (ids, s) = docs_getMultiple (db_ids e) (db_docs e) (map (\<lambda>x. IdNumber (fst x)) t)
      in (e\<lparr>db_ids := ids\<rparr>, facets_of (searchablePropertiesWithTypes (db_index e)) n (map doc_value s)))"

subsection \<open>Groups\<close>

record search_hit =
  h_id :: "jsstring option"
  h_score :: "real option"
  h_document :: "jsval option"

record group_by =
  gb_properties :: "jsstring list"
  gb_maxResult :: "nat option"

record group =
  gr_values :: "jsval list"
  gr_result :: "search_hit list"

definition group_types :: "jsstring list" where
  "group_types = [js ''string'', js ''number'', js ''boolean'']"

fun check_groups :: "(jsstring, jsstring) jsmap \<Rightarrow> jsstring list \<Rightarrow> unit jsresult" where
  "check_groups s [] = Inr ()"
| "check_groups s (t # ts) =
     (case map_get s t of
        None \<Rightarrow> Inl (JsError (js ''UNKNOWN_GROUP_BY_PROPERTY''))
      | Some y \<Rightarrow>
          if y \<notin> set group_types then Inl (JsError (js ''INVALID_GROUP_BY_PROPERTY'')) else check_groups s ts)"

definition object_prototype :: "jsstring list" where
  "object_prototype = map js
     [''constructor'', ''__defineGetter__'', ''__defineSetter__'', ''hasOwnProperty'', ''__lookupGetter__'',
      ''__lookupSetter__'', ''isPrototypeOf'', ''propertyIsEnumerable'', ''toString'', ''valueOf'', ''__proto__'',
      ''toLocaleString'']"

type_synonym group_values = "(jsstring, nat list) jsmap \<times> jsval list"

text \<open>One document of the scan of a property. The map is an object with a prototype: a member of that
  has no list of indexes to push to.\<close>

definition group_step :: "nat option \<Rightarrow> jsstring \<Rightarrow> nat \<times> jsval \<Rightarrow> group_values \<Rightarrow> group_values jsresult" where
  "group_step l t d = (\<lambda>(pv, vs).
     lift_err (getNested (snd d) t) (\<lambda>r.
       if r = JUndef then Inr (pv, vs)
       else
         (let s = js_toString r
          in if map_get pv s = None \<and> s \<in> set object_prototype then Inl TypeError
             else
               (let i = (case map_get pv s of None \<Rightarrow> [] | Some i \<Rightarrow> i)
                in if (case l of None \<Rightarrow> False | Some m \<Rightarrow> m \<le> length i) then Inr (pv, vs)
                   else Inr (map_set s (i @ [fst d]) pv, set_add r vs)))))"

definition group_scan :: "nat option \<Rightarrow> jsval list \<Rightarrow> jsstring \<Rightarrow> group_values jsresult" where
  "group_scan l a t = insert_each (map (group_step l t) (enumerate 0 a)) ([], [])"

fun group_scans :: "nat option \<Rightarrow> jsval list \<Rightarrow> jsstring list \<Rightarrow> group_values list jsresult" where
  "group_scans l a [] = Inr []"
| "group_scans l a (t # ts) = lift_err (group_scan l a t) (\<lambda>g. lift_err (group_scans l a ts) (\<lambda>gs. Inr (g # gs)))"

text \<open>The recursion has no base case for the empty list: it ends with the stack.\<close>

fun calculateCombination :: "'a list list \<Rightarrow> 'a list list jsresult" where
  "calculateCombination [] = Inl (JsError (js ''RangeError''))"
| "calculateCombination [n] = Inr (map (\<lambda>e. [e]) n)"
| "calculateCombination (n # m # ms) =
     lift_err (calculateCombination (m # ms)) (\<lambda>r.
       Inr (concat (map (\<lambda>e. map (\<lambda>t. pushAll [e] t) r) n)))"

definition group_indexes :: "(jsstring, (jsstring, nat list) jsmap) jsmap \<Rightarrow> jsstring list \<Rightarrow> jsval list \<Rightarrow> nat list" where
  "group_indexes f r t =
     js_sort (\<lambda>e t. int e - int t)
       (intersect (map (\<lambda>(p, v).
          case map_get f p of
            None \<Rightarrow> []
          | Some pv \<Rightarrow> (case map_get pv (js_toString v) of None \<Rightarrow> [] | Some i \<Rightarrow> i)) (zip r t)))"

text \<open>The default reduction writes the item \<open>r\<close> of a group at position \<open>r\<close> of an array of that length.\<close>

definition default_reducer :: "jsval list \<Rightarrow> search_hit option list \<Rightarrow> search_hit \<Rightarrow> nat \<Rightarrow> search_hit option list" where
  "default_reducer vs t n r = t[r := Some n]"

definition reduce_group :: "jsval list \<Rightarrow> search_hit list \<Rightarrow> search_hit list" where
  "reduce_group vs s =
     concat (map (\<lambda>x. case x of None \<Rightarrow> [] | Some h \<Rightarrow> [h])
       (foldl (\<lambda>acc (r, n). default_reducer vs acc n r) (replicate (length s) None) (enumerate 0 s)))"

definition groups_of ::
    "group_by \<Rightarrow> jsstring option list \<Rightarrow> jsval option list \<Rightarrow> results \<Rightarrow> group list jsresult" where
  "groups_of n i a t =
     (let r = gb_properties n; l = (case gb_maxResult n of Some (Suc k) \<Rightarrow> Some (Suc k) | _ \<Rightarrow> None)
      in lift_err (group_scans l (map doc_value a) r) (\<lambda>us.
         lift_err (calculateCombination (map snd us)) (\<lambda>d.
           let f = map_spread [] (zip r (map fst us));
               p = filter (\<lambda>(vs, ix). ix \<noteq> []) (map (\<lambda>vs. (vs, group_indexes f r vs)) d)
           in Inr (map (\<lambda>(vs, ix).
                \<lparr>gr_values = vs,
                 gr_result = reduce_group vs (map (\<lambda>e. \<lparr>h_id = i ! e, h_score = snd (t ! e), h_document = a ! e\<rparr>) ix)\<rparr>) p))))"

fun external_ids :: "id_store \<Rightarrow> results \<Rightarrow> jsstring option list jsresult" where
  "external_ids ids [] = Inr []"
| "external_ids ids (x # xs) =
     lift_err (getDocumentIdFromInternalId ids (fst x)) (\<lambda>i. lift_err (external_ids ids xs) (\<lambda>is. Inr (i # is)))"

fun documents_by_id :: "id_store \<Rightarrow> jsval docs_store \<Rightarrow> jsstring option list \<Rightarrow> id_store \<times> jsval option list" where
  "documents_by_id ids ds [] = (ids, [])"
| "documents_by_id ids ds (i # is) =
     (let (ids, d) = (case i of None \<Rightarrow> (ids, None) | Some t \<Rightarrow> docs_get ids ds (IdString t));
          (ids, rest) = documents_by_id ids ds is
      in (ids, d # rest))"

definition getGroups :: "db \<Rightarrow> results \<Rightarrow> group_by \<Rightarrow> group list db_result" where
  "getGroups e t n =
     (case check_groups (searchablePropertiesWithTypes (db_index e)) (gb_properties n) of
        Inl x \<Rightarrow> (e, Inl x)
      | Inr u \<Rightarrow>
          (case external_ids (db_ids e) t of
             Inl x \<Rightarrow> (e, Inl x)
           | Inr i \<Rightarrow>
               (let (ids, a) = documents_by_id (db_ids e) (db_docs e) i
                in (e\<lparr>db_ids := ids\<rparr>, groups_of n i a t))))"

subsection \<open>Pages of hits\<close>

text \<open>Assignment to an element of an array, which grows if the element is past its end.\<close>

definition array_set :: "'a option list \<Rightarrow> nat \<Rightarrow> 'a \<Rightarrow> 'a option list" where
  "array_set s a v = (if a < length s then s[a := Some v] else s @ replicate (a - length s) None @ [Some v])"

definition filter_boolean :: "'a option list \<Rightarrow> 'a list" where
  "filter_boolean s = concat (map (\<lambda>x. case x of None \<Rightarrow> [] | Some v \<Rightarrow> [v]) s)"

fun fetch_loop ::
    "jsval docs_store \<Rightarrow> results \<Rightarrow> nat \<Rightarrow> nat \<Rightarrow> nat list \<Rightarrow> id_store \<times> search_hit option list \<Rightarrow> (id_store \<times> search_hit option list) jsresult" where
  "fetch_loop ds t a 0 i (ids, s) = Inr (ids, s)"
| "fetch_loop ds t a (Suc k) i (ids, s) =
     (if a < length t then
        (let (r, c) = t ! a
         in if r \<in> set i then fetch_loop ds t (a + 1) k i (ids, s)
            else
              (let (ids, d) = docs_get ids ds (IdNumber r)
               in lift_err (getDocumentIdFromInternalId ids r) (\<lambda>x.
                    fetch_loop ds t (a + 1) k (set_add r i)
                      (ids, array_set s a \<lparr>h_id = x, h_score = c, h_document = d\<rparr>))))
      else Inr (ids, s))"

definition fetchDocuments :: "id_store \<Rightarrow> jsval docs_store \<Rightarrow> results \<Rightarrow> nat \<Rightarrow> nat \<Rightarrow> (id_store \<times> search_hit option list) jsresult" where
  "fetchDocuments ids ds t n r = fetch_loop ds t n r [] (ids, replicate r None)"

text \<open>A value as a key of a map: an array is equal to itself only, so it stands with the document it is in.\<close>

definition value_key :: "nat \<Rightarrow> jsval \<Rightarrow> nat option \<times> jsval" where
  "value_key d g = (if is_object g \<and> g \<noteq> JNull then (Some d, g) else (None, g))"

fun distinct_loop ::
    "jsval docs_store \<Rightarrow> nat \<Rightarrow> nat \<Rightarrow> jsstring \<Rightarrow> results \<Rightarrow> (nat option \<times> jsval) list \<Rightarrow> nat list \<Rightarrow> nat \<Rightarrow> id_store \<times> search_hit list \<Rightarrow> (id_store \<times> search_hit list) jsresult" where
  "distinct_loop ds n r p [] i c u st = Inr st"
| "distinct_loop ds n r p ((d, h) # t) i c u (ids, a) =
     (if d \<in> set c then distinct_loop ds n r p t i c u (ids, a)
      else
        (let (ids, doc) = docs_get ids ds (IdNumber d)
         in lift_err (getNested (doc_value doc) p) (\<lambda>g.
              if g = JUndef \<or> value_key d g \<in> set i then distinct_loop ds n r p t i c u (ids, a)
              else
                (let i = i @ [value_key d g]; u = u + 1
                 in if u \<le> n then distinct_loop ds n r p t i c u (ids, a)
                    else
                      lift_err (getDocumentIdFromInternalId ids d) (\<lambda>x.
                        let a = a @ [\<lparr>h_id = x, h_score = h, h_document = doc\<rparr>]
                        in if n + r \<le> u then Inr (ids, a) else distinct_loop ds n r p t i (set_add d c) u (ids, a))))))"

definition fetchDocumentsWithDistinct ::
    "id_store \<Rightarrow> jsval docs_store \<Rightarrow> results \<Rightarrow> nat \<Rightarrow> nat \<Rightarrow> jsstring \<Rightarrow> (id_store \<times> search_hit list) jsresult" where
  "fetchDocumentsWithDistinct ids ds t n r p = distinct_loop ds n r p t [] [] 0 (ids, [])"

subsection \<open>Pages\<close>

text \<open>The hit for a result, and the results without those whose document came before.\<close>

definition hit_of :: "id_store \<Rightarrow> jsval docs_store \<Rightarrow> nat \<times> real option \<Rightarrow> search_hit" where
  "hit_of ids ds x = \<lparr>h_id = extern_id ids (fst x), h_score = snd x, h_document = map_get (docs ds) (fst x)\<rparr>"

fun unseen :: "nat list \<Rightarrow> results \<Rightarrow> results" where
  "unseen i [] = []"
| "unseen i (x # xs) = (if fst x \<in> set i then unseen i xs else x # unseen (set_add (fst x) i) xs)"

lemma unseen_distinct: "distinct (map fst xs) \<Longrightarrow> fst ` set xs \<inter> set i = {} \<Longrightarrow> unseen i xs = xs"
  by (induction xs arbitrary: i) (auto simp: set_add_def)

definition known_ids :: "id_store \<Rightarrow> results \<Rightarrow> bool" where
  "known_ids ids t = list_all (\<lambda>x. extern_id ids (fst x) \<noteq> None) t"

lemma known_id:
  assumes "extern_id ids d \<noteq> None"
  shows "getInternalDocumentId ids (IdNumber d) = (ids, d)" "getDocumentIdFromInternalId ids d = Inr (extern_id ids d)"
    "docs_get ids ds (IdNumber d) = (ids, map_get (docs ds) d)"
proof -
  show 1: "getInternalDocumentId ids (IdNumber d) = (ids, d)"
    using assms by (auto simp: extern_id_Some)
  show "getDocumentIdFromInternalId ids d = Inr (extern_id ids d)"
    using assms by (auto simp: extern_id_def split: sum.splits)
  show "docs_get ids ds (IdNumber d) = (ids, map_get (docs ds) d)"
    unfolding docs_get_def 1 by simp
qed

lemma filter_boolean_append [simp]: "filter_boolean (xs @ ys) = filter_boolean xs @ filter_boolean ys"
  by (simp add: filter_boolean_def)

lemma filter_boolean_None [simp]: "filter_boolean (replicate k None) = []"
  by (induction k) (simp_all add: filter_boolean_def)

lemma filter_boolean_Some [simp]: "filter_boolean (Some v # xs) = v # filter_boolean xs" "filter_boolean [] = []"
  by (simp_all add: filter_boolean_def)

text \<open>An array whose elements from \<open>a\<close> on are holes.\<close>

definition holes_from :: "nat \<Rightarrow> 'a option list \<Rightarrow> bool" where
  "holes_from a s = (\<exists>k. drop a s = replicate k None)"

lemma array_set_page:
  assumes "holes_from a s"
  shows "filter_boolean (array_set s a v) = filter_boolean s @ [v]" "holes_from (a + 1) (array_set s a v)"
proof -
  obtain k where k: "drop a s = replicate k None"
    using assms by (auto simp: holes_from_def)
  have s: "s = take a s @ replicate k None"
    using append_take_drop_id [of a s] k by simp
  have "filter_boolean (array_set s a v) = filter_boolean s @ [v] \<and> holes_from (a + 1) (array_set s a v)"
  proof (cases "a < length s")
    case True
    then have "k \<noteq> 0"
      using k by (cases k) simp_all
    then obtain m where m: "k = Suc m"
      by (cases k) simp_all
    have "drop (Suc a) s = drop 1 (drop a s)"
      by simp
    also have "\<dots> = replicate m None"
      unfolding k m by simp
    finally have "array_set s a v = take a s @ [Some v] @ replicate m None"
      using True by (simp add: array_set_def upd_conv_take_nth_drop)
    moreover have "filter_boolean s = filter_boolean (take a s)"
      by (subst s) simp
    ultimately show ?thesis
      using True by (auto simp: holes_from_def)
  next
    case False
    then show ?thesis
      by (simp add: array_set_def holes_from_def)
  qed
  then show "filter_boolean (array_set s a v) = filter_boolean s @ [v]" "holes_from (a + 1) (array_set s a v)"
    by blast+
qed

lemma holes_from_mono: "holes_from a s \<Longrightarrow> holes_from (a + 1) s"
proof -
  assume "holes_from a s"
  then obtain k where "drop a s = replicate k None"
    by (auto simp: holes_from_def)
  then have "drop (a + 1) s = replicate (k - 1) None"
    by (metis drop_drop drop_replicate plus_1_eq_Suc add.commute)
  then show ?thesis
    by (auto simp: holes_from_def)
qed

lemma fetch_loop_page:
  "known_ids ids t \<Longrightarrow> holes_from a s \<Longrightarrow>
   \<exists>s'. fetch_loop ds t a k i (ids, s) = Inr (ids, s') \<and>
     filter_boolean s' = filter_boolean s @ map (hit_of ids ds) (unseen i (take k (drop a t)))"
proof (induction k arbitrary: a i s)
  case (Suc k)
  show ?case
  proof (cases "a < length t")
    case True
    obtain r c where x: "t ! a = (r, c)"
      by fastforce
    have d: "take (Suc k) (drop a t) = (r, c) # take k (drop (a + 1) t)"
      using True x by (simp add: Cons_nth_drop_Suc [symmetric])
    have "(r, c) \<in> set t"
      using nth_mem [OF True] x by simp
    then have known: "extern_id ids r \<noteq> None"
      using Suc.prems(1) by (auto simp: known_ids_def list_all_iff)
    show ?thesis
    proof (cases "r \<in> set i")
      case seen: True
      then show ?thesis
        using Suc.IH [OF Suc.prems(1) holes_from_mono [OF Suc.prems(2)]] True x d by simp
    next
      case False
      let ?h = "hit_of ids ds (r, c)"
      note set = array_set_page [OF Suc.prems(2), of ?h]
      have run: "fetch_loop ds t a (Suc k) i (ids, s) = fetch_loop ds t (a + 1) k (set_add r i) (ids, array_set s a ?h)"
        using True x False by (simp add: known_id [OF known] lift_err_def hit_of_def del: getInternalDocumentId.simps)
      show ?thesis
        unfolding run using Suc.IH [OF Suc.prems(1) set(2), of "set_add r i"] set(1) False d by simp
    qed
  next
    case False
    then show ?thesis
      by simp
  qed
qed simp

lemma fetchDocuments_hits:
  assumes "known_ids ids t"
  shows "\<exists>s. fetchDocuments ids ds t n r = Inr (ids, s) \<and>
    filter_boolean s = map (hit_of ids ds) (unseen [] (take r (drop n t)))"
proof -
  have "holes_from n (replicate r None :: search_hit option list)"
    by (auto simp: holes_from_def)
  from fetch_loop_page [OF assms this, of ds r "[]"] show ?thesis
    by (simp add: fetchDocuments_def)
qed

subsection \<open>Pages of distinct values\<close>

text \<open>The results whose value is not undefined and did not come before.\<close>

fun firsts :: "(nat \<Rightarrow> jsval) \<Rightarrow> (nat option \<times> jsval) list \<Rightarrow> results \<Rightarrow> results" where
  "firsts val i [] = []"
| "firsts val i (x # xs) =
     (if val (fst x) = JUndef \<or> value_key (fst x) (val (fst x)) \<in> set i then firsts val i xs
      else x # firsts val (i @ [value_key (fst x) (val (fst x))]) xs)"

lemma distinct_loop_page:
  assumes "known_ids ids t" "\<And>d h. (d, h) \<in> set t \<Longrightarrow> getNested (doc_value (map_get (docs ds) d)) p = Inr (val d)"
    and "\<And>d. d \<in> set c \<Longrightarrow> value_key d (val d) \<in> set i" "u < n + max r 1"
  shows "distinct_loop ds n r p t i c u (ids, a) =
    Inr (ids, a @ map (hit_of ids ds) (take (n + max r 1 - max u n) (drop (n - u) (firsts val i t))))"
  using assms
proof (induction t arbitrary: i c u a)
  case (Cons x t)
  obtain d h where x: "x = (d, h)"
    by fastforce
  have known: "extern_id ids d \<noteq> None" "known_ids ids t"
    using Cons.prems(1) by (simp_all add: known_ids_def x)
  have val: "getNested (doc_value (map_get (docs ds) d)) p = Inr (val d)"
    using Cons.prems(2) [of d h] x by simp
  let ?k = "value_key d (val d)"
  have skip: "distinct_loop ds n r p t i c u (ids, a) =
      Inr (ids, a @ map (hit_of ids ds) (take (n + max r 1 - max u n) (drop (n - u) (firsts val i t))))"
    by (rule Cons.IH [OF known(2) _ Cons.prems(3,4)]) (use Cons.prems(2) in auto)
  show ?case
  proof (cases "d \<in> set c \<or> val d = JUndef \<or> ?k \<in> set i")
    case True
    then have "distinct_loop ds n r p (x # t) i c u (ids, a) = distinct_loop ds n r p t i c u (ids, a)"
      by (auto simp: x known_id [OF known(1)] val lift_err_def simp del: getInternalDocumentId.simps)
    moreover have "firsts val i (x # t) = firsts val i t"
      using True Cons.prems(3) [of d] by (auto simp: x)
    ultimately show ?thesis
      using skip by simp
  next
    case False
    have f: "firsts val i (x # t) = x # firsts val (i @ [?k]) t"
      using False by (simp add: x)
    have c: "\<And>e. e \<in> set c \<Longrightarrow> value_key e (val e) \<in> set (i @ [?k])"
      "\<And>e. e \<in> set (set_add d c) \<Longrightarrow> value_key e (val e) \<in> set (i @ [?k])"
      using Cons.prems(3) by (auto simp: set_add_def split: if_splits)
    show ?thesis
    proof (cases "u + 1 \<le> n")
      case True
      then have "distinct_loop ds n r p (x # t) i c u (ids, a) = distinct_loop ds n r p t (i @ [?k]) c (u + 1) (ids, a)"
        using False by (simp add: x known_id [OF known(1)] val lift_err_def Let_def del: getInternalDocumentId.simps)
      moreover have "distinct_loop ds n r p t (i @ [?k]) c (u + 1) (ids, a) =
          Inr (ids, a @ map (hit_of ids ds) (take (n + max r 1 - max (u + 1) n) (drop (n - (u + 1)) (firsts val (i @ [?k]) t))))"
        by (rule Cons.IH [OF known(2) _ c(1)]) (use Cons.prems(2) True in auto)
      moreover have "n - u = Suc (n - (u + 1))"
        using True by simp
      ultimately show ?thesis
        unfolding f using True by (simp add: max_def)
    next
      case late: False
      let ?a = "a @ [hit_of ids ds (d, h)]"
      have run: "distinct_loop ds n r p (x # t) i c u (ids, a) =
          (if n + r \<le> u + 1 then Inr (ids, ?a) else distinct_loop ds n r p t (i @ [?k]) (set_add d c) (u + 1) (ids, ?a))"
        using False late by (simp add: x known_id [OF known(1)] val lift_err_def Let_def hit_of_def del: getInternalDocumentId.simps)
      show ?thesis
      proof (cases "n + r \<le> u + 1")
        case True
        then have "n + max r 1 - max u n = 1"
          using late Cons.prems(4) by (simp add: max_def split: if_splits)
        then show ?thesis
          unfolding f run using True late by (simp add: x)
      next
        case more: False
        have "distinct_loop ds n r p t (i @ [?k]) (set_add d c) (u + 1) (ids, ?a) =
            Inr (ids, ?a @ map (hit_of ids ds) (take (n + max r 1 - max (u + 1) n) (drop (n - (u + 1)) (firsts val (i @ [?k]) t))))"
          by (rule Cons.IH [OF known(2) _ c(2)]) (use Cons.prems(2) more in auto)
        moreover have "n + max r 1 - max u n = Suc (n + max r 1 - max (u + 1) n)"
          using late more by (cases "u = n") (auto simp: max_def)
        ultimately show ?thesis
          unfolding f run using more late by (simp add: x)
      qed
    qed
  qed
qed simp

subsection \<open>Counts of facets\<close>

definition facet_key :: "bool \<Rightarrow> jsval \<Rightarrow> jsstring" where
  "facet_key boolean v = (if v = JUndef \<or> v = JNull then (if boolean then js ''false'' else []) else js_toString v)"

definition count_key :: "counts \<Rightarrow> jsstring \<Rightarrow> counts" where
  "count_key t k = map_set k ((case map_get t k of None \<Rightarrow> 0 | Some c \<Rightarrow> c) + 1) t"

lemma valueFacet_once: "fst (valueFacet b v (t, None)) = count_key t (facet_key b v)"
  by (simp add: valueFacet_def facet_key_def count_key_def was_seen_def Let_def)

lemma count_keys_get:
  "map_get (foldl count_key t ks) k =
     (if k \<in> set ks then Some ((case map_get t k of None \<Rightarrow> 0 | Some c \<Rightarrow> c) + count_list ks k) else map_get t k)"
proof (induction ks arbitrary: t)
  case (Cons x ks)
  show ?case
    unfolding foldl_Cons Cons.IH
    by (cases "map_get t k") (auto simp: count_key_def count_list_0_iff)
qed simp

lemma count_keys_wf: "wf_map t \<Longrightarrow> wf_map (foldl count_key t ks)"
  by (induction ks arbitrary: t) (simp_all add: count_key_def)

text \<open>The types whose facets count one value of each document.\<close>

definition value_type :: "jsstring \<Rightarrow> bool" where
  "value_type ty = (ty \<in> {js ''boolean'', js ''enum'', js ''string''})"

lemma value_type_step:
  assumes "value_type ty"
  shows "facet_step (Some ty) fc v i = Inr (count_key i (facet_key (ty = js ''boolean'') v))"
    "facet_init (Some ty) fc = Inr []"
proof -
  have n: "ty \<noteq> js ''number''" "ty \<noteq> js ''number[]''"
    using assms by (auto simp: value_type_def js_def)
  show "facet_step (Some ty) fc v i = Inr (count_key i (facet_key (ty = js ''boolean'') v))"
    using assms n by (simp add: facet_step_def value_type_def valueFacet_once)
  show "facet_init (Some ty) fc = Inr []"
    using n by (simp add: facet_init_def)
qed

lemma facet_docs_counts:
  assumes "map_get a e = Some ty" "value_type ty" "\<And>t. t \<in> set ts \<Longrightarrow> facet_value t e = Inr (val t)"
  shows "facet_docs a [(e, fc)] ts [(e, i)] = Inr [(e, foldl count_key i (map (\<lambda>t. facet_key (ty = js ''boolean'') (val t)) ts))]"
  using assms(3)
proof (induction ts arbitrary: i)
  case (Cons t ts)
  have "facet_value t e = Inr (val t)"
    using Cons.prems by simp
  with Cons.IH [of "count_key i (facet_key (ty = js ''boolean'') (val t))"] Cons.prems show ?case
    by (simp add: lift_err_def assms(1) value_type_step [OF assms(2)])
qed simp

interpretation facet_desc: js_comparator sortDesc
  by unfold_locales (auto simp: sortDesc_def)

interpretation facet_asc: js_comparator sortAsc
  by unfold_locales (auto simp: sortAsc_def)

subsection \<open>Members of groups\<close>

interpretation ascending: js_comparator "\<lambda>(e :: nat) t. int e - int t"
  by unfold_locales auto

lemma sort_ascending:
  assumes "distinct xs" "set xs = {e. e < c \<and> P e}"
  shows "js_sort (\<lambda>e t. int e - int t) xs = filter P [0..<c]"
proof -
  have "sorted (js_sort (\<lambda>e t. int e - int t) xs)"
    using ascending.sorted_js_sort [of xs] by simp
  moreover have "distinct (js_sort (\<lambda>e t. int e - int t) xs)"
    using assms(1) mset_eq_imp_distinct_iff [OF mset_js_sort] by blast
  moreover have "set (js_sort (\<lambda>e t. int e - int t) xs) = set (filter P [0..<c])"
    using assms(2) by auto
  ultimately show ?thesis
    by (intro sorted_distinct_set_unique) (auto simp: sorted_wrt_filter)
qed

text \<open>The positions of the documents with the text \<open>s\<close> for a property.\<close>

definition with_text :: "(nat \<Rightarrow> jsval) \<Rightarrow> nat \<Rightarrow> jsstring \<Rightarrow> nat list" where
  "with_text val c s = filter (\<lambda>e. val e \<noteq> JUndef \<and> js_toString (val e) = s) [0..<c]"

definition values_of :: "(nat \<Rightarrow> jsval) \<Rightarrow> nat \<Rightarrow> jsval list" where
  "values_of val c = set_new (filter (\<lambda>v. v \<noteq> JUndef) (map val [0..<c]))"

lemma insert_each_append: "insert_each (fs @ gs) s = lift_err (insert_each fs s) (insert_each gs)"
  by (induction fs arbitrary: s) (auto simp: lift_err_def split: sum.split)

lemma set_new_snoc: "set_new (xs @ [x]) = set_add x (set_new xs)"
  by (simp add: set_new_def set_add_all_def)

lemma group_scan_texts:
  assumes "\<And>e. e < length a \<Longrightarrow> getNested (a ! e) t = Inr (val e)"
    and "\<And>e. e < length a \<Longrightarrow> js_toString (val e) \<notin> set object_prototype"
  shows "\<exists>pv. group_scan None a t = Inr (pv, values_of val (length a)) \<and>
    (\<forall>s. map_get pv s = (if with_text val (length a) s = [] then None else Some (with_text val (length a) s)))"
proof -
  have "\<exists>pv. insert_each (map (group_step None t) (enumerate 0 (take c a))) ([], []) = Inr (pv, values_of val c) \<and>
    (\<forall>s. map_get pv s = (if with_text val c s = [] then None else Some (with_text val c s)))" if "c \<le> length a" for c
    using that
  proof (induction c)
    case 0
    show ?case
      by (simp add: values_of_def with_text_def set_new_def)
  next
    case (Suc c)
    then have c: "c < length a"
      by simp
    obtain pv where pv: "insert_each (map (group_step None t) (enumerate 0 (take c a))) ([], []) = Inr (pv, values_of val c)"
      "\<And>s. map_get pv s = (if with_text val c s = [] then None else Some (with_text val c s))"
      using Suc by auto
    have en: "enumerate 0 (take (Suc c) a) = enumerate 0 (take c a) @ [(c, a ! c)]"
      using c by (simp add: take_Suc_conv_app_nth enumerate_append_eq min_def)
    let ?v = "val c"
    let ?s = "js_toString ?v"
    have wt: "with_text val (Suc c) s = with_text val c s @ (if ?v \<noteq> JUndef \<and> ?s = s then [c] else [])" for s
      by (simp add: with_text_def)
    have vals: "values_of val (Suc c) = (if ?v = JUndef then values_of val c else set_add ?v (values_of val c))"
      by (simp add: values_of_def set_new_snoc)
    let ?pv = "map_set ?s (with_text val c ?s @ [c]) pv"
    have "group_step None t (c, a ! c) (pv, values_of val c) =
        Inr (if ?v = JUndef then pv else ?pv, values_of val (Suc c))"
      using assms(2) [OF c] pv(2) [of ?s]
      by (auto simp: group_step_def assms(1) [OF c] lift_err_def Let_def vals)
    then have "insert_each (map (group_step None t) (enumerate 0 (take (Suc c) a))) ([], []) =
        Inr (if ?v = JUndef then pv else ?pv, values_of val (Suc c))"
      unfolding en map_append insert_each_append pv(1) by (simp add: lift_err_def)
    moreover have "map_get (if ?v = JUndef then pv else ?pv) s =
        (if with_text val (Suc c) s = [] then None else Some (with_text val (Suc c) s))" for s
      by (auto simp: wt pv(2))
    ultimately show ?case
      by blast
  qed
  from this [of "length a"] show ?thesis
    by (simp add: group_scan_def)
qed

lemma group_scans_texts:
  assumes "\<And>p e. p \<in> set ps \<Longrightarrow> e < length a \<Longrightarrow> getNested (a ! e) p = Inr (val p e)"
    and "\<And>p e. p \<in> set ps \<Longrightarrow> e < length a \<Longrightarrow> js_toString (val p e) \<notin> set object_prototype"
  shows "\<exists>us. group_scans None a ps = Inr us \<and> map snd us = map (\<lambda>p. values_of (val p) (length a)) ps \<and>
    list_all2 (\<lambda>p u. \<forall>s. map_get (fst u) s =
      (if with_text (val p) (length a) s = [] then None else Some (with_text (val p) (length a) s))) ps us"
  using assms
proof (induction ps)
  case (Cons p ps)
  obtain us where us: "group_scans None a ps = Inr us" "map snd us = map (\<lambda>p. values_of (val p) (length a)) ps"
    "list_all2 (\<lambda>p u. \<forall>s. map_get (fst u) s =
      (if with_text (val p) (length a) s = [] then None else Some (with_text (val p) (length a) s))) ps us"
    using Cons.IH Cons.prems by auto
  obtain pv where pv: "group_scan None a p = Inr (pv, values_of (val p) (length a))"
    "\<forall>s. map_get pv s = (if with_text (val p) (length a) s = [] then None else Some (with_text (val p) (length a) s))"
    using group_scan_texts [of a p "val p"] Cons.prems by auto
  from us pv show ?case
    by simp
qed simp

lemma calculateCombination_product: "us \<noteq> [] \<Longrightarrow> calculateCombination us = Inr (product_lists us)"
proof (induction us rule: calculateCombination.induct)
  case (3 n m ms)
  have "pushAll [e] = (#) e" for e :: 'a
    by (rule ext) simp
  with 3 show ?case
    by simp
qed (simp_all add: concat_map_singleton)

lemma reduce_group_items [simp]: "reduce_group vs s = s"
proof -
  have "foldl (\<lambda>acc (r, n). default_reducer vs acc n r) (map Some xs @ replicate (length ys) None) (enumerate (length xs) ys) =
      map Some (xs @ ys)" for xs ys
  proof (induction ys arbitrary: xs)
    case (Cons y ys)
    from Cons.IH [of "xs @ [y]"] show ?case
      by (simp add: default_reducer_def list_update_append)
  qed simp
  from this [of "[]" s] have "foldl (\<lambda>acc (r, n). default_reducer vs acc n r) (replicate (length s) None) (enumerate 0 s) = map Some s"
    by simp
  then show ?thesis
    unfolding reduce_group_def by (simp add: concat_map_singleton o_def)
qed

text \<open>The document at \<open>e\<close> has, for each property, a value with the text of the one in \<open>vs\<close>.\<close>

definition matches :: "(jsstring \<Rightarrow> nat \<Rightarrow> jsval) \<Rightarrow> jsstring list \<Rightarrow> jsval list \<Rightarrow> nat \<Rightarrow> bool" where
  "matches val ps vs e = list_all (\<lambda>(p, v). val p e \<noteq> JUndef \<and> js_toString (val p e) = js_toString v) (zip ps vs)"

lemma intersect_texts:
  assumes "pvs \<noteq> []"
  shows "js_sort (\<lambda>e t. int e - int t) (intersect (map (\<lambda>(p, v). with_text (val p) c (js_toString v)) pvs)) =
    filter (\<lambda>e. list_all (\<lambda>(p, v). val p e \<noteq> JUndef \<and> js_toString (val p e) = js_toString v) pvs) [0..<c]"
proof (rule sort_ascending)
  let ?L = "map (\<lambda>(p, v). with_text (val p) c (js_toString v)) pvs"
  have one: "distinct (with_text f c s)" "set (with_text f c s) = {e. e < c \<and> f e \<noteq> JUndef \<and> js_toString (f e) = s}" for f s
    by (auto simp: with_text_def)
  have all: "distinct (intersect ?L) \<and> set (intersect ?L) = \<Inter> (set ` set ?L)"
  proof (cases "tl pvs = []")
    case True
    then obtain p v where "pvs = [(p, v)]"
      using assms by (metis list.collapse surj_pair)
    then show ?thesis
      by (simp add: intersect_def one)
  next
    case False
    then have "2 \<le> length ?L"
      using assms by (cases pvs; cases "tl pvs") auto
    from intersect_correct [OF this] show ?thesis
      by simp
  qed
  then show "distinct (intersect ?L)"
    by simp
  have "\<Inter> (set ` set ?L) = {e. e < c \<and> list_all (\<lambda>(p, v). val p e \<noteq> JUndef \<and> js_toString (val p e) = js_toString v) pvs}"
    using assms by (auto simp: one list_all_iff neq_Nil_conv)
  with all show "set (intersect ?L) = {e. e < c \<and> list_all (\<lambda>(p, v). val p e \<noteq> JUndef \<and> js_toString (val p e) = js_toString v) pvs}"
    by simp
qed

lemma group_indexes_members:
  assumes "list_all2 (\<lambda>p u. \<forall>s. map_get (fst u) s =
      (if with_text (val p) c s = [] then None else Some (with_text (val p) c s))) ps us"
    and "distinct ps" "ps \<noteq> []" "length vs = length ps"
  shows "group_indexes (map_spread [] (zip ps (map fst us))) ps vs = filter (matches val ps vs) [0..<c]"
proof -
  have len: "length us = length ps"
    using assms(1) by (simp add: list_all2_lengthD)
  have f: "map_spread [] (zip ps (map fst us)) = zip ps (map fst us)"
    using map_spread_new [of "[]" "zip ps (map fst us)"] assms(2) len by simp
  have get: "map_get (zip ps (map fst us)) (ps ! k) = Some (fst (us ! k))" if "k < length ps" for k
    using map_of_zip_nth [of ps "map fst us" k] assms(2) that len by simp
  have texts: "map (\<lambda>(p, v). case map_get (zip ps (map fst us)) p of
        None \<Rightarrow> [] | Some pv \<Rightarrow> (case map_get pv (js_toString v) of None \<Rightarrow> [] | Some i \<Rightarrow> i)) (zip ps vs) =
      map (\<lambda>(p, v). with_text (val p) c (js_toString v)) (zip ps vs)"
    by (rule nth_equalityI)
      (use assms(4) list_all2_nthD [OF assms(1)] in \<open>auto simp: get\<close>)
  have ne: "zip ps vs \<noteq> []"
    using assms(3,4) by (cases ps; cases vs) auto
  show ?thesis
    unfolding group_indexes_def f texts intersect_texts [OF ne] matches_def [abs_def] ..
qed

lemma product_lists_lengths: "vs \<in> set (product_lists us) \<Longrightarrow> length vs = length us"
  by (induction us arbitrary: vs) auto

lemma map_filter_pair:
  "map g (filter (\<lambda>(x, y). y \<noteq> []) (map (\<lambda>x. (x, f x)) xs)) = map (\<lambda>x. g (x, f x)) (filter (\<lambda>x. f x \<noteq> []) xs)"
  by (induction xs) auto

subsection \<open>Properties\<close>

text \<open>
  A page of hits succeeds for results whose documents are known, and holds, in the order of the
  results, the results from the offset on, at most as many as the limit, each with its id, its score and
  its document and without repetitions of a document.
\<close>

theorem fetchDocuments_page:
  assumes "known_ids ids t"
  shows "\<exists>s. fetchDocuments ids ds t n r = Inr (ids, s) \<and>
    filter_boolean s = map (hit_of ids ds) (unseen [] (take r (drop n t)))"
  using assms by (rule fetchDocuments_hits)

theorem fetchDocuments_page_witness:
  "\<exists>s. fetchDocuments \<lparr>idToInternalId = [(js ''a'', 1), (js ''b'', 2)], internalIdToId = [js ''a'', js ''b'']\<rparr>
       \<lparr>docs = [(1, JNull), (2, JBool True)], doc_count = 2\<rparr> [(2, Some 3), (1, Some 1)] 1 5 =
     Inr (\<lparr>idToInternalId = [(js ''a'', 1), (js ''b'', 2)], internalIdToId = [js ''a'', js ''b'']\<rparr>, s) \<and>
     filter_boolean s = [\<lparr>h_id = Some (js ''a''), h_score = Some 1, h_document = Some JNull\<rparr>]"
proof -
  let ?ids = "\<lparr>idToInternalId = [(js ''a'', 1), (js ''b'', 2)], internalIdToId = [js ''a'', js ''b'']\<rparr>"
  have k: "known_ids ?ids [(2, Some 3), (1, Some 1)]"
    by (simp add: known_ids_def extern_id_def getDocumentIdFromInternalId_def)
  show ?thesis
    using fetchDocuments_page [OF k, of "\<lparr>docs = [(1, JNull), (2, JBool True)], doc_count = 2\<rparr>" 1 5]
    by (simp add: hit_of_def extern_id_def getDocumentIdFromInternalId_def)
qed

text \<open>
  C24: A page of hits with distinct values of a property leaves out a result whose value is undefined or
  was the value of an earlier result. Of the others it skips as many as the offset and takes as many as
  the limit, but one if the limit is 0.
\<close>

theorem distinct_page:
  assumes "known_ids ids t" "\<And>d h. (d, h) \<in> set t \<Longrightarrow> getNested (doc_value (map_get (docs ds) d)) p = Inr (val d)"
  shows "fetchDocumentsWithDistinct ids ds t n r p =
    Inr (ids, map (hit_of ids ds) (take (max r 1) (drop n (firsts val [] t))))"
proof -
  have "distinct_loop ds n r p t [] [] 0 (ids, []) =
      Inr (ids, [] @ map (hit_of ids ds) (take (n + max r 1 - max 0 n) (drop (n - 0) (firsts val [] t))))"
    by (rule distinct_loop_page [OF assms]) auto
  then show ?thesis
    by (simp add: fetchDocumentsWithDistinct_def)
qed

theorem distinct_page_witness:
  "fetchDocumentsWithDistinct \<lparr>idToInternalId = [(js ''a'', 1), (js ''b'', 2)], internalIdToId = [js ''a'', js ''b'']\<rparr>
       \<lparr>docs = [(1, JObj [(js ''k'', JNum 7)]), (2, JObj [(js ''k'', JNum 7)])], doc_count = 2\<rparr>
       [(2, Some 3), (1, Some 1)] 0 5 (js ''k'') =
     Inr (\<lparr>idToInternalId = [(js ''a'', 1), (js ''b'', 2)], internalIdToId = [js ''a'', js ''b'']\<rparr>,
       [\<lparr>h_id = Some (js ''b''), h_score = Some 3, h_document = Some (JObj [(js ''k'', JNum 7)])\<rparr>])"
proof -
  let ?ids = "\<lparr>idToInternalId = [(js ''a'', 1), (js ''b'', 2)], internalIdToId = [js ''a'', js ''b'']\<rparr>"
  let ?ds = "\<lparr>docs = [(1, JObj [(js ''k'', JNum 7)]), (2, JObj [(js ''k'', JNum 7)])], doc_count = 2\<rparr>"
  have k: "known_ids ?ids [(2, Some 3), (1, Some 1)]"
    by (simp add: known_ids_def extern_id_def getDocumentIdFromInternalId_def)
  have "getNested (JObj [(js ''k'', JNum 7)]) (js ''k'') = Inr (JNum 7)"
    by code_simp
  then have v: "getNested (doc_value (map_get (docs ?ds) d)) (js ''k'') = Inr (JNum 7)"
    if "(d, h) \<in> set [(2, Some 3), (1, Some (1 :: real))]" for d h
    using that by (auto simp: doc_value_def)
  show ?thesis
    using distinct_page [OF k v, where n = 0 and r = 5]
    by (simp add: hit_of_def extern_id_def getDocumentIdFromInternalId_def value_key_def is_object_def)
qed



text \<open>
  C22: Grouping by properties, without a bound on the results of a group, returns a group for every
  combination of values the properties have that some document matches. Its results are the results
  whose documents match the combination, in their order, with their ids and scores.
\<close>

theorem groups_of_members:
  assumes "gb_maxResult n = None" "gb_properties n \<noteq> []" "distinct (gb_properties n)"
    and "\<And>p e. p \<in> set (gb_properties n) \<Longrightarrow> e < length a \<Longrightarrow> getNested (doc_value (a ! e)) p = Inr (val p e)"
    and "\<And>p e. p \<in> set (gb_properties n) \<Longrightarrow> e < length a \<Longrightarrow> js_toString (val p e) \<notin> set object_prototype"
  shows "groups_of n i a t =
    Inr (map (\<lambda>vs. \<lparr>gr_values = vs,
          gr_result = map (\<lambda>e. \<lparr>h_id = i ! e, h_score = snd (t ! e), h_document = a ! e\<rparr>)
            (filter (matches val (gb_properties n) vs) [0..<length a])\<rparr>)
        (filter (\<lambda>vs. \<exists>e < length a. matches val (gb_properties n) vs e)
          (product_lists (map (\<lambda>p. values_of (val p) (length a)) (gb_properties n)))))"
proof -
  let ?ps = "gb_properties n"
  let ?c = "length a"
  let ?d = "product_lists (map (\<lambda>p. values_of (val p) ?c) ?ps)"
  obtain us where us: "group_scans None (map doc_value a) ?ps = Inr us" "map snd us = map (\<lambda>p. values_of (val p) ?c) ?ps"
    "list_all2 (\<lambda>p u. \<forall>s. map_get (fst u) s =
      (if with_text (val p) ?c s = [] then None else Some (with_text (val p) ?c s))) ?ps us"
    using group_scans_texts [of ?ps "map doc_value a" val, unfolded length_map] assms(4,5) by (auto simp: nth_map)
  let ?f = "map_spread [] (zip ?ps (map fst us))"
  let ?item = "\<lambda>e. \<lparr>h_id = i ! e, h_score = snd (t ! e), h_document = a ! e\<rparr>"
  have ix: "group_indexes ?f ?ps vs = filter (matches val ?ps vs) [0..<?c]" if "vs \<in> set ?d" for vs
    using group_indexes_members [OF us(3) assms(3,2)] product_lists_lengths [OF that] by simp
  have "calculateCombination (map snd us) = Inr ?d"
    unfolding us(2) using assms(2) by (intro calculateCombination_product) simp
  then have "groups_of n i a t =
      Inr (map (\<lambda>vs. \<lparr>gr_values = vs, gr_result = map ?item (group_indexes ?f ?ps vs)\<rparr>)
        (filter (\<lambda>vs. group_indexes ?f ?ps vs \<noteq> []) ?d))"
    by (simp add: groups_of_def assms(1) us(1) Let_def map_filter_pair)
  also have "filter (\<lambda>vs. group_indexes ?f ?ps vs \<noteq> []) ?d = filter (\<lambda>vs. \<exists>e < ?c. matches val ?ps vs e) ?d"
    by (rule filter_cong) (auto simp: ix filter_empty_conv)
  also have "map (\<lambda>vs. \<lparr>gr_values = vs, gr_result = map ?item (group_indexes ?f ?ps vs)\<rparr>) (filter (\<lambda>vs. \<exists>e < ?c. matches val ?ps vs e) ?d) =
      map (\<lambda>vs. \<lparr>gr_values = vs, gr_result = map ?item (filter (matches val ?ps vs) [0..<?c])\<rparr>) (filter (\<lambda>vs. \<exists>e < ?c. matches val ?ps vs e) ?d)"
    by (rule map_cong) (simp_all add: ix)
  finally show ?thesis .
qed

theorem groups_of_members_witness:
  "groups_of \<lparr>gb_properties = [js ''k''], gb_maxResult = None\<rparr> [Some (js ''a''), Some (js ''b'')]
     [Some (JObj [(js ''k'', JNum 7)]), Some (JObj [(js ''k'', JNum 7)])] [(1, Some 2), (2, Some 1)] =
   Inr [\<lparr>gr_values = [JNum 7], gr_result =
     [\<lparr>h_id = Some (js ''a''), h_score = Some 2, h_document = Some (JObj [(js ''k'', JNum 7)])\<rparr>,
      \<lparr>h_id = Some (js ''b''), h_score = Some 1, h_document = Some (JObj [(js ''k'', JNum 7)])\<rparr>]\<rparr>]"
proof -
  let ?n = "\<lparr>gb_properties = [js ''k''], gb_maxResult = None\<rparr>"
  let ?a = "[Some (JObj [(js ''k'', JNum 7)]), Some (JObj [(js ''k'', JNum 7)])]"
  have g: "getNested (JObj [(js ''k'', JNum 7)]) (js ''k'') = Inr (JNum 7)" "js_toString (JNum 7) \<notin> set object_prototype"
    by code_simp+
  have p: "gb_maxResult ?n = None" "gb_properties ?n \<noteq> []" "distinct (gb_properties ?n)"
    by simp_all
  have v: "getNested (doc_value (?a ! e)) p = Inr (JNum 7)" if "p \<in> set (gb_properties ?n)" "e < length ?a" for p e
    using that g(1) by (auto simp: doc_value_def less_Suc_eq)
  have w: "js_toString (JNum 7) \<notin> set object_prototype" if "p \<in> set (gb_properties ?n)" "e < length ?a" for p e
    by (rule g(2))
  have u: "[0..<length ?a] = [0, 1]"
    by (simp add: upt_rec)
  show ?thesis
    using groups_of_members [where val = "\<lambda>_ _. JNum 7", OF p v w, where i = "[Some (js ''a''), Some (js ''b'')]" and t = "[(1, Some 2), (2, Some 1)]"]
    by (simp add: u matches_def values_of_def upt_rec set_new_def set_add_def del: js_toString.simps, force)
qed

text \<open>
  The page of a string facet is cut with the limit as its end and not as its length: an offset that
  is not below the limit gives no values, however many there are.
\<close>

theorem facet_page_offset:
  assumes "fc_offset fc = Some n" "(case fc_limit fc of None \<Rightarrow> 10 | Some l \<Rightarrow> l) \<le> n"
  shows "facet_page fc vs = []"
  using assms by (cases "fc_limit fc") (simp_all add: facet_page_def)

theorem facet_page_offset_witness:
  "facet_page \<lparr>fc_ranges = None, fc_sort = None, fc_offset = Some 5, fc_limit = Some 5\<rparr>
     (map (\<lambda>i. ([i], 1)) [0..<20]) = []"
  by (rule facet_page_offset [where n = 5]) simp_all

text \<open>
  In a facet over an array of numbers a range is marked as counted for a document only from the
  second hit on, so two numbers of one document in one range count twice the first time.
\<close>

theorem number_facet_counts_twice:
  "fst (foldl (\<lambda>st v. numberFacet [(0, 10)] v st) ([], Some []) [JNum 1, JNum 2, JNum 3]) = [(js ''0-10'', 2)] \<and>
   fst (foldl (\<lambda>st v. numberFacet [(0, 10)] v st) ([(js ''0-10'', 2)], Some []) [JNum 1, JNum 2, JNum 3]) = [(js ''0-10'', 3)]"
  by code_simp

end
