(* ===== verification/Orama_Search.thy ===== *)
theory Orama_Search
  imports Orama_Filters
begin

text \<open>
  Full-text search over the index (\<open>index_search\<close>): which documents the score map holds after the
  fields are searched, their order, and the effect of the threshold.
\<close>

subsection \<open>Documents found\<close>

definition passes :: "nat list option \<Rightarrow> nat \<Rightarrow> bool" where
  "passes flt d = (case flt of None \<Rightarrow> True | Some c \<Rightarrow> d \<in> set c)"

definition found :: "scores \<times> token_map \<Rightarrow> nat set" where
  "found st = dom (map_get (fst st))"

lemma score_doc_found:
  assumes "wf_map (fst st)"
  shows "wf_map (fst (score_doc e t n cnt p boost flt r st))"
    "found (score_doc e t n cnt p boost flt r st) = found st \<union> (if passes flt r then {r} else {})"
  using assms by (cases st; cases flt; auto simp: score_doc_def found_def passes_def Let_def split: if_splits)+

lemma calculateResultScores_found:
  "wf_map (fst st) \<Longrightarrow> wf_map (fst (calculateResultScores e t n ds cnt p boost flt st)) \<and>
   found (calculateResultScores e t n ds cnt p boost flt st) = found st \<union> {d \<in> set ds. passes flt d}"
  unfolding calculateResultScores_def
proof (induction ds arbitrary: st)
  case (Cons d ds)
  show ?case
    using Cons.IH [of "score_doc e t n cnt p boost flt d st"] score_doc_found [OF Cons.prems, of e t n cnt p boost flt d] by auto
qed simp

lemma fold_found:
  assumes "\<And>st x. wf_map (fst st) \<Longrightarrow> wf_map (fst (f st x)) \<and> found (f st x) = found st \<union> g x" "wf_map (fst st)"
  shows "wf_map (fst (foldl f st xs)) \<and> found (foldl f st xs) = found st \<union> (\<Union>x \<in> set xs. g x)"
  using assms(2)
proof (induction xs arbitrary: st)
  case (Cons x xs)
  show ?case
    using Cons.IH [of "f st x"] assms(1) [OF Cons.prems, of x] by auto
qed simp

lemma find_prefix_docs:
  assumes "radix_ok a" "rw a = []"
  shows "(\<Union>(w, ds) \<in> set (radix_find a t False 0). set ds) = (\<Union>w \<in> {w. startsWith w t}. radix_docs a w)"
proof -
  have "(case (if startsWith w t then radix_get w a else None) of None \<Rightarrow> {} | Some ds \<Rightarrow> set ds) =
      (if startsWith w t then radix_docs a w else {})" for w
    by (simp add: radix_docs_def)
  then show ?thesis
    unfolding wf_map_Union [OF wf_radix_find] radix_find_prefix [OF assms] by auto
qed

text \<open>The documents of a field with a word that has one of the terms as a prefix.\<close>

definition prefix_docs :: "nat radix \<Rightarrow> jsstring list \<Rightarrow> nat set" where
  "prefix_docs u ts = (\<Union>t \<in> set ts. \<Union>w \<in> {w. startsWith w t}. radix_docs u w)"

lemma searchInProperty_found:
  assumes "radix_ok u" "rw u = []" "wf_map (fst st)"
  shows "wf_map (fst (searchInProperty e u n ts False 0 cnt p boost flt st)) \<and>
    found (searchInProperty e u n ts False 0 cnt p boost flt st) = found st \<union> {d \<in> prefix_docs u ts. passes flt d}"
proof -
  let ?inner = "\<lambda>st (w, docs). calculateResultScores e n w docs cnt p boost flt st"
  have inner: "wf_map (fst (foldl ?inner st m)) \<and> found (foldl ?inner st m) = found st \<union> (\<Union>(w, ds) \<in> set m. {d \<in> set ds. passes flt d})"
    if "wf_map (fst st)" for st :: "scores \<times> token_map" and m :: "(jsstring, nat list) jsmap"
    using fold_found [where f = ?inner and g = "\<lambda>(w, ds). {d \<in> set ds. passes flt d}" and xs = m, OF _ that]
      calculateResultScores_found by (auto simp: split_def)
  have eq: "(\<Union>(w, ds) \<in> set (radix_find u t False 0). {d \<in> set ds. passes flt d}) =
      {d \<in> (\<Union>w \<in> {w. startsWith w t}. radix_docs u w). passes flt d}" for t
    unfolding find_prefix_docs [OF assms(1,2), symmetric] by auto
  have "wf_map (fst (searchInProperty e u n ts False 0 cnt p boost flt st)) \<and>
    found (searchInProperty e u n ts False 0 cnt p boost flt st) =
      found st \<union> (\<Union>t \<in> set ts. {d \<in> (\<Union>w \<in> {w. startsWith w t}. radix_docs u w). passes flt d})"
    unfolding searchInProperty_def
    by (rule fold_found [OF _ assms(3)]) (simp only: inner eq simp_thms)
  moreover have "(\<Union>t \<in> set ts. {d \<in> (\<Union>w \<in> {w. startsWith w t}. radix_docs u w). passes flt d}) =
      {d \<in> prefix_docs u ts. passes flt d}"
    unfolding prefix_docs_def by auto
  ultimately show ?thesis
    by simp
qed

definition boost_ok :: "index \<Rightarrow> (jsstring, rat) jsmap \<Rightarrow> jsstring \<Rightarrow> bool" where
  "boost_ok e boost n =
     (case node_of e n of
        None \<Rightarrow> True
      | Some (NRadix u) \<Rightarrow> (case map_get boost n of None \<Rightarrow> True | Some f \<Rightarrow> f > 0)
      | Some x \<Rightarrow> False)"

definition property_docs :: "index \<Rightarrow> jsstring list \<Rightarrow> jsstring \<Rightarrow> nat set" where
  "property_docs e ts n = (case node_of e n of Some (NRadix u) \<Rightarrow> prefix_docs u ts | _ \<Rightarrow> {})"

definition search_terms :: "jsstring \<Rightarrow> jsstring list \<Rightarrow> jsstring list" where
  "search_terms term ts = (if ts = [] \<and> term = [] then [[]] else ts)"

lemma search_terms_idem [simp]: "search_terms term (search_terms term ts) = search_terms term ts"
  by (simp add: search_terms_def)

lemma search_properties_found:
  assumes inv: "index_inv e"
  shows "list_all (boost_ok e boost) ns \<Longrightarrow> wf_map (fst st) \<Longrightarrow>
    \<exists>st'. search_properties e term False 0 cnt p boost flt ns ts st = Inr st' \<and> wf_map (fst st') \<and>
      found st' = found st \<union> {d \<in> (\<Union>n \<in> set ns. property_docs e (search_terms term ts) n). passes flt d}"
proof (induction ns arbitrary: ts st)
  case (Cons n ns)
  have ns: "list_all (boost_ok e boost) ns"
    using Cons.prems(1) by simp
  show ?case
  proof (cases "node_of e n")
    case None
    then show ?thesis
      using Cons.IH [OF ns Cons.prems(2), of ts] by (simp add: property_docs_def)
  next
    case (Some x)
    then obtain u where u: "x = NRadix u"
      using Cons.prems(1) by (cases x) (simp_all add: boost_ok_def)
    have ok: "radix_ok u" "rw u = []"
      using index_invD(3) [OF inv Some] u by simp_all
    define f where "f = (case map_get boost n of None \<Rightarrow> 1 | Some f \<Rightarrow> f)"
    have f: "\<not> f \<le> 0"
      using Cons.prems(1) Some u by (auto simp: boost_ok_def f_def split: option.splits)
    let ?ts = "search_terms term ts"
    let ?st = "searchInProperty e u n ?ts False 0 cnt p f flt st"
    note s = searchInProperty_found [OF ok Cons.prems(2), of e n ?ts cnt p f flt]
    obtain st' where st': "search_properties e term False 0 cnt p boost flt ns ?ts ?st = Inr st'" "wf_map (fst st')"
      "found st' = found ?st \<union> {d \<in> (\<Union>n \<in> set ns. property_docs e ?ts n). passes flt d}"
      using Cons.IH [OF ns, of ?st ?ts] s by auto
    have run: "search_properties e term False 0 cnt p boost flt (n # ns) ts st =
        search_properties e term False 0 cnt p boost flt ns ?ts ?st"
      using f by (simp add: Some u Let_def f_def [symmetric] search_terms_def)
    have "(\<Union>m \<in> set (n # ns). property_docs e ?ts m) = prefix_docs u ?ts \<union> (\<Union>m \<in> set ns. property_docs e ?ts m)"
      by (simp add: property_docs_def Some u)
    then have "found st' = found st \<union> {d \<in> (\<Union>m \<in> set (n # ns). property_docs e ?ts m). passes flt d}"
      unfolding st'(3) conjunct2 [OF s] by blast
    with run st'(1,2) show ?thesis
      by simp
  qed
qed simp

definition finite_score :: "nat \<times> real option \<Rightarrow> real" where
  "finite_score x = (case snd x of None \<Rightarrow> 0 | Some s \<Rightarrow> s)"

lemma score_desc_comparator: "js_comparator (\<lambda>a b. finite_score b - finite_score a)"
  by unfold_locales auto

lemma sorted_by_score_desc:
  assumes "\<forall>x \<in> set g. snd x \<noteq> None"
  shows "sorted_wrt (\<lambda>a b. finite_score b \<le> finite_score a) (js_sort by_score_desc g)"
proof -
  have "js_sort by_score_desc g = js_sort (\<lambda>a b. finite_score b - finite_score a) g"
  proof (rule js_sort_cong)
    fix a b
    assume "a \<in> set g" "b \<in> set g"
    then obtain x y where "snd a = Some x" "snd b = Some y"
      using assms by blast
    then show "by_score_desc a b = finite_score b - finite_score a"
      by (simp add: by_score_desc_def finite_score_def)
  qed
  then show ?thesis
    using js_comparator.sorted_js_sort [OF score_desc_comparator, of g] by simp
qed

lemma map_fst_js_sort: "mset (map fst (js_sort cmp g)) = mset (map fst g)"
  by (simp only: mset_map mset_js_sort)

subsection \<open>Properties\<close>

text \<open>
  C4: A full-text search with threshold 1 over text fields with positive boosts succeeds and returns
  exactly the documents that pass the filter and have, in one of the fields searched, a word that
  starts with one of the search terms; each document comes once, and by falling score when every
  score is a number.
\<close>

theorem index_search_finds:
  assumes "index_inv e" "cache_ok tk" "lang_ok tk lang" "list_all (boost_ok e boost) props"
  shows "\<exists>tk' r. index_search seps e term tk lang props False 0 boost p cnt flt 1 = Inr (tk', r) \<and>
    distinct (map fst r) \<and>
    set (map fst r) = {d \<in> (\<Union>n \<in> set props. property_docs e (search_terms term (fresh_tokens seps tk [] term)) n). passes flt d} \<and>
    ((\<forall>x \<in> set r. snd x \<noteq> None) \<longrightarrow> sorted_wrt (\<lambda>a b. finite_score b \<le> finite_score a) r)"
proof -
  let ?ts = "fresh_tokens seps tk [] term"
  obtain tk' where tk': "tokenize seps tk term lang None True = Inr (tk', ?ts)"
    using tokenize_fresh [OF assms(2), of None lang seps "term" True] assms(3) by (auto simp: lang_ok_def)
  obtain g l where st: "search_properties e term False 0 cnt p boost flt props ?ts ([], []) = Inr (g, l)" "wf_map g"
    "dom (map_get g) = {d \<in> (\<Union>n \<in> set props. property_docs e (search_terms term ?ts) n). passes flt d}"
    using search_properties_found [OF assms(1,4), of "([], [])" "term" cnt p flt ?ts] by (auto simp: found_def)
  let ?r = "js_sort by_score_desc g"
  have run: "index_search seps e term tk lang props False 0 boost p cnt flt 1 = Inr (tk', ?r)"
    by (simp add: index_search_def tk' st(1) Let_def apply_threshold_def)
  have "distinct (map fst ?r)"
    using st(2) mset_eq_imp_distinct_iff [OF map_fst_js_sort, of by_score_desc g] by (simp add: wf_map_def)
  moreover have "set (map fst ?r) = dom (map_get g)"
    by (simp add: dom_map_of_conv_image_fst)
  moreover have "sorted_wrt (\<lambda>a b. finite_score b \<le> finite_score a) ?r" if "\<forall>x \<in> set ?r. snd x \<noteq> None"
    using that by (intro sorted_by_score_desc) simp
  ultimately show ?thesis
    using run st(3) by blast
qed

definition two_words :: index where
  "two_words = set_node (js ''title'') (NRadix (radix_of [(js ''abc'', 1), (js ''abd'', 1)])) False title_index"

lemma two_words_node:
  "node_of two_words m = (if m = js ''title'' then Some (NRadix (radix_of [(js ''abc'', 1), (js ''abd'', 1)])) else None)"
  by (simp add: two_words_def title_index_def score_tables_def set_node_def node_of_def index_empty_def)

lemma two_words_ok: "index_inv two_words"
proof (rule index_invI)
  show "field_inv x" if "node_of two_words m = Some x" for m x
    using that by (auto simp: two_words_node radix_ok_of rw_of split: if_splits)
  show "tables_ok two_words m" if "node_of two_words m = Some (NRadix u)" for m u
  proof -
    have "m = js ''title''"
      using that by (simp add: two_words_node split: if_splits)
    with index_invD(4) [OF title_index_ok(1,2)] show ?thesis
      by (simp add: tables_ok_def two_words_def set_node_def)
  qed
qed (simp_all add: two_words_def title_index_def score_tables_def set_node_def index_empty_def wf_map_def)

theorem index_search_finds_witness:
  "\<exists>tk' r. index_search (\<lambda>_. english_sep) two_words (js ''ab'') default_tokenizer None [js ''title''] False 0 []
      \<lparr>bm_k = 6 / 5, bm_b = 3 / 4, bm_d = 1 / 2\<rparr> 1 None 1 = Inr (tk', r) \<and> set (map fst r) = {1}"
proof -
  have l: "lang_ok default_tokenizer None"
    by (simp add: lang_ok_def)
  have b: "list_all (boost_ok two_words []) [js ''title'']"
    by (simp add: boost_ok_def two_words_node)
  have q: "search_terms (js ''ab'') (fresh_tokens (\<lambda>_. english_sep) default_tokenizer [] (js ''ab'')) = [js ''ab'']"
    by code_simp
  have "startsWith (js ''abc'') (js ''ab'')"
    by code_simp
  then have one: "property_docs two_words [js ''ab''] (js ''title'') = {1}"
    by (auto simp: property_docs_def two_words_node prefix_docs_def radix_docs_of)
  show ?thesis
    using index_search_finds [OF two_words_ok createTokenizer_empty_cache [OF createTokenizer_default] l b,
        of "\<lambda>_. english_sep" "js ''ab''" "\<lparr>bm_k = 6 / 5, bm_b = 3 / 4, bm_d = 1 / 2\<rparr>" 1 None]
    by (auto simp: q one passes_def)
qed

lemma score_doc_first: "\<exists>s. score_doc e t n cnt p boost None r ([], []) = ([(r, s)], [(r, [(t, 1)])])"
  by (simp add: score_doc_def Let_def)

lemma score_doc_again:
  "\<exists>s'. score_doc e t n cnt p boost None r ([(r, s)], [(r, [(t, k)])]) = ([(r, s')], [(r, [(t, k + 1)])])"
  by (simp add: score_doc_def Let_def)

text \<open>
  With threshold 0 a document is kept only if some field matched exactly as many words as the
  search has terms. A document with two words that start with the only search term matches two, so
  the search loses it, where threshold 1 finds it.
\<close>

theorem threshold_0_loses_document:
  "\<exists>tk' s. index_search (\<lambda>_. english_sep) two_words (js ''ab'') default_tokenizer None [js ''title''] False 0 [] p cnt None 1 = Inr (tk', [(1, s)]) \<and>
     index_search (\<lambda>_. english_sep) two_words (js ''ab'') default_tokenizer None [js ''title''] False 0 [] p cnt None 0 = Inr (tk', [])"
proof -
  obtain tk' where tok: "tokenize (\<lambda>_. english_sep) default_tokenizer (js ''ab'') None None True = Inr (tk', [js ''ab''])"
  proof -
    have "fresh_tokens (\<lambda>_. english_sep) default_tokenizer [] (js ''ab'') = [js ''ab'']"
      by code_simp
    then show ?thesis
      using that tokenize_fresh [OF createTokenizer_empty_cache [OF createTokenizer_default], of None None "\<lambda>_. english_sep" "js ''ab''" True]
      by auto
  qed
  have node: "node_of two_words (js ''title'') = Some (NRadix (radix_of [(js ''abc'', 1), (js ''abd'', 1)]))"
    by (simp add: two_words_def set_node_def node_of_def)
  have find: "radix_find (radix_of [(js ''abc'', 1), (js ''abd'', 1)]) (js ''ab'') False 0 = [(js ''abd'', [1::nat]), (js ''abc'', [1])]"
    by code_simp
  obtain s1 where s1: "score_doc two_words (js ''title'') (js ''abd'') cnt p 1 None 1 ([], []) = ([(1, s1)], [(1, [(js ''title'', 1)])])"
    using score_doc_first by blast
  obtain s where s: "score_doc two_words (js ''title'') (js ''abc'') cnt p 1 None 1 ([(1, s1)], [(1, [(js ''title'', 1)])]) =
      ([(1, s)], [(1, [(js ''title'', 1 + 1)])])"
    using score_doc_again by blast
  have run: "search_properties two_words (js ''ab'') False 0 cnt p [] None [js ''title''] [js ''ab''] ([], []) =
      Inr ([(1, s)], [(1, [(js ''title'', 2)])])"
    by (simp add: node find Let_def searchInProperty_def calculateResultScores_def s1 s del: One_nat_def)
  show ?thesis
    by (simp add: index_search_def tok run apply_threshold_def all_terms_def Let_def del: search_properties.simps)
qed

definition tags_index :: index where
  "tags_index = score_tables (js ''tags'') (set_node (js ''tags'') (NRadix radix_root) True index_empty)"

text \<open>
  For an array of texts the term frequencies of the document are reset at every element, so only
  the words of the last element keep one: after inserting two elements the words of the first have
  none although they are indexed.
\<close>

theorem array_frequencies_lost:
  "\<exists>ids t. index_insert (\<lambda>_. english_sep) default_tokenizer None 1 None (js ''tags'') 1 (js ''string[]'')
       (JArr [JStr (js ''alpha''), JStr (js ''beta'')]) (\<lparr>idToInternalId = [(js ''a'', 1)], internalIdToId = [js ''a'']\<rparr>, tags_index) = Inr (ids, t) \<and>
     map_get (frequencies t) (js ''tags'') = Some [(1, Some [(js ''beta'', 1)])] \<and>
     map_get (tokenOccurrences t) (js ''tags'') = Some [(js ''alpha'', Some 1), (js ''beta'', Some 1)]"
proof -
  let ?ids = "\<lparr>idToInternalId = [(js ''a'', 1)], internalIdToId = [js ''a'']\<rparr>"
  have ty: "\<not> isVectorType (js ''string[]'')" "isArrayType (js ''string[]'')"
    by code_simp+
  have "case insert_each (map (insert_scalar (\<lambda>_. english_sep) default_tokenizer None 1 None (js ''tags'') 1)
        [JStr (js ''alpha''), JStr (js ''beta'')]) (?ids, tags_index) of
      Inl e \<Rightarrow> False
    | Inr (ids, t) \<Rightarrow> map_get (frequencies t) (js ''tags'') = Some [(1, Some [(js ''beta'', 1)])] \<and>
        map_get (tokenOccurrences t) (js ''tags'') = Some [(js ''alpha'', Some 1), (js ''beta'', Some 1)]"
    by code_simp
  with ty show ?thesis
    by (auto simp: index_insert_def split: sum.splits)
qed

end
