(* ===== verification/Orama_Engine.thy ===== *)
theory Orama_Engine
  imports Orama_Results Orama_Search
begin

text \<open>
  Searching a database (\<^verbatim>\<open>assets/js/search-orama.js\<close>): full-text search
  (\<^verbatim>\<open>Lt\<close>, \<^verbatim>\<open>Ct\<close>), vector search (\<^verbatim>\<open>Ut\<close>), hybrid search
  (\<^verbatim>\<open>Bt\<close>), the choice between them (\<^verbatim>\<open>Vt\<close>), and the adapter of the search
  page (\<^verbatim>\<open>init\<close> and \<^verbatim>\<open>search\<close>).

  Elapsed times are left out. Scores are real numbers; None stands for a score that is not a finite
  number. The documents of hits are the objects of the document store, so that removing the vectors
  from a hit removes them from the store; the model writes them back.
\<close>

subsection \<open>Parameters and results\<close>

datatype property_choice = AllProperties | Properties "jsstring list"

datatype sort_by =
    SortFunction "nat \<times> real option \<times> jsval option \<Rightarrow> nat \<times> real option \<times> jsval option \<Rightarrow> rat"
  | SortProperty jsstring bool

record relevance =
  rl_k :: "rat option"
  rl_b :: "rat option"
  rl_d :: "rat option"

record vector_input =
  vi_value :: "vector option"
  vi_property :: "jsstring option"

record weights =
  w_text :: real
  w_vector :: real

record search_params =
  sp_mode :: "jsstring option"
  sp_term :: "jsstring option"
  sp_properties :: "property_choice option"
  sp_where :: "(jsstring \<times> where_op) list"
  sp_exact :: bool
  sp_tolerance :: nat
  sp_boost :: "(jsstring, rat) jsmap"
  sp_relevance :: "relevance option"
  sp_threshold :: "rat option"
  sp_sortBy :: "sort_by option"
  sp_limit :: "nat option"
  sp_offset :: "nat option"
  sp_distinctOn :: "jsstring option"
  sp_preflight :: bool
  sp_includeVectors :: bool
  sp_facets :: "(jsstring, facet) jsmap"
  sp_groupBy :: "group_by option"
  sp_vector :: "vector_input option"
  sp_similarity :: "real option"
  sp_hybridWeights :: "weights option"

record search_result =
  sr_count :: nat
  sr_hits :: "search_hit list"
  sr_facets :: "(jsstring, facet_result) jsmap option"
  sr_groups :: "group list option"

definition or_default :: "'a option \<Rightarrow> 'a \<Rightarrow> 'a" where
  "or_default x d = (case x of None \<Rightarrow> d | Some v \<Rightarrow> v)"

subsection \<open>Full-text search\<close>

definition string_properties :: "index \<Rightarrow> jsstring list jsresult" where
  "string_properties ix =
     (let t = searchablePropertiesWithTypes ix; i = searchableProperties ix
      in if list_ex (\<lambda>e. map_get t e = None) i then Inl TypeError
         else Inr (filter (\<lambda>e. startsWith (property_type t e) (js ''string'')) i))"

definition properties_cached :: "db \<Rightarrow> jsstring list db_result" where
  "properties_cached e =
     (case db_propertiesToSearch e of
        Some i \<Rightarrow> (e, Inr i)
      | None \<Rightarrow>
          (case string_properties (db_index e) of
             Inl x \<Rightarrow> (e, Inl x)
           | Inr i \<Rightarrow> (e\<lparr>db_propertiesToSearch := Some i\<rparr>, Inr i)))"

definition chosen_properties :: "property_choice option \<Rightarrow> jsstring list \<Rightarrow> jsstring list jsresult" where
  "chosen_properties c i =
     (case c of
        Some (Properties os) \<Rightarrow>
          if list_ex (\<lambda>e. e \<notin> set i) os then Inl (JsError (js ''UNKNOWN_INDEX'')) else Inr (filter (\<lambda>e. e \<in> set os) i)
      | _ \<Rightarrow> Inr i)"

definition where_filter :: "engine_env \<Rightarrow> jsstring option \<Rightarrow> (jsstring \<times> where_op) list \<Rightarrow> db \<Rightarrow> nat list option db_result" where
  "where_filter env n ws e =
     (if ws = [] then (e, Inr None)
      else
        (case (case db_component e of
                 IndexDefault \<Rightarrow> searchByWhereClause (ev_seps env) (ev_native env) n (db_index e) ws (db_tokenizer e)
               | IndexPT15 \<Rightarrow> pt15_where (ev_seps env) (ev_native env) n (db_index e) ws (db_tokenizer e)) of
           Inl x \<Rightarrow> (e, Inl x)
         | Inr (tk, a) \<Rightarrow> (e\<lparr>db_tokenizer := tk\<rparr>, Inr (Some a))))"

definition bm25_default :: bm25 where
  "bm25_default = \<lparr>bm_k = 12 / 10, bm_b = 75 / 100, bm_d = 5 / 10\<rparr>"

definition bm25_params :: "relevance option \<Rightarrow> bm25" where
  "bm25_params r =
     (case r of
        None \<Rightarrow> bm25_default
      | Some t \<Rightarrow>
          \<lparr>bm_k = or_default (rl_k t) (bm_k bm25_default), bm_b = or_default (rl_b t) (bm_b bm25_default),
           bm_d = or_default (rl_d t) (bm_d bm25_default)\<rparr>)"

definition component_search ::
    "engine_env \<Rightarrow> jsstring option \<Rightarrow> search_params \<Rightarrow> jsstring list \<Rightarrow> nat list option \<Rightarrow> db \<Rightarrow> results db_result" where
  "component_search env n t i a e =
     (let term = or_default (sp_term t) []
      in case (case db_component e of
                 IndexDefault \<Rightarrow>
                   index_search (ev_seps env) (db_index e) term (db_tokenizer e) n i (sp_exact t) (sp_tolerance t)
                     (sp_boost t) (bm25_params (sp_relevance t)) (docs_count (db_docs e)) a (or_default (sp_threshold t) 1)
               | IndexPT15 \<Rightarrow>
                   lift_err (pt15_search (ev_seps env) (db_index e) term (db_tokenizer e) i (sp_exact t) (sp_tolerance t) (sp_boost t) a)
                     (\<lambda>(tk, m). Inr (tk, map (\<lambda>(d, s). (d, Some (of_rat s))) m))) of
           Inl x \<Rightarrow> (e, Inl x)
         | Inr (tk, c) \<Rightarrow> (e\<lparr>db_tokenizer := tk\<rparr>, Inr c))"

text \<open>Without a term and without properties every document, or every one the filter has, is a result of
  score 0. The keys of the store are array indices, so the language lists them in ascending order.\<close>

definition innerFullTextSearch :: "engine_env \<Rightarrow> jsstring option \<Rightarrow> search_params \<Rightarrow> db \<Rightarrow> results db_result" where
  "innerFullTextSearch env n t e =
     and_then (properties_cached e) (\<lambda>e i.
       case chosen_properties (sp_properties t) i of
         Inl x \<Rightarrow> (e, Inl x)
       | Inr i \<Rightarrow>
           and_then (where_filter env n (sp_where t) e) (\<lambda>e a.
             if or_default (sp_term t) [] \<noteq> [] \<or> sp_properties t \<noteq> None then component_search env n t i a e
             else (e, Inr (map (\<lambda>d. (d, Some 0)) (case a of Some ds \<Rightarrow> ds | None \<Rightarrow> sort (map_keys (docs_getAll (db_docs e))))))))"

definition byScore_opt :: "nat \<times> real option \<Rightarrow> nat \<times> real option \<Rightarrow> real" where
  "byScore_opt e t =
     (case (snd e, snd t) of
        (Some x, Some y) \<Rightarrow> if y = x then real (fst e) - real (fst t) else y - x
      | _ \<Rightarrow> 0)"

fun intern_results :: "id_store \<Rightarrow> results \<Rightarrow> id_store \<times> results" where
  "intern_results ids [] = (ids, [])"
| "intern_results ids ((t, n) # xs) =
     (let (ids, d) = getInternalDocumentId ids (IdNumber t); (ids, rest) = intern_results ids xs in (ids, (d, n) # rest))"

definition sort_results :: "engine_env \<Rightarrow> sort_by option \<Rightarrow> results \<Rightarrow> db \<Rightarrow> results db_result" where
  "sort_results env s d e =
     (case s of
        None \<Rightarrow> (e, Inr (js_sort byScore_opt d))
      | Some (SortFunction f) \<Rightarrow>
          (let (ids, r) = docs_getMultiple (db_ids e) (db_docs e) (map (\<lambda>x. IdNumber (fst x)) d)
           in (e\<lparr>db_ids := ids\<rparr>,
               Inr (map (\<lambda>(a, b, c). (a, b)) (js_sort f (map (\<lambda>((a, b), c). (a, b, c)) (zip d r))))))
      | Some (SortProperty p desc) \<Rightarrow>
          (case sorter_sortBy (ev_sort env) p desc d (db_sorting e) of
             Inl x \<Rightarrow> (e, Inl x)
           | Inr (so, d) \<Rightarrow>
               (let (ids, d) = intern_results (db_ids e) d in (e\<lparr>db_sorting := so, db_ids := ids\<rparr>, Inr d))))"

subsection \<open>Removal of vectors\<close>

text \<open>The vectors are set to null in the document itself. A path through an array sets a named member of
  the array, which is not among its elements.\<close>

fun strip_vectors :: "jsval \<Rightarrow> jsstring list \<Rightarrow> jsval jsresult" where
  "strip_vectors d [] = Inr d"
| "strip_vectors d (t # ts) =
     (case erase_path d (js_split_on dot [] t) of
        None \<Rightarrow> strip_vectors d ts
      | Some (Inl x) \<Rightarrow> Inl x
      | Some (Inr d) \<Rightarrow> strip_vectors d ts)"

definition as_object :: "jsval \<Rightarrow> jsval" where
  "as_object d = (case d of JObj kvs \<Rightarrow> JObj kvs | _ \<Rightarrow> JObj [])"

definition write_back :: "id_store \<Rightarrow> jsstring option \<Rightarrow> jsval \<Rightarrow> jsval docs_store \<Rightarrow> jsval docs_store" where
  "write_back ids i d ds =
     (case i of
        None \<Rightarrow> ds
      | Some a \<Rightarrow>
          (case map_get (idToInternalId ids) a of
             None \<Rightarrow> ds
           | Some l \<Rightarrow> if map_get (docs ds) l = None then ds else ds\<lparr>docs := map_set l d (docs ds)\<rparr>))"

fun removeVectorsFromHits :: "jsstring list \<Rightarrow> search_hit list \<Rightarrow> db \<Rightarrow> search_hit list db_result" where
  "removeVectorsFromHits vs [] e = (e, Inr [])"
| "removeVectorsFromHits vs (h # hs) e =
     (case strip_vectors (doc_value (h_document h)) vs of
        Inl x \<Rightarrow> (e, Inl x)
      | Inr d \<Rightarrow>
          (let e = (if h_document h = None then e else e\<lparr>db_docs := write_back (db_ids e) (h_id h) d (db_docs e)\<rparr>)
           in and_then (removeVectorsFromHits vs hs e) (\<lambda>e hs. (e, Inr (h\<lparr>h_document := Some (as_object d)\<rparr> # hs)))))"

definition without_vectors :: "bool \<Rightarrow> search_hit list \<Rightarrow> db \<Rightarrow> search_hit list db_result" where
  "without_vectors keep hs e =
     (if keep then (e, Inr hs) else removeVectorsFromHits (map_keys (vectorIndexes (db_index e))) hs e)"

subsection \<open>The three searches\<close>

definition page_of_hits :: "search_params \<Rightarrow> results \<Rightarrow> db \<Rightarrow> search_hit list db_result" where
  "page_of_hits t d e =
     (let a = or_default (sp_offset t) 0; i = or_default (sp_limit t) 10; c = or_default (sp_distinctOn t) []
      in case (if c \<noteq> [] then fetchDocumentsWithDistinct (db_ids e) (db_docs e) d a i c
               else lift_err (fetchDocuments (db_ids e) (db_docs e) d a i) (\<lambda>(ids, s). Inr (ids, filter_boolean s))) of
           Inl x \<Rightarrow> (e, Inl x)
         | Inr (ids, hs) \<Rightarrow> (e\<lparr>db_ids := ids\<rparr>, Inr hs))"

definition search_facets :: "search_params \<Rightarrow> results \<Rightarrow> db \<Rightarrow> (jsstring, facet_result) jsmap option db_result" where
  "search_facets t d e =
     (if sp_facets t = [] then (e, Inr None) else and_then (getFacets e d (sp_facets t)) (\<lambda>e f. (e, Inr (Some f))))"

definition search_groups :: "search_params \<Rightarrow> results \<Rightarrow> db \<Rightarrow> group list option db_result" where
  "search_groups t d e =
     (case sp_groupBy t of None \<Rightarrow> (e, Inr None) | Some g \<Rightarrow> and_then (getGroups e d g) (\<lambda>e f. (e, Inr (Some f))))"

definition fullTextSearch_run :: "engine_env \<Rightarrow> jsstring option \<Rightarrow> search_params \<Rightarrow> db \<Rightarrow> search_result db_result" where
  "fullTextSearch_run env n t e =
     and_then (innerFullTextSearch env n t e) (\<lambda>e d.
     and_then (sort_results env (sp_sortBy t) d e) (\<lambda>e d.
     and_then (if sp_preflight t then (e, Inr [])
               else and_then (page_of_hits t d e) (\<lambda>e hs. without_vectors (sp_includeVectors t) hs e)) (\<lambda>e hs.
     and_then (search_facets t d e) (\<lambda>e f.
     and_then (search_groups t d e) (\<lambda>e g.
       (e, Inr \<lparr>sr_count = length d, sr_hits = hs, sr_facets = f, sr_groups = g\<rparr>))))))"

definition with_search_hooks :: "(db \<Rightarrow> search_result db_result) \<Rightarrow> db \<Rightarrow> search_result db_result" where
  "with_search_hooks f e =
     (if hooks_of e (js ''beforeSearch'') \<noteq> [] \<or> hooks_of e (js ''afterSearch'') \<noteq> []
      then and_then (f (runBeforeSearch e)) (\<lambda>e r. (runAfterSearch e, Inr r))
      else f e)"

definition fullTextSearch :: "engine_env \<Rightarrow> jsstring option \<Rightarrow> search_params \<Rightarrow> db \<Rightarrow> search_result db_result" where
  "fullTextSearch env n t = with_search_hooks (fullTextSearch_run env n t)"

definition innerVectorSearch :: "engine_env \<Rightarrow> jsstring option \<Rightarrow> search_params \<Rightarrow> db \<Rightarrow> results db_result" where
  "innerVectorSearch env n t e =
     (case sp_vector t of
        None \<Rightarrow> (e, Inl TypeError)
      | Some r \<Rightarrow>
          (case (vi_value r, vi_property r) of
             (Some v, Some p) \<Rightarrow>
               (case map_get (vectorIndexes (db_index e)) p of
                  None \<Rightarrow> (e, Inl TypeError)
                | Some vix \<Rightarrow>
                    if length v \<noteq> vec_size vix then (e, Inl (JsError (js ''INVALID_INPUT_VECTOR'')))
                    else
                      and_then (where_filter env n (sp_where t) e) (\<lambda>e a.
                        (e, Inr (map (\<lambda>(d, s). (d, Some s)) (vec_find vix v (or_default (sp_similarity t) (8 / 10)) a)))))
           | _ \<Rightarrow> (e, Inl (JsError (js ''INVALID_VECTOR_INPUT'')))))"

text \<open>The property is set to null under its whole name, also where the name is a path.\<close>

fun vector_hits :: "results \<Rightarrow> jsstring \<Rightarrow> bool \<Rightarrow> db \<Rightarrow> search_hit list db_result" where
  "vector_hits [] p keep e = (e, Inr [])"
| "vector_hits ((d, s) # xs) p keep e =
     (case map_get (docs (db_docs e)) d of
        None \<Rightarrow> vector_hits xs p keep e
      | Some r \<Rightarrow>
          (let r = (if keep then r else (case r of JObj kvs \<Rightarrow> JObj (map_set p JNull kvs) | _ \<Rightarrow> r));
               e = e\<lparr>db_docs := (db_docs e)\<lparr>docs := map_set d r (docs (db_docs e))\<rparr>\<rparr>
           in case getDocumentIdFromInternalId (db_ids e) d of
                Inl x \<Rightarrow> (e, Inl x)
              | Inr i \<Rightarrow>
                  and_then (vector_hits xs p keep e) (\<lambda>e hs. (e, Inr (\<lparr>h_id = i, h_score = s, h_document = Some r\<rparr> # hs)))))"

definition searchVector_run :: "engine_env \<Rightarrow> search_params \<Rightarrow> db \<Rightarrow> search_result db_result" where
  "searchVector_run env t e =
     and_then (innerVectorSearch env (Some (js ''english'')) t e) (\<lambda>e o1.
       let o1 = js_sort byScore_opt o1;
           p = (case sp_vector t of None \<Rightarrow> [] | Some v \<Rightarrow> or_default (vi_property v) [])
       in and_then (search_facets t o1 e) (\<lambda>e f.
          and_then (vector_hits (take (or_default (sp_limit t) 10) (drop (or_default (sp_offset t) 0) o1)) p (sp_includeVectors t) e) (\<lambda>e hs.
          and_then (search_groups t o1 e) (\<lambda>e g.
            (e, Inr \<lparr>sr_count = length o1, sr_hits = hs, sr_facets = Some (or_default f []), sr_groups = Some (or_default g [])\<rparr>)))))"

definition searchVector :: "engine_env \<Rightarrow> search_params \<Rightarrow> db \<Rightarrow> search_result db_result" where
  "searchVector env t = with_search_hooks (searchVector_run env t)"

definition extractScore :: "nat \<times> real option \<Rightarrow> real option" where
  "extractScore e = snd e"

definition normalizeScore :: "real option \<Rightarrow> real option \<Rightarrow> real option" where
  "normalizeScore e t = (case (e, t) of (Some x, Some y) \<Rightarrow> if y = 0 then None else Some (x / y) | _ \<Rightarrow> None)"

definition max_score :: "real option list \<Rightarrow> real option" where
  "max_score xs = (if xs = [] \<or> None \<in> set xs then None else Some (Max (the ` set xs)))"

definition minMaxScoreNormalization :: "results \<Rightarrow> results" where
  "minMaxScoreNormalization e = (let t = max_score (map extractScore e) in map (\<lambda>(d, n). (d, normalizeScore n t)) e)"

definition hybridScore :: "real \<Rightarrow> real \<Rightarrow> real option \<Rightarrow> real option \<Rightarrow> real option" where
  "hybridScore e t n r = (case (n, r) of (Some n, Some r) \<Rightarrow> Some (n * e + r * t) | _ \<Rightarrow> None)"

definition text_weight :: "weights option \<Rightarrow> real \<times> real" where
  "text_weight r =
     (case r of
        Some w \<Rightarrow> if w_text w \<noteq> 0 \<and> w_vector w \<noteq> 0 then (w_text w, w_vector w) else (1 / 2, 1 / 2)
      | None \<Rightarrow> (1 / 2, 1 / 2))"

definition mergeAndRankResults :: "results \<Rightarrow> results \<Rightarrow> weights option \<Rightarrow> results" where
  "mergeAndRankResults e t r =
     (let o1 = max_score (map extractScore e); s = max_score (map extractScore t); (a, c) = text_weight r;
          l = foldl (\<lambda>l (n, x). map_set n (hybridScore a c (normalizeScore x o1) (Some 0)) l) [] e;
          l = foldl (\<lambda>l (n, x).
                map_set n (add_score (case map_get l n of None \<Rightarrow> Some 0 | Some i \<Rightarrow> i) (hybridScore a c (Some 0) (normalizeScore x s))) l) l t
      in js_sort by_score_desc l)"

definition innerHybridSearch :: "engine_env \<Rightarrow> search_params \<Rightarrow> db \<Rightarrow> results db_result" where
  "innerHybridSearch env t e =
     and_then (innerFullTextSearch env None t e) (\<lambda>e r.
     and_then (innerVectorSearch env None t e) (\<lambda>e o1.
       (e, Inr (mergeAndRankResults (minMaxScoreNormalization r) o1 (sp_hybridWeights t)))))"

definition hybridSearch_run :: "engine_env \<Rightarrow> search_params \<Rightarrow> db \<Rightarrow> search_result db_result" where
  "hybridSearch_run env t e =
     and_then (innerHybridSearch env t e) (\<lambda>e o1.
     and_then (search_facets t o1 e) (\<lambda>e f.
     and_then (search_groups t o1 e) (\<lambda>e g.
     and_then (page_of_hits (t\<lparr>sp_distinctOn := None\<rparr>) o1 e) (\<lambda>e hs.
     and_then (without_vectors (sp_includeVectors t) hs e) (\<lambda>e hs.
       (e, Inr \<lparr>sr_count = length o1, sr_hits = hs, sr_facets = f, sr_groups = g\<rparr>))))))"

definition hybridSearch :: "engine_env \<Rightarrow> search_params \<Rightarrow> db \<Rightarrow> search_result db_result" where
  "hybridSearch env t = with_search_hooks (hybridSearch_run env t)"

definition search :: "engine_env \<Rightarrow> jsstring option \<Rightarrow> search_params \<Rightarrow> db \<Rightarrow> search_result db_result" where
  "search env n t e =
     (let r = or_default (sp_mode t) (js ''fulltext'')
      in if r = js ''fulltext'' then fullTextSearch env n t e
         else if r = js ''vector'' then searchVector env t e
         else if r = js ''hybrid'' then hybridSearch env t e
         else (e, Inl (JsError (js ''INVALID_SEARCH_MODE''))))"

subsection \<open>The adapter of the search page\<close>

definition pluginPT15 :: plugin where
  "pluginPT15 =
     \<lparr>pl_name = js ''orama-plugin-pt15'',
      pl_components = Some \<lparr>cm_tokenizer = None, cm_index = Some IndexPT15, cm_functions = []\<rparr>, pl_hooks = []\<rparr>"

definition site_schema :: "(jsstring \<times> schema) list" where
  "site_schema =
     [(js ''title'', TyName (js ''string'')), (js ''content'', TyName (js ''string'')), (js ''uri'', TyName (js ''string'')),
      (js ''breadcrumb'', TyName (js ''string'')), (js ''description'', TyName (js ''string'')), (js ''tags'', TyName (js ''string[]''))]"

definition site_options :: create_options where
  "site_options =
     \<lparr>co_schema = site_schema, co_sort = None, co_language = None, co_components = None, co_id = None,
      co_plugins = [pluginPT15]\<rparr>"

definition insertMultiple :: "engine_env \<Rightarrow> jsval list \<Rightarrow> db \<Rightarrow> jsstring list db_result option" where
  "insertMultiple env r n =
     (let io = \<lparr>io_language = None, io_skipHooks = False, io_threshold = None\<rparr>
      in if isAsync (hooks_of n (js ''afterInsertMultiple'')) \<or> isAsync (hooks_of n (js ''beforeInsertMultiple''))
         then insertMultiple_async env io None r n else Some (insertMultiple_sync env io None r n))"

definition adapter_init :: "engine_env \<Rightarrow> nat \<Rightarrow> jsval list \<Rightarrow> jsstring list db_result option jsresult" where
  "adapter_init env uid t = lift_err (create_db env site_options uid) (\<lambda>rn. Inr (insertMultiple env t rn))"

definition site_search :: "jsstring \<Rightarrow> search_params" where
  "site_search t =
     \<lparr>sp_mode = None, sp_term = Some t, sp_properties = Some AllProperties, sp_where = [], sp_exact = False,
      sp_tolerance = 0,
      sp_boost = [(js ''tags'', 18 / 10), (js ''title'', 15 / 10), (js ''description'', 13 / 10), (js ''breadcrumb'', 12 / 10)],
      sp_relevance = None, sp_threshold = Some 0, sp_sortBy = None, sp_limit = Some 99, sp_offset = None,
      sp_distinctOn = None, sp_preflight = False, sp_includeVectors = False, sp_facets = [], sp_groupBy = None,
      sp_vector = None, sp_similarity = None, sp_hybridWeights = None\<rparr>"

record page_match =
  pm_matches :: "jsstring list"
  pm_page :: jsval

definition adapter_search :: "engine_env \<Rightarrow> jsstring \<Rightarrow> db \<Rightarrow> page_match list db_result" where
  "adapter_search env t rn =
     and_then (search env None (site_search t) rn) (\<lambda>rn n.
       (rn, Inr (map (\<lambda>e. \<lparr>pm_matches = t # js_split_on 32 [] t, pm_page = doc_value (h_document e)\<rparr>) (sr_hits n))))"

subsection \<open>A page of hits\<close>

lemma map_set_same: "map_get m k = Some v \<Longrightarrow> map_set k v m = m"
  by (induction m) (auto split: if_splits)

text \<open>The order of hits: by descending score, and by number where scores are equal.\<close>

definition ranked :: "nat \<times> real option \<Rightarrow> nat \<times> real option \<Rightarrow> bool" where
  "ranked a b = (finite_score b < finite_score a \<or> finite_score a = finite_score b \<and> fst a \<le> fst b)"

interpretation ranking: js_comparator "\<lambda>a b. if finite_score b = finite_score a then real (fst a) - real (fst b) else finite_score b - finite_score a"
  by unfold_locales (auto split: if_splits)

lemma sorted_byScore_opt:
  assumes "\<forall>x \<in> set d. snd x \<noteq> None"
  shows "sorted_wrt ranked (js_sort byScore_opt d)"
proof -
  let ?c = "\<lambda>a b. if finite_score b = finite_score a then real (fst a) - real (fst b) else finite_score b - finite_score a"
  have "js_sort byScore_opt d = js_sort ?c d"
  proof (rule js_sort_cong)
    fix a b
    assume "a \<in> set d" "b \<in> set d"
    then obtain x y where "snd a = Some x" "snd b = Some y"
      using assms by blast
    then show "byScore_opt a b = ?c a b"
      by (simp add: byScore_opt_def finite_score_def)
  qed
  moreover have "sorted_wrt (\<lambda>a b. ?c a b \<le> 0) (js_sort ?c d)"
    by (rule ranking.sorted_js_sort)
  ultimately show ?thesis
    by (auto simp: ranked_def elim!: sorted_wrt_mono_rel [rotated] split: if_splits)
qed

text \<open>A hit on a stored object, under the number of its id.\<close>

definition object_hit :: "db \<Rightarrow> search_hit \<Rightarrow> bool" where
  "object_hit e h =
     (\<exists>l a kvs. h_id h = Some a \<and> extern_id (db_ids e) l = Some a \<and> map_get (docs (db_docs e)) l = Some (JObj kvs) \<and>
        h_document h = Some (JObj kvs))"

lemma removeVectorsFromHits_none: "ids_ok (db_ids e) \<Longrightarrow> list_all (object_hit e) hs \<Longrightarrow> removeVectorsFromHits [] hs e = (e, Inr hs)"
proof (induction hs)
  case (Cons h hs)
  then obtain l a kvs where h: "h_id h = Some a" "extern_id (db_ids e) l = Some a" "map_get (docs (db_docs e)) l = Some (JObj kvs)"
      "h_document h = Some (JObj kvs)"
    by (auto simp: object_hit_def)
  have "map_get (idToInternalId (db_ids e)) a = Some l"
    using ids_ok_get [OF Cons.prems(1), of a l] h(2) by (auto simp: extern_id_Some)
  then have "write_back (db_ids e) (h_id h) (JObj kvs) (db_docs e) = db_docs e"
    using h map_set_same [OF h(3)] by (simp add: write_back_def)
  moreover have "h\<lparr>h_document := Some (JObj kvs)\<rparr> = h"
    using h(4) by simp
  ultimately show ?case
    using Cons h by (simp add: and_then_def doc_value_def as_object_def)
qed simp

text \<open>A search that only ranks: every result is a stored object, and no option asks for more than a page.\<close>

definition plain_search :: "search_params \<Rightarrow> bool" where
  "plain_search t =
     (sp_sortBy t = None \<and> \<not> sp_preflight t \<and> or_default (sp_distinctOn t) [] = [] \<and> sp_facets t = [] \<and> sp_groupBy t = None)"

definition results_page :: "search_params \<Rightarrow> db \<Rightarrow> results \<Rightarrow> search_result" where
  "results_page t e d =
     \<lparr>sr_count = length d,
      sr_hits = map (hit_of (db_ids e) (db_docs e))
        (take (or_default (sp_limit t) 10) (drop (or_default (sp_offset t) 0) (js_sort byScore_opt d))),
      sr_facets = None, sr_groups = None\<rparr>"

lemma fullTextSearch_run_page:
  assumes "innerFullTextSearch env n t e = (e1, Inr d)" "db_ok e1" "distinct (map fst d)" "plain_search t"
    and "\<And>l s. (l, s) \<in> set d \<Longrightarrow> \<exists>kvs. map_get (docs (db_docs e1)) l = Some (JObj kvs)" "vectorIndexes (db_index e1) = []"
  shows "fullTextSearch_run env n t e = (e1, Inr (results_page t e1 d))"
proof -
  let ?d = "js_sort byScore_opt d"
  let ?p = "take (or_default (sp_limit t) 10) (drop (or_default (sp_offset t) 0) ?d)"
  let ?h = "map (hit_of (db_ids e1) (db_docs e1)) ?p"
  have sort: "sort_results env (sp_sortBy t) d e1 = (e1, Inr ?d)"
    using assms(4) by (simp add: sort_results_def plain_search_def)
  have ext: "\<exists>a. extern_id (db_ids e1) l = Some a" if "(l, s) \<in> set d" for l s
    using assms(2,5) that by (fastforce simp: db_ok_def)
  then have "known_ids (db_ids e1) ?d"
    by (fastforce simp: known_ids_def list_all_iff)
  from fetchDocuments_hits [OF this, of "db_docs e1" "or_default (sp_offset t) 0" "or_default (sp_limit t) 10"] obtain s
    where s: "fetchDocuments (db_ids e1) (db_docs e1) ?d (or_default (sp_offset t) 0) (or_default (sp_limit t) 10) = Inr (db_ids e1, s)"
      "filter_boolean s = map (hit_of (db_ids e1) (db_docs e1)) (unseen [] ?p)"
    by blast
  have "distinct (map fst ?d)"
    using mset_eq_imp_distinct_iff [OF map_fst_js_sort, of byScore_opt d] assms(3) by simp
  then have "unseen [] ?p = ?p"
    by (intro unseen_distinct) (simp_all add: drop_map [symmetric] take_map [symmetric])
  with s have page: "page_of_hits t ?d e1 = (e1, Inr ?h)"
    using assms(4) by (simp add: page_of_hits_def plain_search_def)
  have "list_all (object_hit e1) ?h"
  proof (unfold list_all_iff, intro ballI)
    fix h
    assume "h \<in> set ?h"
    then obtain l x where l: "(l, x) \<in> set d" "h = hit_of (db_ids e1) (db_docs e1) (l, x)"
      by (auto dest!: in_set_takeD in_set_dropD)
    with ext assms(5) show "object_hit e1 h"
      unfolding object_hit_def hit_of_def by fastforce
  qed
  then have "without_vectors (sp_includeVectors t) ?h e1 = (e1, Inr ?h)"
    using removeVectorsFromHits_none assms(2,6) by (simp add: without_vectors_def db_ok_def map_keys_def)
  then show ?thesis
    using assms(1,4) sort page
    by (simp add: fullTextSearch_run_def and_then_def plain_search_def search_facets_def search_groups_def results_page_def)
qed

subsection \<open>Merging text and vector results\<close>

definition peak :: "results \<Rightarrow> real" where
  "peak xs = Max (finite_score ` set xs)"

definition score_in :: "results \<Rightarrow> nat \<Rightarrow> real" where
  "score_in xs d = (case map_get xs d of None \<Rightarrow> 0 | Some x \<Rightarrow> finite_score (d, x))"

text \<open>Results with one finite score for every document, the largest of them not 0.\<close>

definition proper_results :: "results \<Rightarrow> bool" where
  "proper_results xs = (wf_map xs \<and> list_all (\<lambda>x. snd x \<noteq> None) xs \<and> (xs \<noteq> [] \<longrightarrow> peak xs \<noteq> 0))"

lemma proper_normalized:
  assumes "proper_results xs" "(d, x) \<in> set xs"
  shows "normalizeScore x (max_score (map extractScore xs)) = Some (finite_score (d, x) / peak xs)"
proof -
  have "list_all (\<lambda>x. snd x \<noteq> None) xs" "xs \<noteq> []" "peak xs \<noteq> 0"
    using assms by (auto simp: proper_results_def)
  moreover have "the ` set (map extractScore xs) = finite_score ` set xs"
    using calculation(1) by (auto simp: extractScore_def finite_score_def list_all_iff image_image intro!: image_cong split: option.split)
  moreover have "None \<notin> set (map extractScore xs)"
    using calculation(1) by (auto simp: extractScore_def list_all_iff)
  ultimately show ?thesis
    using assms by (auto simp: normalizeScore_def max_score_def peak_def proper_results_def list_all_iff finite_score_def)
qed

lemma foldl_set_get:
  "wf_map xs \<Longrightarrow>
   map_get (foldl (\<lambda>l (n, x). map_set n (f (map_get l n) n x) l) l xs) d =
     (case map_get xs d of None \<Rightarrow> map_get l d | Some x \<Rightarrow> Some (f (map_get l d) d x))"
proof (induction xs arbitrary: l)
  case (Cons y xs)
  obtain n x where y: "y = (n, x)"
    by fastforce
  have "wf_map xs" "map_get xs n = None"
    using Cons.prems by (auto simp: y wf_map_def map_of_eq_None_iff)
  with Cons.IH [OF this(1), of "map_set n (f (map_get l n) n x) l"] show ?case
    by (auto simp: y split: option.split)
qed simp

lemma foldl_set_wf: "wf_map l \<Longrightarrow> wf_map (foldl (\<lambda>l (n, x). map_set n (f (map_get l n) n x) l) l xs)"
  by (induction xs arbitrary: l) (auto split: prod.split)

lemma js_sort_map:
  assumes "wf_map xs"
  shows "wf_map (js_sort cmp xs)" "map_get (js_sort cmp xs) = map_get xs"
proof -
  show w: "wf_map (js_sort cmp xs)"
    using assms mset_eq_imp_distinct_iff [OF map_fst_js_sort, of cmp xs] by (simp add: wf_map_def)
  show "map_get (js_sort cmp xs) = map_get xs"
    using w assms by (simp add: wf_map_def map_of_inject_set)
qed

text \<open>The scores before they are sorted.\<close>

definition text_scores :: "results \<Rightarrow> real \<Rightarrow> real \<Rightarrow> results" where
  "text_scores e a c =
     foldl (\<lambda>l (n, x). map_set n (hybridScore a c (normalizeScore x (max_score (map extractScore e))) (Some 0)) l) [] e"

definition merged_scores :: "results \<Rightarrow> results \<Rightarrow> real \<Rightarrow> real \<Rightarrow> results" where
  "merged_scores e t a c =
     foldl (\<lambda>l (n, x). map_set n (add_score (case map_get l n of None \<Rightarrow> Some 0 | Some i \<Rightarrow> i)
       (hybridScore a c (Some 0) (normalizeScore x (max_score (map extractScore t))))) l) (text_scores e a c) t"

lemma mergeAndRankResults_sorts: "text_weight r = (a, c) \<Longrightarrow> mergeAndRankResults e t r = js_sort by_score_desc (merged_scores e t a c)"
  by (simp add: mergeAndRankResults_def merged_scores_def text_scores_def Let_def)

lemma text_scores_get:
  assumes "proper_results e"
  shows "map_get (text_scores e a c) d = (case map_get e d of None \<Rightarrow> None | Some x \<Rightarrow> Some (Some (finite_score (d, x) / peak e * a)))"
proof -
  have "wf_map e"
    using assms by (simp add: proper_results_def)
  from foldl_set_get [OF this, of "\<lambda>_ n x. hybridScore a c (normalizeScore x (max_score (map extractScore e))) (Some 0)" "[]" d]
  show ?thesis
    unfolding text_scores_def using proper_normalized [OF assms map_of_SomeD, of d]
    by (cases "map_get e d") (simp_all add: hybridScore_def)
qed

lemma merged_scores_get:
  assumes "proper_results e" "proper_results t"
  shows "map_get (merged_scores e t a c) d = (if map_get e d = None \<and> map_get t d = None then None
      else Some (Some (score_in e d / peak e * a + score_in t d / peak t * c)))"
proof -
  have "wf_map t"
    using assms by (simp add: proper_results_def)
  from foldl_set_get [OF this, of "\<lambda>m n x. add_score (case m of None \<Rightarrow> Some 0 | Some i \<Rightarrow> i)
      (hybridScore a c (Some 0) (normalizeScore x (max_score (map extractScore t))))" "text_scores e a c" d]
  show ?thesis
    unfolding merged_scores_def text_scores_get [OF assms(1)] using proper_normalized [OF assms(2) map_of_SomeD, of d]
    by (cases "map_get e d"; cases "map_get t d") (simp_all add: score_in_def hybridScore_def add_score_def)
qed

lemma merged_scores_wf: "wf_map (merged_scores e t a c)"
proof -
  have "wf_map (text_scores e a c)"
    unfolding text_scores_def
    by (rule foldl_set_wf [of _ "\<lambda>_ n x. hybridScore a c (normalizeScore x (max_score (map extractScore e))) (Some 0)"]) simp
  then show ?thesis
    unfolding merged_scores_def
    by (rule foldl_set_wf [of _ "\<lambda>m n x. add_score (case m of None \<Rightarrow> Some 0 | Some i \<Rightarrow> i)
        (hybridScore a c (Some 0) (normalizeScore x (max_score (map extractScore t))))"])
qed



text \<open>
  A vector search that is not asked to include vectors sets the vector of every document it returns to null
  in the store: the document is changed for good.
\<close>

theorem vector_search_erases_vector:
  assumes "map_get (docs (db_docs e)) d = Some (JObj kvs)" "extern_id (db_ids e) d = Some a"
  shows "\<exists>e' h. vector_hits [(d, s)] p False e = (e', Inr [h]) \<and> map_get (docs (db_docs e')) d = Some (JObj (map_set p JNull kvs))"
  using assms known_id(2) [of "db_ids e" d] by (simp add: and_then_def Let_def)

end
