(* ===== verification/Orama_Site.thy ===== *)
theory Orama_Site
  imports Orama_Engine
begin

text \<open>
  The search of the documentation site as a whole: \<^verbatim>\<open>init\<close> creates the database of
  \<^verbatim>\<open>search-orama.js\<close> and inserts the pages, \<^verbatim>\<open>search\<close> looks a text up.
  The theory composes the theorems of the tokenizer, the document numbers, the store, the prefix index,
  the batches of insertions and the pages of hits into one statement about the two functions.
\<close>

subsection \<open>Pages\<close>

definition site_names :: "jsstring list" where
  "site_names = map fst site_schema"

definition site_types :: "(jsstring, jsstring) jsmap" where
  "site_types =
     [(js ''title'', js ''string''), (js ''content'', js ''string''), (js ''uri'', js ''string''),
      (js ''breadcrumb'', js ''string''), (js ''description'', js ''string''), (js ''tags'', js ''string[]'')]"

definition site_sortables :: "jsstring list" where
  "site_sortables = [js ''title'', js ''content'', js ''uri'', js ''breadcrumb'', js ''description'']"

text \<open>A page of the site: the fields are texts, or an array of texts for the tags, or not there, and the
  page has no id of its own.\<close>

definition value_ok :: "jsstring \<Rightarrow> jsval \<Rightarrow> bool" where
  "value_ok ty v =
     (v = JUndef \<or> (if ty = js ''string[]'' then (case v of JArr xs \<Rightarrow> list_all is_str xs | _ \<Rightarrow> False) else is_str v))"

definition page_ok :: "jsval \<Rightarrow> bool" where
  "page_ok p =
     (case p of
        JObj kvs \<Rightarrow> map_get kvs (js ''id'') = None \<and> list_all (\<lambda>(n, ty). value_ok ty (field p n)) site_types
      | _ \<Rightarrow> False)"

definition strings :: "jsval \<Rightarrow> jsstring list" where
  "strings v = concat (map (\<lambda>x. case x of JStr s \<Rightarrow> [s] | _ \<Rightarrow> []) (texts v))"

definition site_tokens :: "engine_env \<Rightarrow> jsstring \<Rightarrow> jsstring \<Rightarrow> jsstring list" where
  "site_tokens env n s = fresh_tokens (ev_seps env) default_tokenizer n s"

definition page_words :: "engine_env \<Rightarrow> jsval \<Rightarrow> jsstring \<Rightarrow> jsstring list list" where
  "page_words env p n = map (site_tokens env n) (strings (field p n))"

text \<open>A page is found if a word of one of its fields starts with a word of the search text. Each such word counts
  its level, which is higher the nearer it is to the start of the field, times the weight of the field.\<close>

definition page_hit :: "engine_env \<Rightarrow> jsstring \<Rightarrow> jsval \<Rightarrow> bool" where
  "page_hit env t p =
     list_ex (\<lambda>n. list_ex (\<lambda>q. list_ex (list_ex (\<lambda>w. startsWith w q)) (page_words env p n)) (site_tokens env [] t)) site_names"

definition field_sum :: "rat \<Rightarrow> jsstring list \<Rightarrow> jsstring list list \<Rightarrow> rat" where
  "field_sum r qs wss = (\<Sum>q \<leftarrow> qs. \<Sum>ws \<leftarrow> wss. text_score r 0 q (0, ws))"

definition page_score :: "engine_env \<Rightarrow> jsstring \<Rightarrow> jsval \<Rightarrow> rat" where
  "page_score env t p =
     (\<Sum>n \<leftarrow> site_names. field_sum (boost_of (sp_boost (site_search t)) n) (site_tokens env [] t) (page_words env p n))"

subsection \<open>The texts of a field\<close>

definition doc_texts :: "engine_env \<Rightarrow> jsstring \<Rightarrow> nat \<Rightarrow> jsval \<Rightarrow> (nat \<times> jsstring list) list" where
  "doc_texts env n l p = map (Pair l) (page_words env p n)"

fun site_texts :: "engine_env \<Rightarrow> jsstring \<Rightarrow> nat \<Rightarrow> jsval list \<Rightarrow> (nat \<times> jsstring list) list" where
  "site_texts env n l [] = []"
| "site_texts env n l (p # ps) = doc_texts env n l p @ site_texts env n (Suc l) ps"

lemma site_texts_snoc: "site_texts env n l (ps @ [p]) = site_texts env n l ps @ doc_texts env n (l + length ps) p"
  by (induction ps arbitrary: l) simp_all

lemma position_of_append:
  "position_of (ps @ map (Pair d) wss) = foldl (\<lambda>t ws. position_insert ws d t) (position_of ps) wss"
  by (simp add: position_of_def foldl_map)

lemma text_score_doc: "text_score r d q (d', ws) = (if d' = d then text_score r 0 q (0, ws) else 0)"
  by (simp add: text_score_def cong: if_cong)

lemma sum_doc_texts:
  "sum_list (map (text_score r d q \<circ> Pair l) wss) = (if l = d then \<Sum>ws \<leftarrow> wss. text_score r 0 q (0, ws) else 0)"
  by (induction wss) (simp_all add: text_score_doc [of r d])

lemma sum_site_texts_before: "d < l \<Longrightarrow> (\<Sum>p \<leftarrow> site_texts env n l ps. text_score r d q p) = 0"
  by (induction ps arbitrary: l) (simp_all add: doc_texts_def sum_doc_texts)

lemma sum_site_texts:
  "i < length ps \<Longrightarrow> (\<Sum>p \<leftarrow> site_texts env n l ps. text_score r (l + i) q p) = (\<Sum>ws \<leftarrow> page_words env (ps ! i) n. text_score r 0 q (0, ws))"
proof (induction ps arbitrary: l i)
  case (Cons p ps)
  show ?case
  proof (cases i)
    case 0
    then show ?thesis
      using sum_site_texts_before [of l "Suc l"] by (simp add: doc_texts_def sum_doc_texts)
  next
    case (Suc j)
    then show ?thesis
      using Cons.IH [of j "Suc l"] Cons.prems by (simp add: doc_texts_def sum_doc_texts)
  qed
qed simp

lemma site_texts_mem:
  "(d, ws) \<in> set (site_texts env n l ps) \<longleftrightarrow> (\<exists>i < length ps. d = l + i \<and> ws \<in> set (page_words env (ps ! i) n))"
proof (induction ps arbitrary: l)
  case (Cons p ps)
  have "(\<exists>i < length (p # ps). d = l + i \<and> ws \<in> set (page_words env ((p # ps) ! i) n)) \<longleftrightarrow>
      d = l \<and> ws \<in> set (page_words env p n) \<or> (\<exists>i < length ps. d = Suc l + i \<and> ws \<in> set (page_words env (ps ! i) n))"
    by (simp add: Ex_less_Suc2)
  with Cons.IH [of "Suc l"] show ?case
    by (auto simp: doc_texts_def)
qed simp

lemma sum_list_zero: "(\<And>x. x \<in> set xs \<Longrightarrow> f x = 0) \<Longrightarrow> (\<Sum>x \<leftarrow> xs. f x) = (0 :: rat)"
  by (induction xs) simp_all

lemma text_score_none: "\<not> (\<exists>w \<in> set ws. startsWith w q) \<Longrightarrow> text_score r 0 q (0, ws) = 0"
proof -
  assume "\<not> (\<exists>w \<in> set ws. startsWith w q)"
  then have "\<not> startsWith (ws ! e) q" if "e < length ws" for e
    using that nth_mem by blast
  then show "text_score r 0 q (0, ws) = 0"
    by (auto simp: text_score_def sum_list_sum_nth)
qed

lemma total_score_hits:
  assumes "\<And>n. n \<in> set ns \<Longrightarrow> \<not> H n \<Longrightarrow> S n = 0"
  shows "total_score (map (\<lambda>n. if H n then Some (S n) else None) ns) = (if list_ex H ns then Some (\<Sum>n \<leftarrow> ns. S n) else None)"
proof -
  have "(\<Sum>n \<leftarrow> ns. case if H n then Some (S n) else None of None \<Rightarrow> 0 | Some a \<Rightarrow> a) = (\<Sum>n \<leftarrow> ns. S n)"
    using assms by (intro arg_cong [of _ _ sum_list] map_cong) auto
  then show ?thesis
    by (auto simp: total_score_def o_def list_ex_iff split: if_splits)
qed

text \<open>What the index of the pages gives for a document is the score of its page.\<close>

lemma site_total:
  assumes "boost = sp_boost (site_search t)"
  shows "total_score (map (\<lambda>n. field_score (site_tokens env [] t) (boost_of boost n) None (site_texts env n (Suc 0) ps) d) site_names) =
    (if 1 \<le> d \<and> d \<le> length ps \<and> page_hit env t (ps ! (d - 1)) then Some (page_score env t (ps ! (d - 1))) else None)"
proof (cases "1 \<le> d \<and> d \<le> length ps")
  case True
  let ?p = "ps ! (d - 1)" and ?q = "site_tokens env [] t"
  let ?H = "\<lambda>n. list_ex (\<lambda>q. list_ex (list_ex (\<lambda>w. startsWith w q)) (page_words env ?p n)) ?q"
  let ?S = "\<lambda>n. field_sum (boost_of boost n) ?q (page_words env ?p n)"
  have i: "d - 1 < length ps" "d = Suc 0 + (d - 1)"
    using True by auto
  have mem: "(d, ws) \<in> set (site_texts env n (Suc 0) ps) \<longleftrightarrow> ws \<in> set (page_words env ?p n)" for ws n
    using site_texts_mem [of d ws env n "Suc 0" ps] i by auto
  have "(\<Sum>p \<leftarrow> site_texts env n (Suc 0) ps. text_score r d q p) = (\<Sum>ws \<leftarrow> page_words env ?p n. text_score r 0 q (0, ws))" for r n q
    using sum_site_texts [OF i(1), of r "Suc 0" q env n] i(2) by simp
  then have f: "field_score ?q (boost_of boost n) None (site_texts env n (Suc 0) ps) d = (if ?H n then Some (?S n) else None)" for n
    unfolding field_score_def mem by (auto simp: admits_def list_ex_iff field_sum_def)
  have "?S n = 0" if "\<not> ?H n" for n
    using that unfolding field_sum_def list_ex_iff by (intro sum_list_zero text_score_none) blast
  then show ?thesis
    unfolding f using total_score_hits [of site_names ?H ?S] True assms
    by (simp add: page_hit_def page_score_def)
next
  case False
  have "field_score q r None (site_texts env n (Suc 0) ps) d = None" for q r n
    using False by (auto simp: field_score_def site_texts_mem)
  then show ?thesis
    using False by (auto simp: total_score_def)
qed

subsection \<open>Insertion of a page\<close>

text \<open>The prefix index of text fields: every field holds its texts, and the cache of the tokenizer is sound.\<close>

definition text_index :: "engine_env \<Rightarrow> jsstring list \<Rightarrow> (jsstring \<Rightarrow> (nat \<times> jsstring list) list) \<Rightarrow> db \<Rightarrow> bool" where
  "text_index env ns ps e =
     (db_component e = IndexPT15 \<and> cache_ok (db_tokenizer e) \<and> same_settings default_tokenizer (db_tokenizer e) \<and>
      (\<forall>n \<in> set ns. 58 \<notin> set n \<and> is_text (property_type (searchablePropertiesWithTypes (db_index e)) n) \<and>
         node_of (db_index e) n = Some (NPosition (position_of (ps n)))))"

lemma each_string_run:
  assumes "58 \<notin> set n"
  shows "cache_ok tk \<Longrightarrow> same_settings tk0 tk \<Longrightarrow>
    \<exists>tk'. each_string (insertString seps None n d) vs (tk, u) =
        Inr (tk', foldl (\<lambda>t ws. position_insert ws d t) u
          (map (fresh_tokens seps tk0 n) (concat (map (\<lambda>x. case x of JStr s \<Rightarrow> [s] | _ \<Rightarrow> []) vs)))) \<and>
      cache_ok tk' \<and> same_settings tk0 tk'"
proof (induction vs arbitrary: tk u)
  case (Cons v vs)
  show ?case
  proof (cases "\<exists>s. v = JStr s")
    case True
    then obtain s where v: "v = JStr s"
      by blast
    obtain tk1 where 1: "tokenize seps tk s None (Some n) True = Inr (tk1, fresh_tokens seps tk n s)" "cache_ok tk1" "same_settings tk tk1"
      using tokenize_fresh [OF Cons.prems(1), of "Some n" None seps s True] assms by auto
    have "insertString seps None n d s (tk, u) = Inr (tk1, position_insert (fresh_tokens seps tk0 n s) d u)"
      by (simp add: insertString_def 1(1) fresh_tokens_settings [OF Cons.prems(2)])
    with Cons.IH [OF 1(2) same_settings_trans [OF Cons.prems(2) 1(3)]] v show ?thesis
      by simp
  next
    case False
    with Cons show ?thesis
      by (cases v) simp_all
  qed
qed auto

lemma put_node_some: "node_of t n = Some x \<Longrightarrow> \<exists>m. put_node n y t = t\<lparr>indexes := m\<rparr> \<and> (\<forall>k. node_of (t\<lparr>indexes := m\<rparr>) k = (if k = n then Some y else node_of t k))"
  by (auto simp: node_of_def put_node_def)

lemma component_insert_text:
  assumes "text_index env ns ps e" "n \<in> set ns" "io_language io = None"
  shows "\<exists>tk m. component_insert env io cnt n l v e = Inr (e\<lparr>db_tokenizer := tk, db_index := (db_index e)\<lparr>indexes := m\<rparr>\<rparr>) \<and>
    text_index env ns (ps(n := ps n @ map (\<lambda>s. (l, site_tokens env n s)) (strings v)))
      (e\<lparr>db_tokenizer := tk, db_index := (db_index e)\<lparr>indexes := m\<rparr>\<rparr>)"
proof -
  let ?u = "position_of (ps n)"
  let ?ws = "map (site_tokens env n) (strings v)"
  have n: "58 \<notin> set n" "is_text (property_type (searchablePropertiesWithTypes (db_index e)) n)" "node_of (db_index e) n = Some (NPosition ?u)"
    using assms(1,2) by (auto simp: text_index_def)
  have tk: "cache_ok (db_tokenizer e)" "same_settings default_tokenizer (db_tokenizer e)" "db_component e = IndexPT15"
    using assms(1) by (auto simp: text_index_def)
  obtain tk' where 1: "each_string (insertString (ev_seps env) None n l) (texts v) (db_tokenizer e, ?u) =
      Inr (tk', foldl (\<lambda>t ws. position_insert ws l t) ?u ?ws)" "cache_ok tk'" "same_settings default_tokenizer tk'"
    using each_string_run [OF n(1) tk(1,2)] unfolding strings_def site_tokens_def [abs_def] by blast
  have pos: "foldl (\<lambda>t ws. position_insert ws l t) ?u ?ws = position_of (ps n @ map (\<lambda>s. (l, site_tokens env n s)) (strings v))"
    using position_of_append [of "ps n" l ?ws] by (simp add: o_def)
  obtain m where m: "put_node n (NPosition (position_of (ps n @ map (\<lambda>s. (l, site_tokens env n s)) (strings v)))) (db_index e) = (db_index e)\<lparr>indexes := m\<rparr>"
    "\<And>k. node_of ((db_index e)\<lparr>indexes := m\<rparr>) k =
      (if k = n then Some (NPosition (position_of (ps n @ map (\<lambda>s. (l, site_tokens env n s)) (strings v)))) else node_of (db_index e) k)"
    using put_node_some [OF n(3)] by blast
  have "component_insert env io cnt n l v e = Inr (e\<lparr>db_tokenizer := tk', db_index := (db_index e)\<lparr>indexes := m\<rparr>\<rparr>)"
    using n(2,3) tk(3) 1(1) m(1) assms(3) by (simp add: component_insert_def Let_def pt15_insert_def on_position_def need_def pos)
  moreover have "text_index env ns (ps(n := ps n @ map (\<lambda>s. (l, site_tokens env n s)) (strings v)))
      (e\<lparr>db_tokenizer := tk', db_index := (db_index e)\<lparr>indexes := m\<rparr>\<rparr>)"
    using assms(1) 1(2,3) m(2) by (auto simp: text_index_def)
  ultimately show ?thesis
    by blast
qed

text \<open>The texts a document adds to a field.\<close>

definition added_texts :: "engine_env \<Rightarrow> nat \<Rightarrow> (jsstring, jsval) jsmap \<Rightarrow> jsstring \<Rightarrow> (nat \<times> jsstring list) list" where
  "added_texts env l r n = (case map_get r n of None \<Rightarrow> [] | Some v \<Rightarrow> map (\<lambda>s. (l, site_tokens env n s)) (strings v))"

lemma index_fields_texts:
  assumes "io_language io = None"
  shows "text_index env ns ps e \<Longrightarrow> set is \<subseteq> set ns \<Longrightarrow> distinct is \<Longrightarrow> knows e t l \<Longrightarrow>
    \<exists>tk m. index_fields env io cnt t r is e = (e\<lparr>db_tokenizer := tk, db_index := (db_index e)\<lparr>indexes := m\<rparr>\<rparr>, Inr ()) \<and>
      text_index env ns (\<lambda>n. if n \<in> set is then ps n @ added_texts env l r n else ps n)
        (e\<lparr>db_tokenizer := tk, db_index := (db_index e)\<lparr>indexes := m\<rparr>\<rparr>)"
proof (induction "is" arbitrary: e ps)
  case Nil
  then show ?case
    by (intro exI [of _ "db_tokenizer e"] exI [of _ "indexes (db_index e)"]) simp
next
  case (Cons i "is")
  show ?case
  proof (cases "map_get r i")
    case None
    have same: "(\<lambda>n. if n \<in> set (i # is) then ps n @ added_texts env l r n else ps n) =
        (\<lambda>n. if n \<in> set is then ps n @ added_texts env l r n else ps n)"
      using None by (auto simp: added_texts_def)
    from Cons None show ?thesis
      unfolding same by simp
  next
    case (Some v)
    obtain tk m where 1: "component_insert env io cnt i l v e = Inr (e\<lparr>db_tokenizer := tk, db_index := (db_index e)\<lparr>indexes := m\<rparr>\<rparr>)"
      "text_index env ns (ps(i := ps i @ map (\<lambda>s. (l, site_tokens env i s)) (strings v)))
        (e\<lparr>db_tokenizer := tk, db_index := (db_index e)\<lparr>indexes := m\<rparr>\<rparr>)"
      using component_insert_text [OF Cons.prems(1) _ assms] Cons.prems(2) by (meson list.set_intros(1) subsetD)
    let ?e = "e\<lparr>db_tokenizer := tk, db_index := (db_index e)\<lparr>indexes := m\<rparr>\<rparr>"
    have k: "knows ?e t l"
      using Cons.prems(4) by (simp add: knows_def)
    have run: "index_fields env io cnt t r (i # is) e = index_fields env io cnt t r is ?e"
      using Some 1(1) knows_get(1) [OF Cons.prems(4)] by simp
    have same: "(\<lambda>n. if n \<in> set (i # is) then ps n @ added_texts env l r n else ps n) =
        (\<lambda>n. if n \<in> set is then (ps(i := ps i @ map (\<lambda>s. (l, site_tokens env i s)) (strings v))) n @ added_texts env l r n
          else (ps(i := ps i @ map (\<lambda>s. (l, site_tokens env i s)) (strings v))) n)"
      using Some Cons.prems(3) by (auto simp: added_texts_def fun_eq_iff)
    show ?thesis
      unfolding run same using Cons.IH [OF 1(2) _ _ k] Cons.prems(2,3) by fastforce
  qed
qed

subsection \<open>The values of a page\<close>

lemma site_names_simps:
  "site_names = [js ''title'', js ''content'', js ''uri'', js ''breadcrumb'', js ''description'', js ''tags'']"
  "map fst site_types = site_names" "distinct site_names" "set site_sortables \<subseteq> set site_names"
  by code_simp+

lemma site_names_plain: "n \<in> set site_names \<Longrightarrow> 58 \<notin> set n \<and> js_split_on dot [] n = [n] \<and> is_text (property_type site_types n)"
proof -
  have "list_all (\<lambda>n. 58 \<notin> set n \<and> js_split_on dot [] n = [n] \<and> is_text (property_type site_types n)) site_names"
    by code_simp
  then show "n \<in> set site_names \<Longrightarrow> 58 \<notin> set n \<and> js_split_on dot [] n = [n] \<and> is_text (property_type site_types n)"
    by (simp add: list_all_iff)
qed

lemma page_ok_value:
  assumes "page_ok p" "n \<in> set site_names"
  shows "js_prop p n = Inr (field p n)" "value_ok (property_type site_types n) (field p n)"
proof -
  obtain kvs where p: "p = JObj kvs"
    using assms(1) by (auto simp: page_ok_def split: jsval.splits)
  then show "js_prop p n = Inr (field p n)"
    by (simp add: field_def js_prop_def)
  obtain ty where ty: "(n, ty) \<in> set site_types"
    using assms(2) site_names_simps(2) by (metis (no_types, lifting) imageE list.set_map prod.collapse)
  then have "property_type site_types n = ty"
    using site_names_simps(2,3) by (simp add: property_type_def map_of_is_SomeI)
  with ty assms(1) p show "value_ok (property_type site_types n) (field p n)"
    by (auto simp: page_ok_def list_all_iff)
qed

lemma value_ok_cases:
  assumes "value_ok ty v" "is_text ty"
  obtains "v = JUndef" | s where "v = JStr s" "ty = js ''string''" | xs where "v = JArr xs" "list_all is_str xs" "ty = js ''string[]''"
  using assms by (auto simp: value_ok_def is_text_def is_str_def split: if_splits jsval.splits)

lemma text_types: "\<not> isVectorType (js ''string'')" "\<not> isVectorType (js ''string[]'')" "isArrayType (js ''string[]'')" "\<not> isArrayType (js ''string'')"
    "getInnerType (js ''string[]'') = Some (js ''string'')" "js ''string'' \<noteq> js ''geopoint''" "js ''string'' \<noteq> js ''enum''"
    "js ''string[]'' \<noteq> js ''geopoint''" "js ''string[]'' \<noteq> js ''enum''" "js ''string[]'' \<noteq> js ''enum[]''"
  by code_simp+

lemma is_str_typeof: "is_str v \<Longrightarrow> js_typeof v = js ''string''"
  by (cases v) (simp_all add: is_str_def)

lemma validate_name_text:
  assumes "value_ok ty v" "is_text ty"
  shows "validate_name v n ty = Inr None"
  using assms
proof (cases rule: value_ok_cases)
  case (3 xs)
  then have "find (\<lambda>(i, x). \<not> Some (js_typeof x) = Some (js ''string'')) (enumerate 0 xs) = None"
    by (auto simp: find_None_iff list_all_iff in_set_enumerate_eq is_str_typeof)
  with 3 show ?thesis
    by (simp add: validate_name_def scalar_accepted_def text_types first_bad_def)
qed (simp_all add: validate_name_def scalar_accepted_def text_types)

lemma check_property_text:
  assumes "value_ok ty v" "is_text ty" "v \<noteq> JUndef"
  shows "check_property ty v = Inr ()"
  using assms(1,2) by (cases rule: value_ok_cases) (use assms(3) in \<open>simp_all add: check_property_def text_types is_array_def\<close>)

lemma validateSchema_texts:
  "(\<And>n ty. (n, TyName ty) \<in> set kvs \<Longrightarrow> \<exists>v. js_prop p n = Inr v \<and> value_ok ty v \<and> is_text ty) \<Longrightarrow>
   \<forall>x \<in> set kvs. \<exists>n ty. x = (n, TyName ty) \<Longrightarrow> validateSchema p kvs = Inr None"
proof (induction kvs)
  case (Cons x kvs)
  then obtain n ty where x: "x = (n, TyName ty)"
    by auto
  with Cons.prems(1) [of n ty] obtain v where "js_prop p n = Inr v" "value_ok ty v" "is_text ty"
    by auto
  with Cons x show ?case
    by (simp add: validate_name_text)
qed simp

lemma site_schema_types: "site_schema = map (\<lambda>(n, ty). (n, TyName ty)) site_types"
  by code_simp

lemma page_validates: "page_ok p \<Longrightarrow> validateSchema p site_schema = Inr None"
proof (rule validateSchema_texts)
  fix n ty
  assume p: "page_ok p" and "(n, TyName ty) \<in> set site_schema"
  then have t: "(n, ty) \<in> set site_types"
    by (auto simp: site_schema_types)
  then have n: "n \<in> set site_names"
    using site_names_simps(2) by (metis fst_conv image_eqI list.set_map)
  moreover have "property_type site_types n = ty"
    using t site_names_simps(2,3) by (simp add: property_type_def map_of_is_SomeI)
  ultimately show "\<exists>v. js_prop p n = Inr v \<and> value_ok ty v \<and> is_text ty"
    using page_ok_value [OF p n] site_names_plain [OF n] by auto
qed (auto simp: site_schema_types)

definition present :: "jsval \<Rightarrow> jsstring list \<Rightarrow> (jsstring, jsval) jsmap \<Rightarrow> (jsstring, jsval) jsmap" where
  "present p ns m = foldl (\<lambda>m n. if field p n \<noteq> JUndef then map_set n (field p n) m else m) m ns"

lemma page_walk:
  assumes "page_ok p" "n \<in> set site_names"
  shows "property_walk p (js_split_on dot [] n) = Inr (field p n)"
proof -
  have t: "js_split_on dot [] n = [n]" "is_text (property_type site_types n)"
    using site_names_plain [OF assms(2)] by auto
  show ?thesis
    using page_ok_value(2) [OF assms] t(2)
    by (cases rule: value_ok_cases) (simp_all add: t(1) page_ok_value(1) [OF assms] is_object_def is_geopoint_def is_array_def)
qed

lemma page_properties:
  "page_ok p \<Longrightarrow> set ns \<subseteq> set site_names \<Longrightarrow> getDocumentProperties p ns m = Inr (present p ns m)"
proof (induction ns arbitrary: m)
  case (Cons n ns)
  then show ?case
    by (simp add: page_walk present_def)
qed (simp add: present_def)

lemma present_get: "map_get (present p ns m) n = (if n \<in> set ns \<and> field p n \<noteq> JUndef then Some (field p n) else map_get m n)"
  unfolding present_def by (induction ns arbitrary: m) auto

lemma present_wf: "wf_map m \<Longrightarrow> wf_map (present p ns m)"
  unfolding present_def by (induction ns arbitrary: m) simp_all

lemma check_properties_ok:
  "(\<And>n v. (n, v) \<in> set d \<Longrightarrow> v \<noteq> JUndef \<Longrightarrow> check_property (property_type f n) v = Inr ()) \<Longrightarrow> check_properties f d = Inr ()"
  by (induction d) auto

lemma page_checked:
  assumes "page_ok p"
  shows "check_properties site_types (present p site_names []) = Inr ()"
proof (rule check_properties_ok)
  fix n v
  assume n: "(n, v) \<in> set (present p site_names [])" and v: "v \<noteq> JUndef"
  have "map_get (present p site_names []) n = Some v"
    using n present_wf [OF wf_map_Nil, of p site_names] by (simp add: wf_map_def map_of_is_SomeI)
  then have "v = field p n" "n \<in> set site_names"
    by (auto simp: present_get split: if_splits)
  with v page_ok_value(2) [OF assms] site_names_plain check_property_text show "check_property (property_type site_types n) v = Inr ()"
    by blast
qed

subsection \<open>The database of the pages\<close>

definition sorter_ready :: "sorter \<Rightarrow> bool" where
  "sorter_ready so =
     (so_enabled so \<and> sortableProperties so = site_sortables \<and> list_all (\<lambda>n. map_get (sorts so) n \<noteq> None) site_sortables)"

text \<open>The ids of the pages are the unique ids from \<open>u\<close> on.\<close>

definition site_db :: "engine_env \<Rightarrow> jsval list \<Rightarrow> db \<Rightarrow> bool" where
  "site_db env ps e =
     (db_ok e \<and> text_index env site_names (\<lambda>n. site_texts env n (Suc 0) ps) e \<and>
      db_schema e = site_schema \<and> db_hooks e = map (\<lambda>h. (h, [])) hook_names \<and>
      searchableProperties (db_index e) = site_names \<and> searchablePropertiesWithTypes (db_index e) = site_types \<and>
      vectorIndexes (db_index e) = [] \<and> sorter_ready (db_sorting e) \<and>
      (\<exists>u. u \<le> db_uid e \<and> length ps = db_uid e - u \<and>
         internalIdToId (db_ids e) = map (\<lambda>k. snd (uniqueId (ev_prefix env) k)) [u..<db_uid e]) \<and>
      (\<forall>l. map_get (docs (db_docs e)) l = (if 1 \<le> l \<and> l \<le> length ps then Some (ps ! (l - 1)) else None)) \<and>
      (db_propertiesToSearch e = None \<or> db_propertiesToSearch e = Some site_names))"

lemma no_hooks: "db_hooks e = map (\<lambda>h. (h, [])) hook_names \<Longrightarrow> hooks_of e t = []"
  by (auto simp: hooks_of_def split: option.split dest!: map_of_SomeD)

lemma sort_fields_run:
  "so_enabled (db_sorting e) \<Longrightarrow> list_all (\<lambda>n. map_get (sorts (db_sorting e)) n \<noteq> None) ns \<Longrightarrow> knows e t l \<Longrightarrow>
   \<exists>b m. sort_fields t vs ns e = (e\<lparr>db_sorting := (db_sorting e)\<lparr>so_isSorted := b, sorts := m\<rparr>\<rparr>, Inr ()) \<and>
     (\<forall>n. map_get (sorts (db_sorting e)) n \<noteq> None \<longrightarrow> map_get m n \<noteq> None)"
proof (induction ns arbitrary: e)
  case Nil
  show ?case
    by (intro exI [of _ "so_isSorted (db_sorting e)"] exI [of _ "sorts (db_sorting e)"]) simp
next
  case (Cons n ns)
  show ?case
  proof (cases "map_get vs n")
    case None
    with Cons show ?thesis
      by simp
  next
    case (Some v)
    obtain s where s: "map_get (sorts (db_sorting e)) n = Some s"
      using Cons.prems(2) by auto
    let ?m = "map_set n (entry_insert l v s) (sorts (db_sorting e))"
    let ?e = "e\<lparr>db_sorting := (db_sorting e)\<lparr>so_isSorted := False, sorts := ?m\<rparr>\<rparr>"
    have run: "sort_fields t vs (n # ns) e = sort_fields t vs ns ?e"
      using Some s Cons.prems(1) knows_get(1) [OF Cons.prems(3)] by (simp add: sorter_insert_def Let_def)
    have "list_all (\<lambda>n. map_get ?m n \<noteq> None) ns" "knows ?e t l"
      using Cons.prems(2,3) by (auto simp: list_all_iff knows_def)
    with Cons.IH [of ?e] Cons.prems(1) obtain b m where bm: "sort_fields t vs ns ?e = (?e\<lparr>db_sorting := (db_sorting ?e)\<lparr>so_isSorted := b, sorts := m\<rparr>\<rparr>, Inr ())"
      "\<forall>k. map_get ?m k \<noteq> None \<longrightarrow> map_get m k \<noteq> None"
      by auto
    show ?thesis
      unfolding run bm(1) using bm(2) by (intro exI [of _ b] exI [of _ m]) simp
  qed
qed

lemma sort_page:
  assumes "sorter_ready (db_sorting e)" "page_ok p" "knows e a l"
  shows "\<exists>so. sort_document a p e = (e\<lparr>db_sorting := so\<rparr>, Inr ()) \<and> sorter_ready so"
proof -
  have ready: "so_enabled (db_sorting e)" "list_all (\<lambda>n. map_get (sorts (db_sorting e)) n \<noteq> None) site_sortables"
      "getSortableProperties (db_sorting e) = site_sortables"
    using assms(1) by (simp_all add: sorter_ready_def getSortableProperties_def)
  have vs: "getDocumentProperties p site_sortables [] = Inr (present p site_sortables [])"
    using page_properties [OF assms(2) site_names_simps(4)] .
  from sort_fields_run [OF ready(1,2) assms(3), of "present p site_sortables []"] obtain b m
    where bm: "sort_fields a (present p site_sortables []) site_sortables e = (e\<lparr>db_sorting := (db_sorting e)\<lparr>so_isSorted := b, sorts := m\<rparr>\<rparr>, Inr ())"
      "\<forall>n. map_get (sorts (db_sorting e)) n \<noteq> None \<longrightarrow> map_get m n \<noteq> None"
    by blast
  have "sorter_ready ((db_sorting e)\<lparr>so_isSorted := b, sorts := m\<rparr>)"
    using assms(1) bm(2) by (simp add: sorter_ready_def list_all_iff)
  with bm(1) show ?thesis
    by (auto simp: sort_document_def ready(3) vs Let_def)
qed

lemma track_fields: "trackInsertion e = e\<lparr>db_log := db_log (trackInsertion e), db_insertions := db_insertions (trackInsertion e)\<rparr>"
  by (simp add: trackInsertion_def Let_def)

text \<open>The document store after a page with a new unique id.\<close>

lemma store_page:
  assumes "site_db env ps e" "page_ok p"
  defines "a \<equiv> snd (uniqueId (ev_prefix env) (db_uid e))"
  shows "\<exists>ids. store_document env p e =
      (e\<lparr>db_uid := db_uid e + 1, db_ids := ids,
         db_docs := \<lparr>docs = map_set (Suc (length ps)) p (docs (db_docs e)), doc_count = doc_count (db_docs e) + 1\<rparr>\<rparr>, Inr a) \<and>
    internalIdToId ids = internalIdToId (db_ids e) @ [a]"
proof -
  obtain u where u: "u \<le> db_uid e" "length ps = db_uid e - u"
      "internalIdToId (db_ids e) = map (\<lambda>k. snd (uniqueId (ev_prefix env) k)) [u..<db_uid e]"
    using assms(1) by (auto simp: site_db_def)
  have len: "length (internalIdToId (db_ids e)) = length ps"
    by (simp add: u)
  have "a \<notin> set (internalIdToId (db_ids e))"
    using uniqueId_fresh by (auto simp: u(3) a_def)
  from getInternalId_string_new [OF _ this] obtain ids where ids: "getInternalId_string (db_ids e) a = (ids, Suc (length ps))"
      "internalIdToId ids = internalIdToId (db_ids e) @ [a]"
    using assms(1) len by (auto simp: site_db_def db_ok_def)
  obtain kvs where kvs: "p = JObj kvs" "map_get kvs (js ''id'') = None"
    using assms(2) by (auto simp: page_ok_def split: jsval.splits)
  have "getDocumentIndexId (ev_prefix env) (db_uid e) p = Inr (db_uid e + 1, a)"
    by (simp add: getDocumentIndexId_def js_prop_def kvs js_truthy_def a_def uniqueId_def)
  moreover have "map_get (docs (db_docs e)) (Suc (length ps)) = None"
    using assms(1) by (simp add: site_db_def)
  ultimately show ?thesis
    using ids by (auto simp: store_document_def docs_put_def)
qed

lemma hook_none: "hooks_of e t = [] \<Longrightarrow> hook_unless skip t a e = e"
  by (simp add: hook_unless_def runSingleHook_def)

lemma text_index_cong: "text_index env ns f e \<Longrightarrow> (\<And>n. n \<in> set ns \<Longrightarrow> f n = g n) \<Longrightarrow> text_index env ns g e"
  by (simp add: text_index_def)

lemma page_texts:
  assumes "n \<in> set site_names"
  shows "site_texts env n (Suc 0) ps @ added_texts env (Suc (length ps)) (present p site_names []) n = site_texts env n (Suc 0) (ps @ [p])"
  using assms by (auto simp: site_texts_snoc doc_texts_def added_texts_def page_words_def present_get o_def strings_def texts_def)

text \<open>Everything an insertion does after the document is stored.\<close>

lemma index_page:
  assumes "text_index env site_names (\<lambda>n. site_texts env n (Suc 0) ps) e" "knows e a (Suc (length ps))" "page_ok p" "io_language io = None"
    and "searchableProperties (db_index e) = site_names" "searchablePropertiesWithTypes (db_index e) = site_types"
    and "sorter_ready (db_sorting e)" "db_hooks e = map (\<lambda>h. (h, [])) hook_names" "store_document env p f = (e, Inr a)"
  shows "\<exists>tk m so g h. insert_sync env io p f =
      (e\<lparr>db_tokenizer := tk, db_index := (db_index e)\<lparr>indexes := m\<rparr>, db_sorting := so, db_log := g, db_insertions := h\<rparr>, Inr a) \<and>
    text_index env site_names (\<lambda>n. site_texts env n (Suc 0) (ps @ [p]))
      (e\<lparr>db_tokenizer := tk, db_index := (db_index e)\<lparr>indexes := m\<rparr>, db_sorting := so, db_log := g, db_insertions := h\<rparr>) \<and> sorter_ready so"
proof -
  let ?d = "present p site_names []"
  have d: "document_values p e = Inr ?d"
    using page_properties [OF assms(3), of site_names "[]"] page_checked [OF assms(3)] assms(5,6) by (simp add: document_values_def)
  obtain tk m where 1: "index_fields env io (docs_count (db_docs e)) a ?d site_names e = (e\<lparr>db_tokenizer := tk, db_index := (db_index e)\<lparr>indexes := m\<rparr>\<rparr>, Inr ())"
    "text_index env site_names (\<lambda>n. if n \<in> set site_names then site_texts env n (Suc 0) ps @ added_texts env (Suc (length ps)) ?d n else site_texts env n (Suc 0) ps)
      (e\<lparr>db_tokenizer := tk, db_index := (db_index e)\<lparr>indexes := m\<rparr>\<rparr>)"
    using index_fields_texts [OF assms(4,1) subset_refl site_names_simps(3) assms(2)] by blast
  let ?e1 = "e\<lparr>db_tokenizer := tk, db_index := (db_index e)\<lparr>indexes := m\<rparr>\<rparr>"
  have "sorter_ready (db_sorting ?e1)" "knows ?e1 a (Suc (length ps))"
    using assms(2,7) by (simp_all add: knows_def)
  from sort_page [OF this(1) assms(3) this(2)] obtain so where 2: "sort_document a p ?e1 = (?e1\<lparr>db_sorting := so\<rparr>, Inr ())" "sorter_ready so"
    by blast
  let ?e2 = "?e1\<lparr>db_sorting := so\<rparr>"
  have h: "hook_unless k t a e = e" "hook_unless k t a ?e2 = ?e2" for k t
    using assms(8) by (simp_all add: hook_none no_hooks)
  have run: "insert_sync env io p f = (trackInsertion ?e2, Inr a)"
    by (simp add: insert_sync_def and_then_def assms(5,9) Let_def d 1(1) 2(1) h)
  have t: "text_index env site_names (\<lambda>n. site_texts env n (Suc 0) (ps @ [p])) ?e1"
    by (rule text_index_cong [OF 1(2)]) (simp add: page_texts)
  show ?thesis
    using 2(2) t unfolding run
    by (subst track_fields, intro exI [of _ tk] exI [of _ m] exI [of _ so] exI [of _ "db_log (trackInsertion ?e2)"]
      exI [of _ "db_insertions (trackInsertion ?e2)"]) (simp add: text_index_def)
qed

lemma insert_page:
  assumes "site_db env ps e" "page_ok p" "io_language io = None"
  shows "\<exists>e' a. insert_doc env io p e = (e', Inr a) \<and> site_db env (ps @ [p]) e'"
proof -
  let ?a = "snd (uniqueId (ev_prefix env) (db_uid e))"
  let ?l = "Suc (length ps)"
  let ?ds = "\<lparr>docs = map_set ?l p (docs (db_docs e)), doc_count = doc_count (db_docs e) + 1\<rparr>"
  have inv: "db_ok e" "text_index env site_names (\<lambda>n. site_texts env n (Suc 0) ps) e" "db_schema e = site_schema"
      "db_hooks e = map (\<lambda>h. (h, [])) hook_names" "searchableProperties (db_index e) = site_names"
      "searchablePropertiesWithTypes (db_index e) = site_types" "vectorIndexes (db_index e) = []" "sorter_ready (db_sorting e)"
      "\<And>l. map_get (docs (db_docs e)) l = (if 1 \<le> l \<and> l \<le> length ps then Some (ps ! (l - 1)) else None)"
      "db_propertiesToSearch e = None \<or> db_propertiesToSearch e = Some site_names"
    using assms(1) by (simp_all add: site_db_def)
  obtain u where u: "u \<le> db_uid e" "length ps = db_uid e - u"
      "internalIdToId (db_ids e) = map (\<lambda>k. snd (uniqueId (ev_prefix env) k)) [u..<db_uid e]"
    using assms(1) by (auto simp: site_db_def)
  obtain ids where st: "store_document env p e = (e\<lparr>db_uid := db_uid e + 1, db_ids := ids, db_docs := ?ds\<rparr>, Inr ?a)"
      "internalIdToId ids = internalIdToId (db_ids e) @ [?a]"
    using store_page [OF assms(1,2)] by blast
  let ?e1 = "e\<lparr>db_uid := db_uid e + 1, db_ids := ids, db_docs := ?ds\<rparr>"
  have ok: "db_ok ?e1"
    by (rule store_document_stored(2) [OF inv(1) st(1)])
  have k: "knows ?e1 ?a ?l"
    using ok u st(2) by (simp add: knows_def db_ok_def extern_id_Some nth_append)
  have t: "text_index env site_names (\<lambda>n. site_texts env n (Suc 0) ps) ?e1"
    using inv(2) by (simp add: text_index_def)
  have inv1: "searchableProperties (db_index ?e1) = site_names" "searchablePropertiesWithTypes (db_index ?e1) = site_types"
      "sorter_ready (db_sorting ?e1)" "db_hooks ?e1 = map (\<lambda>h. (h, [])) hook_names"
    by (simp_all add: inv)
  from index_page [OF t k assms(2,3) inv1 st(1)] obtain tk m so g h
    where run: "insert_sync env io p e = (?e1\<lparr>db_tokenizer := tk, db_index := (db_index ?e1)\<lparr>indexes := m\<rparr>, db_sorting := so, db_log := g, db_insertions := h\<rparr>, Inr ?a)"
      and t2: "text_index env site_names (\<lambda>n. site_texts env n (Suc 0) (ps @ [p]))
        (?e1\<lparr>db_tokenizer := tk, db_index := (db_index ?e1)\<lparr>indexes := m\<rparr>, db_sorting := so, db_log := g, db_insertions := h\<rparr>)"
      and so: "sorter_ready so"
    by blast
  let ?e2 = "?e1\<lparr>db_tokenizer := tk, db_index := (db_index ?e1)\<lparr>indexes := m\<rparr>, db_sorting := so, db_log := g, db_insertions := h\<rparr>"
  have "insert_doc env io p e = (?e2, Inr ?a)"
    using insert_doc_valid [OF inv(1), of p None] page_validates [OF assms(2)] inv(3) run by simp
  moreover have "db_ok ?e2"
    using ok by (simp add: db_ok_def)
  moreover have "internalIdToId ids = map (\<lambda>k. snd (uniqueId (ev_prefix env) k)) [u..<db_uid e + 1]" "length (ps @ [p]) = db_uid e + 1 - u"
    using st(2) u by simp_all
  moreover have "map_get (docs ?ds) l = (if 1 \<le> l \<and> l \<le> length (ps @ [p]) then Some ((ps @ [p]) ! (l - 1)) else None)" for l
    using inv(9) [of l] by (auto simp: nth_append)
  ultimately have "site_db env (ps @ [p]) ?e2"
    using t2 so inv(3-7,10) u(1) unfolding site_db_def by (intro conjI) (auto intro: exI [of _ u])
  with \<open>insert_doc env io p e = (?e2, Inr ?a)\<close> show ?thesis
    by blast
qed

subsection \<open>Insertion of all pages\<close>

lemma insert_pages:
  "site_db env ps e \<Longrightarrow> list_all page_ok qs \<Longrightarrow> io_language io = None \<Longrightarrow>
   \<exists>e' as. insert_list env io qs e = (e', Inr as) \<and> length as = length qs \<and> site_db env (ps @ qs) e'"
proof (induction qs arbitrary: ps e)
  case (Cons q qs)
  have "page_ok q"
    using Cons.prems(2) by simp
  then obtain e1 a where 1: "insert_doc env io q e = (e1, Inr a)" "site_db env (ps @ [q]) e1"
    using insert_page [OF Cons.prems(1) _ Cons.prems(3)] by blast
  from Cons.IH [OF 1(2)] Cons.prems(2,3) obtain e2 as where "insert_list env io qs e1 = (e2, Inr as)" "length as = length qs"
      "site_db env (ps @ q # qs) e2"
    by auto
  with 1(1) show ?case
    by (simp add: and_then_def)
qed simp

lemma insert_page_batches:
  "0 < n \<Longrightarrow> site_db env (take (a * n) t) e \<Longrightarrow> list_all page_ok t \<Longrightarrow> io_language io = None \<Longrightarrow>
   \<exists>e' as. sync_batches env io n t a i e = (e', Inr (i @ as)) \<and> length as = length (drop (a * n) t) \<and> site_db env t e'"
proof (induction env io n t a i e rule: sync_batches.induct)
  case (1 env io n t a i e)
  let ?c = "take n (drop (a * n) t)"
  show ?case
  proof (cases "?c = []")
    case True
    then have "length t \<le> a * n"
      using 1(2) by simp
    with 1(3) True show ?thesis
      by (subst sync_batches.simps) simp
  next
    case False
    have "list_all page_ok ?c"
      using 1(4) by (auto simp: list_all_iff dest: in_set_takeD in_set_dropD)
    from insert_pages [OF 1(3) this, of "io\<lparr>io_threshold := Some (length ?c)\<rparr>"] 1(5) obtain e1 as
      where e1: "insert_list env (io\<lparr>io_threshold := Some (length ?c)\<rparr>) ?c e = (e1, Inr as)" "length as = length ?c"
        "site_db env (take (a * n) t @ ?c) e1"
      by auto
    have run: "insert_batch env io t (a * n) ((a + 1) * n) e = (e1, Inr as)"
      using e1(1) by (simp add: insert_batch_def Let_def)
    have "site_db env (take ((a + 1) * n) t) e1"
      using e1(3) by (simp add: take_add [symmetric] add.commute)
    from 1(1) [OF False 1(2) this 1(4,5)] obtain e2 bs where 2: "sync_batches env io n t (a + 1) (i @ as) e1 = (e2, Inr ((i @ as) @ bs))"
        "length bs = length (drop ((a + 1) * n) t)" "site_db env t e2"
      by blast
    have "length (as @ bs) = length (drop (a * n) t)"
      using 2(2) e1(2) by simp
    moreover have "sync_batches env io n t a i e = (e2, Inr (i @ as @ bs))"
      using False run 2(1) by (subst sync_batches.simps) (simp add: and_then_def)
    ultimately show ?thesis
      using 2(3) by blast
  qed
qed

lemma position_node: "(case x of Some (NPosition u) \<Rightarrow> u = v | _ \<Rightarrow> False) \<longleftrightarrow> x = Some (NPosition v)"
  by (auto split: option.split node.split)

lemma site_index:
  obtains ix so where "component_create IndexPT15 site_schema = Inr ix" "sorter_create (js ''english'') site_schema None = Inr so"
    "searchableProperties ix = site_names" "searchablePropertiesWithTypes ix = site_types" "vectorIndexes ix = []"
    "list_all (\<lambda>n. node_of ix n = Some (NPosition position_empty)) site_names" "sorter_ready so"
proof -
  have "case component_create IndexPT15 site_schema of
      Inr ix \<Rightarrow> searchableProperties ix = site_names \<and> searchablePropertiesWithTypes ix = site_types \<and> map_keys (vectorIndexes ix) = [] \<and>
        list_all (\<lambda>n. case node_of ix n of Some (NPosition u) \<Rightarrow> u = position_empty | _ \<Rightarrow> False) site_names
    | Inl x \<Rightarrow> False"
    by code_simp
  moreover have "case sorter_create (js ''english'') site_schema None of Inr so \<Rightarrow> sorter_ready so | Inl x \<Rightarrow> False"
    by code_simp
  ultimately show ?thesis
    using that unfolding position_node by (auto simp: map_keys_def split: sum.splits)
qed

lemma site_created:
  assumes "js ''english'' \<in> set (ev_languages env)"
  shows "\<exists>e. create_db env site_options uid = Inr e \<and> site_db env [] e"
proof -
  obtain ix so where ix: "component_create IndexPT15 site_schema = Inr ix" "sorter_create (js ''english'') site_schema None = Inr so"
    "searchableProperties ix = site_names" "searchablePropertiesWithTypes ix = site_types" "vectorIndexes ix = []"
    "list_all (\<lambda>n. node_of ix n = Some (NPosition position_empty)) site_names" "sorter_ready so"
    by (rule site_index)
  have tk: "createTokenizer (ev_languages env) (default_config\<lparr>cf_language := Some (js ''english'')\<rparr>) = Inr default_tokenizer"
    using assms by (simp add: createTokenizer_def default_config_def default_tokenizer_def config_stemmer_def config_stopWords_def
        stemmer_given_def js_truthy_def is_array_def set_new_def js_def)
  have lang: "language default_tokenizer = js ''english''"
    by (simp add: default_tokenizer_def)
  have val: "validateComponents \<lparr>cm_tokenizer = None, cm_index = Some IndexPT15, cm_functions = []\<rparr> = Inr ()"
    by code_simp
  have pc: "plugin_components [pluginPT15] no_components = Inr \<lparr>cm_tokenizer = None, cm_index = Some IndexPT15, cm_functions = []\<rparr>"
    by (simp add: pluginPT15_def no_components_def component_names_def merge_components_def map_spread_def map_keys_def)
  have hk: "map (\<lambda>e. (e, getAllPluginsByHook [pluginPT15] e)) hook_names = map (\<lambda>h. (h, [])) hook_names"
    by (simp add: getAllPluginsByHook_def pluginPT15_def)
  let ?e = "\<lparr>db_id = snd (uniqueId (ev_prefix env) uid), db_schema = site_schema, db_tokenizer = default_tokenizer, db_component = IndexPT15,
    db_ids = id_store_empty, db_index = ix, db_docs = docs_create, db_sorting = so, db_hooks = map (\<lambda>h. (h, [])) hook_names,
    db_plugins = [pluginPT15], db_insertions = None, db_removals = None, db_propertiesToSearch = None, db_uid = uid + 1, db_log = []\<rparr>"
  have "runAfterCreate ?e = ?e"
    by (simp add: runAfterCreate_def no_hooks)
  then have "create_db env site_options uid = Inr ?e"
    by (simp add: create_db_def site_options_def pc Let_def choose_tokenizer_def tk lang val ix(1,2) hk uniqueId_def del: plugin_components.simps)
  moreover have "text_index env site_names (\<lambda>n. site_texts env n (Suc 0) []) ?e"
    using ix(4,6) site_names_plain createTokenizer_empty_cache [OF tk]
    by (auto simp: text_index_def list_all_iff position_of_def)
  moreover have "db_ok ?e"
    by (simp add: db_ok_def docs_ok_def docs_create_def)
  ultimately show ?thesis
    using ix(3-5,7) by (auto simp: site_db_def id_store_empty_def docs_create_def intro: exI [of _ "Suc uid"])
qed

lemma site_init:
  assumes "js ''english'' \<in> set (ev_languages env)" "list_all page_ok pages"
  shows "\<exists>e ids. adapter_init env uid pages = Inr (Some (e, Inr ids)) \<and> length ids = length pages \<and> site_db env pages e"
proof -
  obtain e where e: "create_db env site_options uid = Inr e" "site_db env [] e"
    using site_created [OF assms(1)] by blast
  let ?io = "\<lparr>io_language = None, io_skipHooks = False, io_threshold = None\<rparr>"
  have "site_db env (take (0 * 1000) pages) e"
    using e(2) by simp
  from insert_page_batches [OF _ this assms(2), of ?io "[]"] obtain e1 as where 1: "sync_batches env ?io 1000 pages 0 [] e = (e1, Inr as)"
      "length as = length pages" "site_db env pages e1"
    by auto
  have h: "hooks_of e t = []" "hooks_of e1 t = []" for t
    using e(2) 1(3) by (auto simp: site_db_def no_hooks)
  have "insertMultiple env pages e = Some (e1, Inr as)"
    using 1(1) by (simp add: insertMultiple_def Let_def h isAsync_def insertMultiple_sync_def insert_finish_def and_then_def runMultipleHook_def)
  with e(1) 1(2,3) show ?thesis
    by (simp add: adapter_init_def)
qed

subsection \<open>A search over the pages\<close>

lemma site_properties:
  assumes "searchableProperties ix = site_names" "searchablePropertiesWithTypes ix = site_types"
  shows "string_properties ix = Inr site_names"
proof -
  have "(let i = site_names in if list_ex (\<lambda>e. map_get site_types e = None) i then Inl TypeError
      else Inr (filter (\<lambda>e. startsWith (property_type site_types e) (js ''string'')) i)) = Inr site_names"
    by code_simp
  then show ?thesis
    by (simp add: string_properties_def assms Let_def)
qed

lemma site_search_simps:
  "sp_properties (site_search t) = Some AllProperties" "sp_where (site_search t) = []" "sp_term (site_search t) = Some t"
  "sp_exact (site_search t) = False" "sp_tolerance (site_search t) = 0" "sp_mode (site_search t) = None"
  "sp_limit (site_search t) = Some 99" "sp_offset (site_search t) = None" "plain_search (site_search t)"
  by (simp_all add: site_search_def plain_search_def or_default_def)

text \<open>The results of a search: the number of every page that is found, with its score.\<close>

definition site_results :: "engine_env \<Rightarrow> jsstring \<Rightarrow> jsval list \<Rightarrow> results \<Rightarrow> bool" where
  "site_results env t ps d =
     (wf_map d \<and>
      (\<forall>l. map_get d l = (if 1 \<le> l \<and> l \<le> length ps \<and> page_hit env t (ps ! (l - 1))
        then Some (Some (of_rat (page_score env t (ps ! (l - 1))))) else None)))"

lemma site_results_mem:
  assumes "site_results env t ps d"
  shows "x \<in> set d \<longleftrightarrow> (\<exists>i < length ps. page_hit env t (ps ! i) \<and> x = (Suc i, Some (of_rat (page_score env t (ps ! i)))))"
proof -
  have "distinct (map fst d)"
    using assms by (simp add: site_results_def wf_map_def)
  then have "x \<in> set d \<longleftrightarrow> map_get d (fst x) = Some (snd x)"
    by (metis map_of_eq_Some_iff prod.collapse)
  also have "map_get d (fst x) = (if 1 \<le> fst x \<and> fst x \<le> length ps \<and> page_hit env t (ps ! (fst x - 1))
      then Some (Some (of_rat (page_score env t (ps ! (fst x - 1))))) else None)"
    using assms unfolding site_results_def by blast
  also have "\<dots> = Some (snd x) \<longleftrightarrow> (\<exists>i < length ps. page_hit env t (ps ! i) \<and> x = (Suc i, Some (of_rat (page_score env t (ps ! i)))))"
    by (cases x; cases "fst x") auto
  finally show ?thesis .
qed

lemma site_inner_search:
  assumes "site_db env ps e"
  shows "\<exists>e' d. innerFullTextSearch env None (site_search t) e = (e', Inr d) \<and> site_db env ps e' \<and> site_results env t ps d"
proof -
  let ?e = "e\<lparr>db_propertiesToSearch := Some site_names\<rparr>"
  have inv: "text_index env site_names (\<lambda>n. site_texts env n (Suc 0) ps) e" "searchableProperties (db_index e) = site_names"
      "searchablePropertiesWithTypes (db_index e) = site_types" "db_propertiesToSearch e = None \<or> db_propertiesToSearch e = Some site_names"
    using assms by (simp_all add: site_db_def)
  have props: "properties_cached e = (?e, Inr site_names)"
    using inv(4) site_properties [OF inv(2,3)] by (auto simp: properties_cached_def)
  have tk: "cache_ok (db_tokenizer e)" "same_settings default_tokenizer (db_tokenizer e)" "db_component e = IndexPT15"
      "list_all (\<lambda>n. node_of (db_index e) n = Some (NPosition (position_of (site_texts env n (Suc 0) ps)))) site_names"
    using inv(1) by (auto simp: text_index_def list_all_iff)
  have q: "fresh_tokens (ev_seps env) (db_tokenizer e) [] t = site_tokens env [] t"
    by (simp add: site_tokens_def [abs_def] fresh_tokens_settings [OF tk(2)])
  have "site_names \<noteq> []"
    by (simp add: site_names_simps(1))
  from pt15_search_scores [OF tk(1) this tk(4), of "ev_seps env" t "sp_boost (site_search t)" None] obtain tk' m
    where m: "pt15_search (ev_seps env) (db_index e) t (db_tokenizer e) site_names False 0 (sp_boost (site_search t)) None = Inr (tk', m)"
      "wf_map m" "cache_ok tk'" "same_settings (db_tokenizer e) tk'"
      "\<And>d. map_get m d = (if 1 \<le> d \<and> d \<le> length ps \<and> page_hit env t (ps ! (d - 1)) then Some (page_score env t (ps ! (d - 1))) else None)"
    unfolding q site_total [OF refl] by blast
  let ?d = "map (\<lambda>(d, s). (d, Some (of_rat s))) m :: results"
  let ?e' = "?e\<lparr>db_tokenizer := tk'\<rparr>"
  have "innerFullTextSearch env None (site_search t) e = (?e', Inr ?d)"
    by (simp add: innerFullTextSearch_def props and_then_def chosen_properties_def site_search_simps where_filter_def component_search_def
        or_default_def tk(3) m(1))
  moreover have "same_settings default_tokenizer tk'"
    by (rule same_settings_trans [OF tk(2) m(4)])
  then have "site_db env ps ?e'"
    using assms m(3) unfolding site_db_def text_index_def db_ok_def by auto
  moreover have "map_get ?d l = map_option (\<lambda>s. Some (of_rat s)) (map_get m l)" for l
    by (induction m) auto
  then have "site_results env t ps ?d"
    using m(2,5) by (simp add: site_results_def wf_map_def o_def case_prod_beta)
  ultimately show ?thesis
    by blast
qed

lemma site_search_run:
  assumes "site_db env ps e" "list_all page_ok ps"
  shows "\<exists>e' d. search env None (site_search t) e = (e', Inr (results_page (site_search t) e' d)) \<and> site_db env ps e' \<and> site_results env t ps d"
proof -
  obtain e1 d where 1: "innerFullTextSearch env None (site_search t) e = (e1, Inr d)" "site_db env ps e1" "site_results env t ps d"
    using site_inner_search [OF assms(1)] by blast
  have inv: "db_ok e1" "vectorIndexes (db_index e1) = []" "db_hooks e = map (\<lambda>h. (h, [])) hook_names"
      "\<And>l. map_get (docs (db_docs e1)) l = (if 1 \<le> l \<and> l \<le> length ps then Some (ps ! (l - 1)) else None)"
    using 1(2) assms(1) by (simp_all add: site_db_def)
  have "\<exists>kvs. map_get (docs (db_docs e1)) l = Some (JObj kvs)" if "(l, s) \<in> set d" for l s
  proof -
    have l: "1 \<le> l" "l \<le> length ps"
      using that site_results_mem [OF 1(3), of "(l, s)"] by auto
    then have "page_ok (ps ! (l - 1))"
      using assms(2) by (simp add: list_all_length)
    with l inv(4) show ?thesis
      by (auto simp: page_ok_def split: jsval.splits)
  qed
  from fullTextSearch_run_page [OF 1(1) inv(1) _ site_search_simps(9) this inv(2)]
  have "fullTextSearch_run env None (site_search t) e = (e1, Inr (results_page (site_search t) e1 d))"
    using 1(3) by (simp add: site_results_def wf_map_def)
  then have "search env None (site_search t) e = (e1, Inr (results_page (site_search t) e1 d))"
    using no_hooks [OF inv(3)] by (simp add: search_def site_search_simps or_default_def fullTextSearch_def with_search_hooks_def)
  with 1(2,3) show ?thesis
    by blast
qed

text \<open>The pages that are found, best first; pages with equal scores are in the order of insertion.\<close>

definition page_ranking :: "engine_env \<Rightarrow> jsstring \<Rightarrow> jsval list \<Rightarrow> nat list \<Rightarrow> bool" where
  "page_ranking env t ps is =
     (distinct is \<and> set is = set (filter (\<lambda>i. page_hit env t (ps ! i)) [0..<length ps]) \<and>
      sorted_wrt (\<lambda>i j. page_score env t (ps ! j) < page_score env t (ps ! i) \<or>
        page_score env t (ps ! i) = page_score env t (ps ! j) \<and> i < j) is)"

lemma sorted_wrt_distinct: "sorted_wrt P xs \<Longrightarrow> distinct (map fst xs) \<Longrightarrow> sorted_wrt (\<lambda>a b. P a b \<and> fst a \<noteq> fst b) xs"
  by (induction xs) auto

lemma results_ranking:
  assumes "site_results env t ps d"
  shows "page_ranking env t ps (map (\<lambda>x. fst x - 1) (js_sort byScore_opt d))"
proof -
  let ?d = "js_sort byScore_opt d"
  note d = site_results_mem [OF assms]
  have dist: "distinct (map fst ?d)"
    using assms mset_eq_imp_distinct_iff [OF map_fst_js_sort, of byScore_opt d] by (simp add: site_results_def wf_map_def)
  have pos: "0 < fst x" if "x \<in> set ?d" for x
    using that d [of x] by auto
  have "inj_on (\<lambda>l. l - 1) (set (map fst ?d))"
    using pos by (intro inj_on_diff_nat) fastforce
  then have 1: "distinct (map (\<lambda>x. fst x - 1) ?d)"
    using dist distinct_map [of "\<lambda>l. l - 1" "map fst ?d"] by (simp add: o_def)
  have 2: "set (map (\<lambda>x. fst x - 1) ?d) = set (filter (\<lambda>i. page_hit env t (ps ! i)) [0..<length ps])"
  proof -
    have "set d = (\<lambda>i. (Suc i, Some (of_rat (page_score env t (ps ! i))))) ` {i. i < length ps \<and> page_hit env t (ps ! i)}"
      using d by (auto simp: image_iff)
    then show ?thesis
      by (simp add: image_image)
  qed
  have "sorted_wrt ranked ?d"
    using d by (intro sorted_byScore_opt) auto
  then have "sorted_wrt (\<lambda>a b. ranked a b \<and> fst a \<noteq> fst b) ?d"
    using dist by (rule sorted_wrt_distinct)
  then have "sorted_wrt (\<lambda>a b. page_score env t (ps ! (fst b - 1)) < page_score env t (ps ! (fst a - 1)) \<or>
      page_score env t (ps ! (fst a - 1)) = page_score env t (ps ! (fst b - 1)) \<and> fst a - 1 < fst b - 1) ?d"
  proof (rule sorted_wrt_mono_rel [rotated])
    fix a b
    assume ab: "a \<in> set ?d" "b \<in> set ?d" "ranked a b \<and> fst a \<noteq> fst b"
    obtain i j where "a = (Suc i, Some (of_rat (page_score env t (ps ! i))))" "b = (Suc j, Some (of_rat (page_score env t (ps ! j))))"
      using ab(1,2) d [of a] d [of b] by auto
    with ab(3) show "page_score env t (ps ! (fst b - 1)) < page_score env t (ps ! (fst a - 1)) \<or>
        page_score env t (ps ! (fst a - 1)) = page_score env t (ps ! (fst b - 1)) \<and> fst a - 1 < fst b - 1"
      by (auto simp: ranked_def finite_score_def of_rat_less)
  qed
  with 1 2 show ?thesis
    unfolding page_ranking_def by (simp add: sorted_wrt_map)
qed

definition found_pages :: "jsstring \<Rightarrow> jsval list \<Rightarrow> nat list \<Rightarrow> page_match list" where
  "found_pages t ps is = map (\<lambda>i. \<lparr>pm_matches = t # js_split_on 32 [] t, pm_page = ps ! i\<rparr>) is"

lemma adapter_search_run:
  assumes "site_db env ps e" "list_all page_ok ps"
  shows "\<exists>e' is. adapter_search env t e = (e', Inr (found_pages t ps (take 99 is))) \<and> site_db env ps e' \<and> page_ranking env t ps is"
proof -
  obtain e1 d where 1: "search env None (site_search t) e = (e1, Inr (results_page (site_search t) e1 d))" "site_db env ps e1"
      "site_results env t ps d"
    using site_search_run [OF assms] by blast
  let ?d = "js_sort byScore_opt d"
  have "doc_value (map_get (docs (db_docs e1)) (fst x)) = ps ! (fst x - 1)" if "x \<in> set (take 99 ?d)" for x
  proof -
    have "x \<in> set d"
      using in_set_takeD [OF that] by simp
    then have "1 \<le> fst x" "fst x \<le> length ps"
      using site_results_mem [OF 1(3), of x] by auto
    with 1(2) show ?thesis
      by (simp add: site_db_def doc_value_def)
  qed
  then have "adapter_search env t e = (e1, Inr (found_pages t ps (take 99 (map (\<lambda>x. fst x - 1) ?d))))"
    by (auto simp: adapter_search_def 1(1) and_then_def results_page_def found_pages_def site_search_simps or_default_def hit_of_def take_map)
  with 1(2) results_ranking [OF 1(3)] show ?thesis
    by blast
qed

definition searched :: "engine_env \<Rightarrow> jsstring list \<Rightarrow> db \<Rightarrow> db" where
  "searched env ts e = foldl (\<lambda>e t. fst (adapter_search env t e)) e ts"

lemma searched_site: "site_db env ps e \<Longrightarrow> list_all page_ok ps \<Longrightarrow> site_db env ps (searched env ts e)"
proof (induction ts arbitrary: e)
  case (Cons t ts)
  from adapter_search_run [OF Cons.prems, of t] have "site_db env ps (fst (adapter_search env t e))"
    by auto
  with Cons show ?case
    by (simp add: searched_def)
qed (simp add: searched_def)

subsection \<open>Properties\<close>

text \<open>
  C1: For every list of pages, set-up succeeds and gives every page an id, and every search after it, whatever
  was searched before, returns the best 99 of the pages with a word that starts with a word of the search
  text, and no other page. Pages are ordered by the sum of the levels of such words times the weight of
  the field, and pages of equal score by their order in the list.
\<close>

theorem site_search_correct:
  assumes "js ''english'' \<in> set (ev_languages env)" "list_all page_ok pages"
  shows "\<exists>e ids. adapter_init env uid pages = Inr (Some (e, Inr ids)) \<and> length ids = length pages \<and>
    (\<forall>ts t. \<exists>e' is. adapter_search env t (searched env ts e) = (e', Inr (found_pages t pages (take 99 is))) \<and> page_ranking env t pages is)"
proof -
  obtain e ids where e: "adapter_init env uid pages = Inr (Some (e, Inr ids))" "length ids = length pages" "site_db env pages e"
    using site_init [OF assms] by blast
  have "\<exists>e' is. adapter_search env t (searched env ts e) = (e', Inr (found_pages t pages (take 99 is))) \<and> page_ranking env t pages is" for ts t
    using adapter_search_run [OF searched_site [OF e(3) assms(2)] assms(2)] by blast
  with e(1,2) show ?thesis
    by blast
qed

definition two_pages :: "jsval list" where
  "two_pages =
     [JObj [(js ''title'', JStr (js ''Task queues'')), (js ''uri'', JStr (js ''/queues''))],
      JObj [(js ''title'', JStr (js ''Fast tasks'')), (js ''tags'', JArr [JStr (js ''tasks''), JStr (js ''go'')])]]"

theorem site_search_correct_witness:
  "\<exists>e ids. adapter_init plain_env 0 two_pages = Inr (Some (e, Inr ids)) \<and>
     (\<exists>e' is. adapter_search plain_env (js ''Task'') e = (e', Inr (found_pages (js ''Task'') two_pages is)) \<and> is = [1, 0])"
proof -
  have p: "js ''english'' \<in> set (ev_languages plain_env)" "list_all page_ok two_pages"
    by code_simp+
  obtain e ids where e: "adapter_init plain_env 0 two_pages = Inr (Some (e, Inr ids))"
    "\<forall>ts t. \<exists>e' is. adapter_search plain_env t (searched plain_env ts e) = (e', Inr (found_pages t two_pages (take 99 is))) \<and> page_ranking plain_env t two_pages is"
    using site_search_correct [OF p, of 0] by blast
  from e(2) [rule_format, of "js ''Task''" "[]"] obtain e' "is"
    where r: "adapter_search plain_env (js ''Task'') e = (e', Inr (found_pages (js ''Task'') two_pages (take 99 is)))"
      "page_ranking plain_env (js ''Task'') two_pages is"
    by (auto simp: searched_def)
  have s: "page_score plain_env (js ''Task'') (two_pages ! 0) < page_score plain_env (js ''Task'') (two_pages ! 1)"
    by code_simp
  have "set (filter (\<lambda>i. page_hit plain_env (js ''Task'') (two_pages ! i)) [0..<length two_pages]) = {0, 1}"
    by code_simp
  then have "distinct is" "set is = {0, 1}" "sorted_wrt (\<lambda>i j. page_score plain_env (js ''Task'') (two_pages ! j) < page_score plain_env (js ''Task'') (two_pages ! i) \<or>
      page_score plain_env (js ''Task'') (two_pages ! i) = page_score plain_env (js ''Task'') (two_pages ! j) \<and> i < j) is"
    using r(2) by (auto simp: page_ranking_def)
  moreover from this(1,2) have "length is = 2"
    using distinct_card [of "is"] by simp
  ultimately have "is = [1, 0]"
    using s by (cases "is"; cases "tl is") (auto simp: doubleton_eq_iff)
  with e(1) r(1) show ?thesis
    by auto
qed

end
