(* ===== verification/Orama_Update.thy ===== *)
theory Orama_Update
  imports Orama_DB Orama_Persist
begin

text \<open>
  Removal, update, save and load of a database (\<^verbatim>\<open>assets/js/orama/orama.js\<close>, the full
  distribution of the engine that \<^verbatim>\<open>search-orama.js\<close> bundles a part of): removal of one
  document (\<^verbatim>\<open>an\<close>, \<^verbatim>\<open>gn\<close>) and of many (\<^verbatim>\<open>bn\<close>), update
  (\<^verbatim>\<open>Wn\<close>, \<^verbatim>\<open>Vn\<close>), save and load (\<^verbatim>\<open>Bn\<close>,
  \<^verbatim>\<open>Ln\<close>). The database is that of \<open>Orama_DB\<close>.

  The removal of many documents without async hooks leaves every batch but the first to timers; the
  model returns the timer that is left, and \<open>run_timers\<close> runs it and those it sets. The variant
  for async hooks waits for its timers; an error rejects its promise and does not stop it, and the
  database it returns is the one when all its timers have run.
\<close>

subsection \<open>Removal of a document\<close>

definition trackRemoval :: "db \<Rightarrow> db" where
  "trackRemoval e =
     (let g = (case db_removals e of None \<Rightarrow> 0 | Some g \<Rightarrow> g)
      in if g > 1000 then e\<lparr>db_log := db_log e @ [Warning (js ''ORAMA0002'')], db_removals := Some (-1)\<rparr>
         else if g \<ge> 0 then e\<lparr>db_removals := Some (g + 1)\<rparr>
         else e\<lparr>db_removals := Some g\<rparr>)"

definition doc_name :: "doc_id \<Rightarrow> jsstring" where
  "doc_name t = (case t of IdString s \<Rightarrow> s | IdNumber n \<Rightarrow> nat_toString n)"

definition component_remove ::
    "engine_env \<Rightarrow> jsstring option \<Rightarrow> int \<Rightarrow> jsstring \<Rightarrow> jsstring \<Rightarrow> nat \<Rightarrow> jsval \<Rightarrow> db \<Rightarrow> (db \<times> bool) jsresult" where
  "component_remove env lang cnt r t c s e =
     (let i = property_type (searchablePropertiesWithTypes (db_index e)) r;
          rm = (case db_component e of IndexDefault \<Rightarrow> index_remove | IndexPT15 \<Rightarrow> pt15_remove)
      in lift_err (rm (ev_seps env) lang cnt r t c i s (db_tokenizer e, db_ids e, db_index e)) (\<lambda>((tk, ids, ix), b).
           Inr (e\<lparr>db_tokenizer := tk, db_ids := ids, db_index := ix\<rparr>, b)))"

fun remove_fields ::
    "engine_env \<Rightarrow> jsstring option \<Rightarrow> int \<Rightarrow> jsstring \<Rightarrow> nat \<Rightarrow> (jsstring, jsval) jsmap \<Rightarrow> jsstring list \<Rightarrow> bool \<Rightarrow> db \<Rightarrow> bool db_result" where
  "remove_fields env lang cnt t c h [] ok e = (e, Inr ok)"
| "remove_fields env lang cnt t c h (r # rest) ok e =
     (case map_get h r of
        None \<Rightarrow> remove_fields env lang cnt t c h rest ok e
      | Some s \<Rightarrow>
          (case component_remove env lang cnt r t c s e of
             Inl x \<Rightarrow> (e, Inl x)
           | Inr (e, b) \<Rightarrow> remove_fields env lang cnt t c h rest (ok \<and> b) e))"

fun unsort_fields :: "doc_id \<Rightarrow> (jsstring, jsval) jsmap \<Rightarrow> jsstring list \<Rightarrow> db \<Rightarrow> unit db_result" where
  "unsort_fields t m [] e = (e, Inr ())"
| "unsort_fields t m (n # p) e =
     (case map_get m n of
        None \<Rightarrow> unsort_fields t m p e
      | Some v \<Rightarrow>
          (case sorter_remove n t (db_ids e, db_sorting e) of
             Inl x \<Rightarrow> (e, Inl x)
           | Inr (ids, so) \<Rightarrow> unsort_fields t m p (e\<lparr>db_ids := ids, db_sorting := so\<rparr>)))"

definition unsort_document :: "doc_id \<Rightarrow> jsval \<Rightarrow> db \<Rightarrow> unit db_result" where
  "unsort_document t a e =
     (let p = getSortableProperties (db_sorting e)
      in case getDocumentProperties a p [] of Inl x \<Rightarrow> (e, Inl x) | Inr m \<Rightarrow> unsort_fields t m p e)"

definition drop_document :: "doc_id \<Rightarrow> db \<Rightarrow> db" where
  "drop_document t e =
     (let (ids, ds, b) = docs_remove (db_ids e) (db_docs e) t in e\<lparr>db_ids := ids, db_docs := ds\<rparr>)"

definition remove_stored ::
    "engine_env \<Rightarrow> jsstring option \<Rightarrow> bool \<Rightarrow> doc_id \<Rightarrow> jsval \<Rightarrow> nat \<Rightarrow> jsstring \<Rightarrow> db \<Rightarrow> bool db_result" where
  "remove_stored env n skip t a c l e =
     (let u = docs_count (db_docs e); e = hook_unless skip (js ''beforeRemove'') l e
      in case getDocumentProperties a (searchableProperties (db_index e)) [] of
           Inl x \<Rightarrow> (e, Inl x)
         | Inr h \<Rightarrow>
             and_then (remove_fields env n u (doc_name t) c h (searchableProperties (db_index e)) True e) (\<lambda>e ok.
             and_then (unsort_document t a e) (\<lambda>e y.
               (trackRemoval (drop_document t (hook_unless skip (js ''afterRemove'') l e)), Inr ok))))"

definition remove_doc :: "engine_env \<Rightarrow> jsstring option \<Rightarrow> bool \<Rightarrow> doc_id \<Rightarrow> db \<Rightarrow> bool db_result" where
  "remove_doc env n skip t e =
     (let (ids, a) = docs_get (db_ids e) (db_docs e) t; e = e\<lparr>db_ids := ids\<rparr>
      in case a of
           None \<Rightarrow> (e, Inr False)
         | Some a \<Rightarrow>
             if \<not> js_truthy a then (e, Inr False)
             else
               (let (ids, c) = getInternalDocumentId (db_ids e) t; e = e\<lparr>db_ids := ids\<rparr>
                in case getDocumentIdFromInternalId ids c of
                     Inl x \<Rightarrow> (e, Inl x)
                   | Inr l \<Rightarrow> remove_stored env n skip t a c (case l of None \<Rightarrow> [] | Some l \<Rightarrow> l) e))"

subsection \<open>Removal of many documents\<close>

record timer =
  tm_ids :: "doc_id list"
  tm_size :: nat
  tm_batch :: nat
  tm_language :: "jsstring option"
  tm_skipHooks :: bool

definition removal_batch :: "timer \<Rightarrow> doc_id list" where
  "removal_batch tm = take (tm_size tm) (drop (tm_batch tm * tm_size tm) (tm_ids tm))"

definition next_timer :: "timer \<Rightarrow> timer" where
  "next_timer tm = tm\<lparr>tm_batch := tm_batch tm + 1\<rparr>"

fun remove_list :: "engine_env \<Rightarrow> jsstring option \<Rightarrow> bool \<Rightarrow> doc_id list \<Rightarrow> nat \<Rightarrow> db \<Rightarrow> nat db_result" where
  "remove_list env n skip [] s e = (e, Inr s)"
| "remove_list env n skip (t # ts) s e =
     and_then (remove_doc env n skip t e) (\<lambda>e b. remove_list env n skip ts (if b then s + 1 else s) e)"

text \<open>One run of the function: a batch, and the timer for the next one unless the batch is empty or failed.\<close>

definition remove_step :: "engine_env \<Rightarrow> timer \<Rightarrow> nat \<Rightarrow> db \<Rightarrow> nat db_result \<times> timer option" where
  "remove_step env tm s e =
     (if removal_batch tm = [] then ((e, Inr s), None)
      else
        (case remove_list env (tm_language tm) (tm_skipHooks tm) (removal_batch tm) s e of
           (e, Inl x) \<Rightarrow> ((e, Inl x), None)
         | (e, Inr s) \<Rightarrow> ((e, Inr s), Some (next_timer tm))))"

fun external_names :: "id_store \<Rightarrow> doc_id list \<Rightarrow> id_store \<times> unit jsresult" where
  "external_names ids [] = (ids, Inr ())"
| "external_names ids (t # ts) =
     (let (ids, c) = getInternalDocumentId ids t
      in case getDocumentIdFromInternalId ids c of Inl x \<Rightarrow> (ids, Inl x) | Inr l \<Rightarrow> external_names ids ts)"

definition announce_removals :: "bool \<Rightarrow> doc_id list \<Rightarrow> db \<Rightarrow> unit db_result" where
  "announce_removals skip t e =
     (if skip then (e, Inr ())
      else
        (let (ids, r) = external_names (db_ids e) t; e = e\<lparr>db_ids := ids\<rparr>
         in and_then (e, r) (\<lambda>e u. (runMultipleHook (js ''beforeRemoveMultiple'') e, Inr ()))))"

definition batch_size :: "nat option \<Rightarrow> nat" where
  "batch_size n = (case n of Some (Suc k) \<Rightarrow> Suc k | _ \<Rightarrow> 1000)"

definition removal_timer :: "nat option \<Rightarrow> jsstring option \<Rightarrow> bool \<Rightarrow> doc_id list \<Rightarrow> timer" where
  "removal_timer n r skip t =
     \<lparr>tm_ids = t, tm_size = batch_size n, tm_batch = 0, tm_language = r, tm_skipHooks = skip\<rparr>"

definition finish_removals :: "bool \<Rightarrow> nat db_result \<Rightarrow> nat db_result" where
  "finish_removals skip r =
     and_then r (\<lambda>e s. (if skip then e else runMultipleHook (js ''afterRemoveMultiple'') e, Inr s))"

definition removeMultiple_sync ::
    "engine_env \<Rightarrow> nat option \<Rightarrow> jsstring option \<Rightarrow> bool \<Rightarrow> doc_id list \<Rightarrow> db \<Rightarrow> nat db_result \<times> timer option" where
  "removeMultiple_sync env n r skip t e =
     (case announce_removals skip t e of
        (e, Inl x) \<Rightarrow> ((e, Inl x), None)
      | (e, Inr u) \<Rightarrow>
          (let (res, tm) = remove_step env (removal_timer n r skip t) 0 e in (finish_removals skip res, tm)))"

text \<open>The timers, one after the other; an error in one is reported to the host and sets no other.\<close>

function run_timers :: "engine_env \<Rightarrow> timer \<Rightarrow> db \<Rightarrow> db" where
  "run_timers env tm e =
     (if removal_batch tm = [] then e
      else
        (case remove_step env tm 0 e of
           ((e, r), None) \<Rightarrow> e
         | ((e, r), Some tm') \<Rightarrow> run_timers env (next_timer tm) e))"
  by pat_completeness auto
termination
proof (relation "measure (\<lambda>(env, tm, e). length (tm_ids tm) - tm_batch tm * tm_size tm)", goal_cases)
  case (2 env tm e)
  then have "0 < tm_size tm" "tm_batch tm * tm_size tm < length (tm_ids tm)"
    by (auto simp: removal_batch_def not_le)
  then show ?case
    by (simp add: next_timer_def)
qed simp

declare run_timers.simps [simp del]

text \<open>The variant for async hooks: a failure is kept, and the removal goes on.\<close>

fun remove_all :: "engine_env \<Rightarrow> jsstring option \<Rightarrow> bool \<Rightarrow> doc_id list \<Rightarrow> nat \<Rightarrow> jserror option \<Rightarrow> db \<Rightarrow> nat db_result" where
  "remove_all env n skip [] s x e = (e, case x of None \<Rightarrow> Inr s | Some x \<Rightarrow> Inl x)"
| "remove_all env n skip (t # ts) s x e =
     (case remove_doc env n skip t e of
        (e, Inl y) \<Rightarrow> remove_all env n skip ts s (case x of None \<Rightarrow> Some y | Some x \<Rightarrow> Some x) e
      | (e, Inr b) \<Rightarrow> remove_all env n skip ts (if b then s + 1 else s) x e)"

definition removeMultiple_async ::
    "engine_env \<Rightarrow> nat option \<Rightarrow> jsstring option \<Rightarrow> bool \<Rightarrow> doc_id list \<Rightarrow> db \<Rightarrow> nat db_result" where
  "removeMultiple_async env n r skip t e =
     and_then (announce_removals skip t e) (\<lambda>e u. finish_removals skip (remove_all env r skip t 0 None e))"

definition removeMultiple ::
    "engine_env \<Rightarrow> nat option \<Rightarrow> jsstring option \<Rightarrow> bool \<Rightarrow> doc_id list \<Rightarrow> db \<Rightarrow> nat db_result \<times> timer option" where
  "removeMultiple env n r skip t e =
     (if isAsync (hooks_of e (js ''beforeRemoveMultiple'')) \<or> isAsync (hooks_of e (js ''afterRemoveMultiple''))
      then (removeMultiple_async env n r skip t e, None) else removeMultiple_sync env n r skip t e)"

subsection \<open>Update\<close>

text \<open>Both variants of an update do the same steps.\<close>

definition update_doc :: "engine_env \<Rightarrow> jsstring option \<Rightarrow> bool \<Rightarrow> doc_id \<Rightarrow> jsval \<Rightarrow> db \<Rightarrow> jsstring db_result" where
  "update_doc env r skip t n e =
     (let e = hook_unless skip (js ''beforeUpdate'') (doc_name t) e
      in and_then (remove_doc env r skip t e) (\<lambda>e b.
         and_then (insert_doc env \<lparr>io_language = r, io_skipHooks = skip, io_threshold = None\<rparr> n e) (\<lambda>e s.
           (hook_unless skip (js ''afterUpdate'') s e, Inr s))))"

fun validate_all :: "jsval list \<Rightarrow> db \<Rightarrow> unit jsresult" where
  "validate_all [] e = Inr ()"
| "validate_all (n # ns) e =
     lift_err (validateSchema n (db_schema e)) (\<lambda>p.
       case p of
         Some (c # s) \<Rightarrow> Inl (JsError (js ''SCHEMA_VALIDATION_FAILURE''))
       | _ \<Rightarrow> validate_all ns e)"

definition innerInsertMultiple ::
    "engine_env \<Rightarrow> insert_options \<Rightarrow> nat option \<Rightarrow> jsval list \<Rightarrow> db \<Rightarrow> jsstring list db_result option" where
  "innerInsertMultiple env io n t e =
     (if isAsync (hooks_of e (js ''beforeInsert'')) \<or> isAsync (hooks_of e (js ''afterInsert''))
      then insertMultiple_async env io n t e else Some (insertMultiple_sync env io n t e))"

definition updateMultiple ::
    "engine_env \<Rightarrow> nat option \<Rightarrow> jsstring option \<Rightarrow> bool \<Rightarrow> doc_id list \<Rightarrow> jsval list \<Rightarrow> db \<Rightarrow> (jsstring list db_result \<times> timer option) option" where
  "updateMultiple env r o1 s t n e =
     (let e = (if s then e else runMultipleHook (js ''beforeUpdateMultiple'') e)
      in case validate_all n e of
           Inl x \<Rightarrow> Some ((e, Inl x), None)
         | Inr u \<Rightarrow>
             (case removeMultiple env r o1 s t e of
                ((e, Inl x), tm) \<Rightarrow> Some ((e, Inl x), tm)
              | ((e, Inr k), tm) \<Rightarrow>
                  map_option (\<lambda>res.
                      (and_then res (\<lambda>e a. (if s then e else runMultipleHook (js ''afterUpdateMultiple'') e, Inr a)), tm))
                    (innerInsertMultiple env \<lparr>io_language = o1, io_skipHooks = s, io_threshold = None\<rparr> r n e)))"

subsection \<open>Save, load and the small accessors\<close>

definition getByID :: "doc_id \<Rightarrow> db \<Rightarrow> db \<times> jsval option" where
  "getByID t e = (let (ids, d) = docs_get (db_ids e) (db_docs e) t in (e\<lparr>db_ids := ids\<rparr>, d))"

definition db_count :: "db \<Rightarrow> int" where
  "db_count e = docs_count (db_docs e)"

datatype index_saved =
    SavedDefault index_json
  | SavedPT15 "index_json \<times> (jsstring, field_index) jsmap"

record db_json =
  dj_ids :: "jsstring list"
  dj_index :: index_saved
  dj_docs :: "(nat, jsval) jsmap \<times> int"
  dj_sorting :: "(sorter \<times> (jsstring, sort_entry_json) jsmap) option"
  dj_language :: jsstring

definition component_save :: "db \<Rightarrow> index_saved jsresult" where
  "component_save e =
     (case db_component e of
        IndexDefault \<Rightarrow> lift_err (index_save (db_index e)) (\<lambda>j. Inr (SavedDefault j))
      | IndexPT15 \<Rightarrow> lift_err (pt15_save (db_index e)) (\<lambda>j. Inr (SavedPT15 j)))"

definition save_db :: "engine_env \<Rightarrow> db \<Rightarrow> db_json db_result" where
  "save_db env e =
     (case component_save e of
        Inl x \<Rightarrow> (e, Inl x)
      | Inr j \<Rightarrow>
          (let (so, sj) = sorter_save (ev_sort env) (db_sorting e)
           in (e\<lparr>db_sorting := so\<rparr>,
               Inr \<lparr>dj_ids = id_store_save (db_ids e), dj_index = j, dj_docs = docs_save (db_docs e), dj_sorting = sj,
                    dj_language = language (db_tokenizer e)\<rparr>)))"

definition component_load :: "index_component \<Rightarrow> index_saved \<Rightarrow> index jsresult" where
  "component_load c j =
     (case (c, j) of
        (IndexDefault, SavedDefault j) \<Rightarrow> index_load j
      | (IndexPT15, SavedPT15 j) \<Rightarrow> pt15_load j
      | _ \<Rightarrow> Inl TypeError)"

definition load_db :: "db_json \<Rightarrow> db \<Rightarrow> unit db_result" where
  "load_db t e =
     (let e = e\<lparr>db_ids := id_store_load (dj_ids t)\<rparr>
      in case component_load (db_component e) (dj_index t) of
           Inl x \<Rightarrow> (e, Inl x)
         | Inr ix \<Rightarrow>
             (e\<lparr>db_index := ix, db_docs := docs_load (dj_docs t), db_sorting := sorter_load (dj_sorting t),
                db_tokenizer := (db_tokenizer e)\<lparr>language := dj_language t\<rparr>\<rparr>, Inr ()))"

subsection \<open>The document store during a removal\<close>

lemma removeDocumentScoreParameters_ids:
  assumes "getInternalDocumentId ids (IdString a) = (ids, l)"
    and "removeDocumentScoreParameters ids t n (IdString a) cnt = Inr (ids', t')"
  shows "ids' = ids"
  using assms(2) unfolding removeDocumentScoreParameters_def assms(1) by (auto simp: need_Inr Let_def)

lemma remove_scalar_ids:
  assumes "getInternalDocumentId ids (IdString a) = (ids, l)"
    and "remove_scalar seps lang cnt n a d ty v (tk, ids, t) = Inr ((tk', ids', t'), b)"
  shows "ids' = ids"
proof (cases "isVectorType ty")
  case True
  with assms(2) show ?thesis
    by (auto simp: remove_scalar_def need_Inr)
next
  case False
  then obtain x where x: "node_of t n = Some x"
    using assms(2) by (auto simp: remove_scalar_def need_Inr)
  show ?thesis
    using assms(2) False
    by (cases x; cases v)
      (auto simp: remove_scalar_def x need_def lift_err_Inr split: option.splits
        dest!: removeDocumentScoreParameters_ids [OF assms(1)])
qed

lemma remove_each_ids:
  assumes "getInternalDocumentId ids (IdString a) = (ids, l)"
  shows "insert_each (map (\<lambda>x st. lift_err (remove_scalar seps lang cnt n a d u x st) (\<lambda>(st, b). Inr st)) xs) (tk, ids, t) =
    Inr (tk', ids', t') \<Longrightarrow> ids' = ids"
proof (induction xs arbitrary: tk t)
  case (Cons x xs)
  then obtain tk1 ids1 t1 b where 1: "remove_scalar seps lang cnt n a d u x (tk, ids, t) = Inr ((tk1, ids1, t1), b)"
    "insert_each (map (\<lambda>x st. lift_err (remove_scalar seps lang cnt n a d u x st) (\<lambda>(st, b). Inr st)) xs) (tk1, ids1, t1) =
      Inr (tk', ids', t')"
    by (auto simp: lift_err_Inr)
  with remove_scalar_ids [OF assms 1(1)] Cons.IH show ?case
    by simp
qed simp

lemma index_remove_ids:
  assumes "getInternalDocumentId ids (IdString a) = (ids, l)"
    and "index_remove seps lang cnt n a d ty v (tk, ids, t) = Inr ((tk', ids', t'), b)"
  shows "ids' = ids"
proof (cases "getInnerType ty")
  case None
  with assms(2) show ?thesis
    by (auto simp: index_remove_def dest: remove_scalar_ids [OF assms(1)])
next
  case (Some u)
  with assms(2) show ?thesis
    by (cases v) (auto simp: index_remove_def lift_err_Inr dest!: remove_each_ids [OF assms(1)])
qed

lemma pt15_remove_ids:
  assumes "getInternalDocumentId ids (IdString a) = (ids, l)"
    and "pt15_remove seps lang cnt n a d ty v (tk, ids, t) = Inr ((tk', ids', t'), b)"
  shows "ids' = ids"
  using assms(2) index_remove_ids [OF assms(1)]
  by (auto simp: pt15_remove_def lift_err_Inr split: if_splits)

lemma component_remove_same:
  assumes "knows e a l" "component_remove env lang cnt r a c v e = Inr (e', b)"
  shows "same_docs e e'"
proof (cases "db_component e")
  case IndexDefault
  with assms(2) index_remove_ids [OF knows_get(1) [OF assms(1)]] show ?thesis
    by (auto simp: component_remove_def Let_def lift_err_Inr same_docs_def)
next
  case IndexPT15
  with assms(2) pt15_remove_ids [OF knows_get(1) [OF assms(1)]] show ?thesis
    by (auto simp: component_remove_def Let_def lift_err_Inr same_docs_def)
qed

lemma remove_fields_same:
  "knows e a l \<Longrightarrow> remove_fields env lang cnt a c h f ok e = (e', res) \<Longrightarrow> same_docs e e'"
proof (induction f arbitrary: e ok)
  case (Cons r f)
  show ?case
  proof (cases "map_get h r")
    case None
    with Cons show ?thesis
      by simp
  next
    case (Some s)
    show ?thesis
    proof (cases "component_remove env lang cnt r a c s e")
      case (Inl x)
      with Cons.prems(2) Some show ?thesis
        by simp
    next
      case (Inr y)
      obtain e1 b where y: "y = (e1, b)"
        by fastforce
      have s: "same_docs e e1"
        using component_remove_same [OF Cons.prems(1)] Inr y by blast
      moreover have "same_docs e1 e'"
        using Cons.IH [of e1] Cons.prems Some Inr y same_docs_knows [OF s] by simp
      ultimately show ?thesis
        by (rule same_docs_trans)
    qed
  qed
qed simp

lemma sorter_remove_ids:
  assumes "getInternalDocumentId ids (IdString a) = (ids, l)" "sorter_remove n (IdString a) (ids, so) = Inr (ids', so')"
  shows "ids' = ids"
  using assms by (auto simp: sorter_remove_def Let_def split: if_splits option.splits)

lemma unsort_fields_same: "knows e a l \<Longrightarrow> unsort_fields (IdString a) m ns e = (e', res) \<Longrightarrow> same_docs e e'"
proof (induction ns arbitrary: e)
  case (Cons n ns)
  show ?case
  proof (cases "map_get m n")
    case None
    with Cons show ?thesis
      by simp
  next
    case (Some v)
    show ?thesis
    proof (cases "sorter_remove n (IdString a) (db_ids e, db_sorting e)")
      case (Inl x)
      with Cons.prems(2) Some show ?thesis
        by simp
    next
      case (Inr y)
      obtain ids so where y: "y = (ids, so)"
        by fastforce
      let ?e = "e\<lparr>db_ids := ids, db_sorting := so\<rparr>"
      have s: "same_docs e ?e"
        using sorter_remove_ids [OF knows_get(1) [OF Cons.prems(1)]] Inr y by (simp add: same_docs_def)
      moreover have "same_docs ?e e'"
        using Cons.IH [of ?e] Cons.prems Some Inr y same_docs_knows [OF s] by simp
      ultimately show ?thesis
        by (rule same_docs_trans)
    qed
  qed
qed simp

lemma unsort_document_same: "knows e a l \<Longrightarrow> unsort_document (IdString a) d e = (e', res) \<Longrightarrow> same_docs e e'"
  by (auto simp: unsort_document_def Let_def split: sum.splits dest: unsort_fields_same)

lemma trackRemoval_same: "same_docs e (trackRemoval e)"
  by (simp add: trackRemoval_def Let_def same_docs_def)

text \<open>The store of \<open>e'\<close> is that of \<open>e\<close> without the document \<open>l\<close>.\<close>

definition dropped :: "nat \<Rightarrow> db \<Rightarrow> db \<Rightarrow> bool" where
  "dropped l e e' =
     (db_ids e' = db_ids e \<and> db_schema e' = db_schema e \<and>
      docs (db_docs e') = map_del l (docs (db_docs e)) \<and> doc_count (db_docs e') = doc_count (db_docs e) - 1)"

lemma drop_document_known:
  assumes "knows e a l" "map_get (docs (db_docs e)) l \<noteq> None"
  shows "dropped l e (drop_document (IdString a) e)"
  using assms(2) unfolding drop_document_def docs_remove_def knows_get(1) [OF assms(1)]
  by (auto simp: dropped_def)

lemma same_docs_dropped: "same_docs e e1 \<Longrightarrow> dropped l e1 e2 \<Longrightarrow> same_docs e2 e3 \<Longrightarrow> dropped l e e3"
  by (simp add: same_docs_def dropped_def)

lemma remove_stored_dropped:
  assumes "knows e a l" "map_get (docs (db_docs e)) l = Some d" "remove_stored env n skip (IdString a) d c x e = (e', r)"
  shows "(\<exists>b. r = Inr b) \<and> dropped l e e' \<or> (\<exists>y. r = Inl y) \<and> same_docs e e'"
proof -
  let ?e1 = "hook_unless skip (js ''beforeRemove'') x e"
  have 1: "same_docs e ?e1"
    by (rule hook_unless_same)
  show ?thesis
  proof (cases "getDocumentProperties d (searchableProperties (db_index ?e1)) []")
    case (Inl y)
    with assms(3) 1 show ?thesis
      by (auto simp: remove_stored_def)
  next
    case (Inr h)
    obtain e2 r2 where r2: "remove_fields env n (docs_count (db_docs e)) a c h (searchableProperties (db_index ?e1)) True ?e1 = (e2, r2)"
      by fastforce
    have 2: "same_docs e e2" "knows e2 a l"
      using remove_fields_same [OF _ r2] same_docs_trans [OF 1] same_docs_knows assms(1) 1 by blast+
    obtain e3 r3 where r3: "unsort_document (IdString a) d e2 = (e3, r3)"
      by fastforce
    have 3: "same_docs e e3"
      by (rule same_docs_trans [OF 2(1) unsort_document_same [OF 2(2) r3]])
    let ?e4 = "hook_unless skip (js ''afterRemove'') x e3"
    have 4: "same_docs e ?e4"
      by (rule same_docs_trans [OF 3 hook_unless_same])
    then have "knows ?e4 a l" "map_get (docs (db_docs ?e4)) l \<noteq> None"
      using same_docs_knows [OF 4] assms(1,2) by (simp_all add: same_docs_def)
    note 5 = same_docs_dropped [OF 4 drop_document_known [OF this] trackRemoval_same]
    have "remove_stored env n skip (IdString a) d c x e =
        (case r2 of Inl y \<Rightarrow> (e2, Inl y)
         | Inr ok \<Rightarrow> (case r3 of Inl y \<Rightarrow> (e3, Inl y) | Inr u \<Rightarrow> (trackRemoval (drop_document (IdString a) ?e4), Inr ok)))"
      by (simp add: remove_stored_def Let_def Inr doc_name_def r2 and_then_def r3 split: sum.split)
    with assms(3) 2(1) 3 5 show ?thesis
      by (auto split: sum.splits)
  qed
qed

lemma remove_doc_known:
  assumes "knows e a l" "map_get (docs (db_docs e)) l = Some d" "js_truthy d"
  shows "remove_doc env n skip (IdString a) e = remove_stored env n skip (IdString a) d l a e"
proof -
  have k: "getDocumentIdFromInternalId (db_ids e) l = Inr (Some a)"
    using assms(1) by (auto simp: knows_def extern_id_def split: sum.splits)
  show ?thesis
    unfolding remove_doc_def docs_get_def knows_get(1) [OF assms(1)]
    using assms(2,3) by (simp add: Let_def knows_get(1) [OF assms(1)] k del: getInternalDocumentId.simps)
qed

lemma dropped_ok:
  assumes "db_ok e" "dropped l e e'" "map_get (docs (db_docs e)) l \<noteq> None"
  shows "db_ok e'"
proof -
  have "length (docs (db_docs e)) = Suc (length (map_del l (docs (db_docs e))))"
    using assms(1,3) length_map_del [of "docs (db_docs e)" l] by (fastforce simp: db_ok_def docs_ok_def)
  then show ?thesis
    using assms(1,2) by (auto simp: db_ok_def dropped_def docs_ok_def split: if_splits)
qed

subsection \<open>Batches of removals\<close>

lemma remove_list_count:
  "remove_list env n skip ts s e =
     (case remove_list env n skip ts 0 e of (e', Inl x) \<Rightarrow> (e', Inl x) | (e', Inr k) \<Rightarrow> (e', Inr (s + k)))"
proof (induction ts arbitrary: s e)
  case (Cons t ts)
  obtain e1 r where r: "remove_doc env n skip t e = (e1, r)"
    by fastforce
  show ?case
  proof (cases r)
    case (Inr b)
    then show ?thesis
      using Cons.IH [of "if b then s + 1 else s" e1] Cons.IH [of "if b then 0 + 1 else 0" e1] r
      by (auto simp: and_then_def split: prod.splits sum.splits)
  qed (simp add: r and_then_def)
qed simp

lemma remove_list_append:
  "remove_list env n skip (xs @ ys) s e = and_then (remove_list env n skip xs s e) (\<lambda>e s. remove_list env n skip ys s e)"
  by (induction xs arbitrary: s e) (auto simp: and_then_def split: prod.split sum.split)

lemma remove_list_split:
  assumes "remove_list env n skip (xs @ ys) 0 e = (e', Inr k)"
  obtains e1 k1 k2 where "remove_list env n skip xs 0 e = (e1, Inr k1)" "remove_list env n skip ys 0 e1 = (e', Inr k2)" "k = k1 + k2"
proof -
  obtain e1 r where r: "remove_list env n skip xs 0 e = (e1, r)"
    by fastforce
  from assms r obtain k1 where k1: "r = Inr k1" "remove_list env n skip ys k1 e1 = (e', Inr k)"
    by (auto simp: remove_list_append and_then_def split: sum.splits)
  then obtain k2 where "remove_list env n skip ys 0 e1 = (e', Inr k2)" "k = k1 + k2"
    unfolding remove_list_count [of env n skip ys k1 e1] by (auto split: prod.splits sum.splits)
  with r k1(1) show ?thesis
    using that by blast
qed

lemma batch_split:
  "drop (tm_batch tm * tm_size tm) (tm_ids tm) = removal_batch tm @ drop (tm_batch (next_timer tm) * tm_size tm) (tm_ids tm)"
  unfolding removal_batch_def next_timer_def
  by (simp add: add.commute) (metis append_take_drop_id drop_drop add.commute)

lemma run_timers_all:
  "remove_list env (tm_language tm) (tm_skipHooks tm) (drop (tm_batch tm * tm_size tm) (tm_ids tm)) 0 e = (e', Inr k) \<Longrightarrow>
   0 < tm_size tm \<Longrightarrow> run_timers env tm e = e'"
proof (induction env tm e arbitrary: k rule: run_timers.induct)
  case (1 env tm e)
  show ?case
  proof (cases "removal_batch tm = []")
    case True
    then have "drop (tm_batch tm * tm_size tm) (tm_ids tm) = []"
      using 1(3) by (auto simp: removal_batch_def)
    then show ?thesis
      using 1(2) True by (subst run_timers.simps) simp
  next
    case False
    obtain e1 k1 k2 where 2: "remove_list env (tm_language tm) (tm_skipHooks tm) (removal_batch tm) 0 e = (e1, Inr k1)"
      "remove_list env (tm_language tm) (tm_skipHooks tm) (drop (tm_batch (next_timer tm) * tm_size tm) (tm_ids tm)) 0 e1 = (e', Inr k2)"
      using remove_list_split 1(2) [unfolded batch_split] by metis
    have step: "remove_step env tm 0 e = ((e1, Inr k1), Some (next_timer tm))"
      by (simp add: remove_step_def False 2(1))
    have "run_timers env (next_timer tm) e1 = e'"
    proof (rule 1(1) [OF False step [symmetric]])
      show "remove_list env (tm_language (next_timer tm)) (tm_skipHooks (next_timer tm))
          (drop (tm_batch (next_timer tm) * tm_size (next_timer tm)) (tm_ids (next_timer tm))) 0 e1 = (e', Inr k2)"
        using 2(2) by (simp add: next_timer_def)
      show "0 < tm_size (next_timer tm)"
        using 1(3) by (simp add: next_timer_def)
    qed simp_all
    then show ?thesis
      using False step by (subst run_timers.simps) simp
  qed
qed

subsection \<open>Save and load\<close>

lemma parse_digits_toString [simp]: "parse_digits (nat_toString n) = n"
proof (induction n rule: nat_toString.induct)
  case (1 n)
  then show ?case
    by (subst nat_toString.simps) (auto simp: parse_digits_def)
qed

definition sorter_ok :: "sorter \<Rightarrow> bool" where
  "sorter_ok so = (if so_enabled so then list_all (\<lambda>(k, n). wf_map (se_docs n)) (sorts so) else so = sorter_disabled)"

lemma positions_wf: "wf_map m \<Longrightarrow> wf_map (positions xs k m)"
  by (induction xs arbitrary: k m) (auto simp: positions_Cons, simp add: positions_def)

text \<open>What saving writes is what the sorter holds after saving.\<close>

lemma sorter_json:
  assumes "sorter_ok so"
  shows "sorter_load (snd (sorter_save env so)) = fst (sorter_save env so)"
proof (cases "so_enabled so")
  case False
  with assms show ?thesis
    by (simp add: sorter_save_def sorter_load_def sorter_ok_def)
next
  case True
  let ?p = "so\<lparr>sorts := map (\<lambda>(k, n). (k, entry_purge n)) (sorts so)\<rparr>"
  let ?e = "ensureIsSorted env ?p"
  have pure: "se_orderedDocsToRemove (entry_purge n) = []" "se_docs (entry_purge n) = se_docs n" for n
    by (simp_all add: entry_purge_def)
  have sorted: "se_orderedDocsToRemove (entry_sort cmp n) = se_orderedDocsToRemove n" for cmp n
    by (simp add: entry_sort_def Let_def)
  have "list_all (\<lambda>(k, n). wf_map (se_docs n) \<and> se_orderedDocsToRemove n = []) (sorts ?p)"
    using assms True by (auto simp: sorter_ok_def list_all_iff pure)
  then have ok: "list_all (\<lambda>(k, n). wf_map (se_docs n) \<and> se_orderedDocsToRemove n = []) (sorts ?e)"
    by (auto simp: ensureIsSorted_def list_all_iff entry_sort_docs positions_wf sorted)
  have "map (\<lambda>(k, s). (k, \<lparr>se_docs = map_spread [] (map (\<lambda>(d, i). (js_number d, i)) (sj_docs s)),
             se_orderedDocsToRemove = [], se_orderedDocs = sj_orderedDocs s, se_type = sj_type s\<rparr>))
          (map (\<lambda>(k, n). (k, \<lparr>sj_docs = map (\<lambda>(d, i). (nat_toString d, i)) (se_docs n),
                  sj_orderedDocs = se_orderedDocs n, sj_type = se_type n\<rparr>)) ss) = ss"
    if "list_all (\<lambda>(k, n). wf_map (se_docs n) \<and> se_orderedDocsToRemove n = []) ss" for ss
    using that
    by (induction ss) (auto simp: js_number_def o_def split_beta wf_map_def map_spread_new)
  from this [OF ok] have "sorter_load (Some (?e\<lparr>sorts := []\<rparr>,
       map (\<lambda>(k, n). (k, \<lparr>sj_docs = map (\<lambda>(d, i). (nat_toString d, i)) (se_docs n),
                  sj_orderedDocs = se_orderedDocs n, sj_type = se_type n\<rparr>)) (sorts ?e))) = ?e\<lparr>so_enabled := True\<rparr>"
    by (simp add: sorter_load_def)
  moreover have "so_enabled ?e"
    using True by (simp add: ensureIsSorted_def)
  ultimately show ?thesis
    using True by (simp add: sorter_save_def Let_def)
qed

lemma add_searchable_inv: "index_inv (add_searchable n i t) = index_inv t"
  by (simp add: index_inv_def node_of_def add_searchable_def tables_ok_def)

subsection \<open>Properties\<close>

text \<open>
  C13: Removing a stored document either succeeds and takes exactly that document out of the store, with
  the count one less and every number of a document as it was, or fails and leaves the store as it was.
\<close>

theorem remove_doc_drops:
  assumes "db_ok e" "extern_id (db_ids e) l = Some a" "map_get (docs (db_docs e)) l = Some d" "js_truthy d"
    and "remove_doc env n skip (IdString a) e = (e', r)"
  shows "db_ok e' \<and> ((\<exists>b. r = Inr b) \<and> dropped l e e' \<or> (\<exists>y. r = Inl y) \<and> same_docs e e')"
proof -
  have k: "knows e a l"
    using assms(1,2) by (simp add: knows_def db_ok_def)
  have "(\<exists>b. r = Inr b) \<and> dropped l e e' \<or> (\<exists>y. r = Inl y) \<and> same_docs e e'"
    using remove_stored_dropped [OF k assms(3)] assms(5) remove_doc_known [OF k assms(3,4)] by metis
  with dropped_ok [OF assms(1)] same_docs_ok assms(1,3) show ?thesis
    by auto
qed

definition two_doc_db :: db where
  "two_doc_db = fst (insertMultiple_sync plain_env (plain_insert None) None [title_doc ''a'' ''Fast jobs'', title_doc ''b'' ''Slow jobs''] title_db)"

definition one_doc_db :: db where
  "one_doc_db =
     title_db\<lparr>db_ids := \<lparr>idToInternalId = [(js ''a'', 1)], internalIdToId = [js ''a'']\<rparr>,
              db_docs := \<lparr>docs = [(1, title_doc ''a'' ''Fast jobs'')], doc_count = 1\<rparr>\<rparr>"

lemma one_doc_db_ok:
  "db_ok one_doc_db" "extern_id (db_ids one_doc_db) 1 = Some (js ''a'')"
  "map_get (docs (db_docs one_doc_db)) 1 = Some (title_doc ''a'' ''Fast jobs'')" "js_truthy (title_doc ''a'' ''Fast jobs'')"
  by (simp_all add: one_doc_db_def db_ok_def ids_ok_def docs_ok_def wf_map_def extern_id_def getDocumentIdFromInternalId_def
      js_truthy_def title_doc_def)

theorem remove_doc_drops_witness:
  "\<exists>e'. remove_doc plain_env None False (IdString (js ''a'')) one_doc_db = (e', Inr True) \<and> db_ok e' \<and> dropped 1 one_doc_db e'"
proof -
  have "snd (remove_doc plain_env None False (IdString (js ''a'')) one_doc_db) = Inr True"
    by code_simp
  then obtain e' where e': "remove_doc plain_env None False (IdString (js ''a'')) one_doc_db = (e', Inr True)"
    by (metis prod.collapse)
  with remove_doc_drops [OF one_doc_db_ok this] show ?thesis
    by blast
qed

text \<open>
  C39: An update with a document that does not fit the schema removes the old document first and fails
  then: the old document is lost and nothing takes its place.
\<close>

theorem update_invalid_loses_document:
  assumes "db_ok e" "extern_id (db_ids e) l = Some a" "map_get (docs (db_docs e)) l = Some d" "js_truthy d"
    and "validateSchema n (db_schema e) = Inr (Some (c # p))" "remove_doc env r True (IdString a) e = (e1, Inr b)"
  shows "update_doc env r True (IdString a) n e = (e1, Inl (JsError (js ''SCHEMA_VALIDATION_FAILURE''))) \<and>
    dropped l e e1 \<and> map_get (docs (db_docs e1)) l = None"
proof -
  have k: "knows e a l"
    using assms(1,2) by (simp add: knows_def db_ok_def)
  have d: "dropped l e e1"
    using remove_stored_dropped [OF k assms(3)] assms(6) remove_doc_known [OF k assms(3,4)] by fastforce
  then have "insert_doc env io n e1 = (e1, Inl (JsError (js ''SCHEMA_VALIDATION_FAILURE'')))" for io
    using assms(5) by (simp add: insert_doc_def dropped_def)
  then have "update_doc env r True (IdString a) n e = (e1, Inl (JsError (js ''SCHEMA_VALIDATION_FAILURE'')))"
    by (simp add: update_doc_def hook_unless_def assms(6) and_then_def)
  with d show ?thesis
    by (simp add: dropped_def)
qed

theorem update_invalid_loses_document_witness:
  "\<exists>e1. update_doc plain_env None True (IdString (js ''a'')) (JObj [(js ''title'', JNum 3)]) one_doc_db =
     (e1, Inl (JsError (js ''SCHEMA_VALIDATION_FAILURE''))) \<and> map_get (docs (db_docs e1)) 1 = None"
proof -
  have v: "validateSchema (JObj [(js ''title'', JNum 3)]) (db_schema one_doc_db) = Inr (Some (116 # js ''itle''))"
    by code_simp
  have "snd (remove_doc plain_env None True (IdString (js ''a'')) one_doc_db) = Inr True"
    by code_simp
  then obtain e1 where e1: "remove_doc plain_env None True (IdString (js ''a'')) one_doc_db = (e1, Inr True)"
    by (metis prod.collapse)
  from update_invalid_loses_document [OF one_doc_db_ok v e1] show ?thesis
    by blast
qed

text \<open>
  C16: The removal of many documents without async hooks returns when its first batch is removed, and
  counts that batch only. The timer it leaves, and those set after it, remove every other document: the
  database ends as if all had been removed one after the other.
\<close>

theorem removeMultiple_timers:
  assumes "remove_list env r True t 0 e = (e', Inr s)"
  shows "\<exists>e1 s1 tm. removeMultiple_sync env n r True t e = ((e1, Inr s1), tm) \<and>
    remove_list env r True (take (batch_size n) t) 0 e = (e1, Inr s1) \<and>
    (case tm of None \<Rightarrow> t = [] \<and> e1 = e' | Some tm \<Rightarrow> run_timers env tm e1 = e')"
proof -
  let ?tm = "removal_timer n r True t"
  have size: "0 < batch_size n"
    by (simp add: batch_size_def split: option.split nat.split)
  have b: "removal_batch ?tm = take (batch_size n) t"
    by (simp add: removal_batch_def removal_timer_def)
  obtain e1 s1 s2 where 1: "remove_list env r True (take (batch_size n) t) 0 e = (e1, Inr s1)"
    "remove_list env r True (drop (batch_size n) t) 0 e1 = (e', Inr s2)"
    using remove_list_split [of env r True "take (batch_size n) t" "drop (batch_size n) t" e e' s] assms
    unfolding append_take_drop_id by metis
  show ?thesis
  proof (cases "t = []")
    case True
    then have "removal_batch ?tm = []"
      unfolding b by simp
    with True show ?thesis
      using assms by (simp add: removeMultiple_sync_def announce_removals_def remove_step_def finish_removals_def and_then_def)
  next
    case False
    then have "take (batch_size n) t \<noteq> []"
      using size by (cases t; cases "batch_size n") auto
    then have "removeMultiple_sync env n r True t e = ((e1, Inr s1), Some (next_timer ?tm))"
      using 1(1) by (simp add: removeMultiple_sync_def announce_removals_def remove_step_def b finish_removals_def and_then_def)
        (simp add: removal_timer_def)
    moreover have "run_timers env (next_timer ?tm) e1 = e'"
      using 1(2) size by (intro run_timers_all [of env "next_timer ?tm" e1 e' s2]) (simp_all add: next_timer_def removal_timer_def)
    ultimately show ?thesis
      using 1(1) by simp
  qed
qed

theorem removeMultiple_timers_witness:
  "\<exists>e1 s1 tm. removeMultiple_sync plain_env (Some 1) None True [IdString (js ''a''), IdString (js ''b'')] two_doc_db = ((e1, Inr s1), tm) \<and>
     remove_list plain_env None True [IdString (js ''a'')] 0 two_doc_db = (e1, Inr s1)"
proof -
  have "snd (remove_list plain_env None True [IdString (js ''a''), IdString (js ''b'')] 0 two_doc_db) = Inr 2"
    by code_simp
  then obtain e' where e': "remove_list plain_env None True [IdString (js ''a''), IdString (js ''b'')] 0 two_doc_db = (e', Inr 2)"
    by (metis prod.collapse)
  have "take (batch_size (Some 1)) [IdString (js ''a''), IdString (js ''b'')] = [IdString (js ''a'')]"
    by (simp add: batch_size_def)
  with removeMultiple_timers [OF e', of "Some 1"] show ?thesis
    by (metis (no_types, lifting))
qed

text \<open>
  An update of more documents than the batch size inserts the new documents while the timers still
  have old ones to remove: it fails because such a document exists, although it is one to be replaced.
\<close>

theorem updateMultiple_before_removal:
  "case updateMultiple plain_env (Some 1) None True [IdString (js ''a''), IdString (js ''b'')]
      [title_doc ''a'' ''New jobs'', title_doc ''b'' ''Newer jobs''] two_doc_db of
     Some ((e, r), tm) \<Rightarrow> r = Inl (JsError (js ''DOCUMENT_ALREADY_EXISTS'')) \<and> tm \<noteq> None
   | None \<Rightarrow> False"
  by code_simp



end
