(* ===== verification/Orama_Session.thy ===== *)
theory Orama_Session
  imports Orama_Engine
begin

text \<open>
  The answer session of \<^verbatim>\<open>assets/js/orama/orama.js\<close> (class \<^verbatim>\<open>Fn\<close>): a
  conversation about a database, in which every question is searched and then answered by a chat
  service. The service is a parameter: for a model and the messages so far it gives the pieces of the
  answer and the failure it ends with, if any. The random digits of an id are a parameter too. The
  stream of an answer is read to its end. An error is kept as a value in place of its text.
\<close>

subsection \<open>State\<close>

record message =
  m_role :: jsstring
  m_content :: jsstring

datatype failure = Aborted | SearchError jserror | StreamError jsstring

record interaction =
  ia_id :: jsstring
  ia_aborted :: bool
  ia_loading :: bool
  ia_query :: jsstring
  ia_response :: jsstring
  ia_sources :: "search_result option"
  ia_error :: bool
  ia_errorMessage :: "failure option"

record session_config =
  sc_systemPrompt :: "jsstring option"
  sc_initialMessages :: "message list option"
  sc_onStateChange :: bool
  sc_conversationID :: "jsstring option"

record session =
  ss_db :: db
  ss_config :: session_config
  ss_lastInteractionParams :: "search_params option"
  ss_chatModel :: "jsstring option"
  ss_conversationID :: jsstring
  ss_messages :: "message list"
  ss_state :: "interaction list"
  ss_changes :: "interaction list list"

type_synonym chat_stream = "jsstring \<Rightarrow> message list \<Rightarrow> jsstring list \<times> failure option"

type_synonym 'a session_result = "session \<times> 'a jsresult"

subsection \<open>Operations\<close>

definition generateRandomID :: "nat list \<Rightarrow> jsstring" where
  "generateRandomID ds = map (\<lambda>d. if d < 10 then 48 + d else 87 + d) ds"

definition session_new :: "db \<Rightarrow> session_config \<Rightarrow> nat list \<Rightarrow> session" where
  "session_new e t ds =
     \<lparr>ss_db = e, ss_config = t, ss_lastInteractionParams = None, ss_chatModel = None,
      ss_conversationID = (let c = or_default (sc_conversationID t) [] in if c = [] then generateRandomID ds else c),
      ss_messages = or_default (sc_initialMessages t) [], ss_state = [], ss_changes = []\<rparr>"

definition triggerStateChange :: "session \<Rightarrow> session" where
  "triggerStateChange s =
     (if sc_onStateChange (ss_config s) then s\<lparr>ss_changes := ss_changes s @ [ss_state s]\<rparr> else s)"

text \<open>What a plugin carries for the session: None without it, else the chat model, if it names one.\<close>

type_synonym plugin_extra = "plugin \<Rightarrow> jsstring option option"

definition session_init :: "plugin_extra \<Rightarrow> session \<Rightarrow> unit session_result" where
  "session_init extra s =
     (case find (\<lambda>p. pl_name p = js ''orama-secure-proxy'') (db_plugins (ss_db s)) of
        None \<Rightarrow> (s, Inl (JsError (js ''PLUGIN_SECURE_PROXY_NOT_FOUND'')))
      | Some t \<Rightarrow>
          (case extra t of
             None \<Rightarrow> (s, Inl TypeError)
           | Some model \<Rightarrow>
               (let prompt = or_default (sc_systemPrompt (ss_config s)) [];
                    s = (if prompt = [] then s
                         else s\<lparr>ss_messages := ss_messages s @ [\<lparr>m_role = js ''system'', m_content = prompt\<rparr>]\<rparr>)
                in if or_default model [] = [] then (s, Inl (JsError (js ''PLUGIN_SECURE_PROXY_MISSING_CHAT_MODEL'')))
                   else (s\<lparr>ss_chatModel := model\<rparr>, Inr ()))))"

definition addEmptyAssistantMessage :: "session \<Rightarrow> session" where
  "addEmptyAssistantMessage s = s\<lparr>ss_messages := ss_messages s @ [\<lparr>m_role = js ''assistant'', m_content = []\<rparr>]\<rparr>"

definition on_interaction :: "nat \<Rightarrow> (interaction \<Rightarrow> interaction) \<Rightarrow> session \<Rightarrow> session" where
  "on_interaction n f s = s\<lparr>ss_state := (ss_state s)[n := f (ss_state s ! n)]\<rparr>"

fun append_last :: "jsstring \<Rightarrow> message list \<Rightarrow> message list option" where
  "append_last e [] = None"
| "append_last e (m # ms) =
     (case append_last e ms of
        Some ms \<Rightarrow> Some (m # ms)
      | None \<Rightarrow> if m_role m = js ''assistant'' then Some (m\<lparr>m_content := m_content m @ e\<rparr> # ms) else None)"

definition add_piece :: "nat \<Rightarrow> session \<Rightarrow> jsstring \<Rightarrow> session" where
  "add_piece n s e =
     (let s = on_interaction n (\<lambda>i. i\<lparr>ia_response := ia_response i @ e\<rparr>) s
      in triggerStateChange (s\<lparr>ss_messages := (case append_last e (ss_messages s) of None \<Rightarrow> ss_messages s | Some ms \<Rightarrow> ms)\<rparr>))"

definition record_failure :: "nat \<Rightarrow> failure \<Rightarrow> session \<Rightarrow> session" where
  "record_failure n x s =
     triggerStateChange (on_interaction n (\<lambda>i.
       if x = Aborted then i\<lparr>ia_aborted := True\<rparr> else i\<lparr>ia_error := True, ia_errorMessage := Some x\<rparr>) s)"

definition ask_question :: "jsstring \<Rightarrow> search_params \<Rightarrow> session \<Rightarrow> session" where
  "ask_question t e s =
     (let q = or_default (sp_term e) [];
          s = s\<lparr>ss_lastInteractionParams := Some e,
                ss_messages := ss_messages s @ [\<lparr>m_role = js ''user'', m_content = q\<rparr>],
                ss_state := ss_state s @ [\<lparr>ia_id = t, ia_aborted = False, ia_loading = True, ia_query = q, ia_response = [],
                  ia_sources = None, ia_error = False, ia_errorMessage = None\<rparr>]\<rparr>
      in triggerStateChange (addEmptyAssistantMessage s))"

definition answer_question ::
    "engine_env \<Rightarrow> chat_stream \<Rightarrow> jsstring \<Rightarrow> search_params \<Rightarrow> nat \<Rightarrow> session \<Rightarrow> session \<times> jsstring list" where
  "answer_question env chat model e n s =
     (case search env None e (ss_db s) of
        (d, Inl x) \<Rightarrow> (record_failure n (SearchError x) (s\<lparr>ss_db := d\<rparr>), [])
      | (d, Inr t) \<Rightarrow>
          (let s = triggerStateChange (on_interaction n (\<lambda>i. i\<lparr>ia_sources := Some t\<rparr>) (s\<lparr>ss_db := d\<rparr>));
               (pieces, x) = chat model (ss_messages s);
               s = foldl (add_piece n) s pieces
           in (case x of None \<Rightarrow> s | Some x \<Rightarrow> record_failure n x s, pieces)))"

text \<open>The pieces it yields; the value it returns at its end is not among them.\<close>

definition fetchAnswer ::
    "engine_env \<Rightarrow> chat_stream \<Rightarrow> nat list \<Rightarrow> search_params \<Rightarrow> session \<Rightarrow> jsstring list session_result" where
  "fetchAnswer env chat ds e s =
     (let model = or_default (ss_chatModel s) []
      in if model = [] then (s, Inl (JsError (js ''PLUGIN_SECURE_PROXY_MISSING_CHAT_MODEL'')))
         else
           (let s = ask_question (generateRandomID ds) e s; n = length (ss_state s) - 1;
                (s, pieces) = answer_question env chat model e n s
            in (triggerStateChange (on_interaction n (\<lambda>i. i\<lparr>ia_loading := False\<rparr>) s), Inr pieces)))"

definition ask :: "engine_env \<Rightarrow> chat_stream \<Rightarrow> nat list \<Rightarrow> search_params \<Rightarrow> session \<Rightarrow> jsstring session_result" where
  "ask env chat ds e s =
     (case fetchAnswer env chat ds e s of (s, Inl x) \<Rightarrow> (s, Inl x) | (s, Inr pieces) \<Rightarrow> (s, Inr (concat pieces)))"

definition abortAnswer :: "session \<Rightarrow> unit session_result" where
  "abortAnswer s =
     (if ss_state s = [] then (s, Inl TypeError)
      else (triggerStateChange (on_interaction (length (ss_state s) - 1) (\<lambda>i. i\<lparr>ia_aborted := True\<rparr>) s), Inr ()))"

definition getMessages :: "session \<Rightarrow> message list" where
  "getMessages s = ss_messages s"

definition clearSession :: "session \<Rightarrow> session" where
  "clearSession s = s\<lparr>ss_messages := [], ss_state := []\<rparr>"

definition regenerateLast :: "engine_env \<Rightarrow> chat_stream \<Rightarrow> nat list \<Rightarrow> session \<Rightarrow> jsstring session_result" where
  "regenerateLast env chat ds s =
     (if ss_state s = [] \<or> ss_messages s = [] then (s, Inl (JsError (js ''No messages to regenerate'')))
      else if m_role (last (ss_messages s)) \<noteq> js ''assistant''
      then (s, Inl (JsError (js ''ANSWER_SESSION_LAST_MESSAGE_IS_NOT_ASSISTANT'')))
      else
        (let s = s\<lparr>ss_messages := butlast (ss_messages s), ss_state := butlast (ss_state s)\<rparr>
         in case ss_lastInteractionParams s of
              None \<Rightarrow> if or_default (ss_chatModel s) [] = [] then (s, Inl (JsError (js ''PLUGIN_SECURE_PROXY_MISSING_CHAT_MODEL'')))
                      else (s, Inl TypeError)
            | Some e \<Rightarrow> ask env chat ds e s))"

subsection \<open>An answer\<close>

lemma triggerStateChange_simps [simp]:
  "ss_state (triggerStateChange s) = ss_state s" "ss_messages (triggerStateChange s) = ss_messages s"
  "ss_db (triggerStateChange s) = ss_db s" "ss_lastInteractionParams (triggerStateChange s) = ss_lastInteractionParams s"
  "ss_chatModel (triggerStateChange s) = ss_chatModel s"
  by (simp_all add: triggerStateChange_def)

lemma on_interaction_simps [simp]:
  "ss_messages (on_interaction n f s) = ss_messages s" "ss_state (on_interaction n f s) = (ss_state s)[n := f (ss_state s ! n)]"
  "ss_lastInteractionParams (on_interaction n f s) = ss_lastInteractionParams s" "ss_chatModel (on_interaction n f s) = ss_chatModel s"
  by (simp_all add: on_interaction_def)

lemma append_last_snoc:
  "m_role m = js ''assistant'' \<Longrightarrow> append_last e (ms @ [m]) = Some (ms @ [m\<lparr>m_content := m_content m @ e\<rparr>])"
  by (induction ms) simp_all

text \<open>The interaction at the end of the state, and the message the answer is written to.\<close>

definition answering :: "session \<Rightarrow> interaction list \<Rightarrow> interaction \<Rightarrow> message list \<Rightarrow> jsstring \<Rightarrow> bool" where
  "answering s is i ms c = (ss_state s = is @ [i] \<and> ss_messages s = ms @ [\<lparr>m_role = js ''assistant'', m_content = c\<rparr>])"

lemma add_piece_answering:
  "answering s is i ms c \<Longrightarrow> answering (add_piece (length is) s e) is (i\<lparr>ia_response := ia_response i @ e\<rparr>) ms (c @ e)"
  by (simp add: answering_def add_piece_def Let_def append_last_snoc)

lemma add_pieces_answering:
  "answering s is i ms c \<Longrightarrow>
   answering (foldl (add_piece (length is)) s pieces) is (i\<lparr>ia_response := ia_response i @ concat pieces\<rparr>) ms (c @ concat pieces)"
proof (induction pieces arbitrary: s i c)
  case (Cons e pieces)
  from Cons.IH [OF add_piece_answering [OF Cons.prems, of e]] show ?case
    by simp
qed simp

lemma ask_question_answering:
  "answering (ask_question t e s) (ss_state s)
     \<lparr>ia_id = t, ia_aborted = False, ia_loading = True, ia_query = or_default (sp_term e) [], ia_response = [],
      ia_sources = None, ia_error = False, ia_errorMessage = None\<rparr>
     (ss_messages s @ [\<lparr>m_role = js ''user'', m_content = or_default (sp_term e) []\<rparr>]) []"
  "ss_db (ask_question t e s) = ss_db s"
  by (simp_all add: ask_question_def addEmptyAssistantMessage_def answering_def Let_def)

lemma ask_effect:
  assumes "or_default (ss_chatModel s) [] \<noteq> []" "search env None e (ss_db s) = (d, Inr t)"
    and "\<And>ms. chat (or_default (ss_chatModel s) []) ms = (pieces, None)"
  shows "\<exists>s'. ask env chat ds e s = (s', Inr (concat pieces)) \<and>
    ss_messages s' = ss_messages s @ [\<lparr>m_role = js ''user'', m_content = or_default (sp_term e) []\<rparr>,
      \<lparr>m_role = js ''assistant'', m_content = concat pieces\<rparr>] \<and>
    ss_state s' = ss_state s @ [\<lparr>ia_id = generateRandomID ds, ia_aborted = False, ia_loading = False,
      ia_query = or_default (sp_term e) [], ia_response = concat pieces, ia_sources = Some t, ia_error = False, ia_errorMessage = None\<rparr>]"
proof -
  let ?i = "\<lparr>ia_id = generateRandomID ds, ia_aborted = False, ia_loading = True, ia_query = or_default (sp_term e) [],
    ia_response = [], ia_sources = None, ia_error = False, ia_errorMessage = None\<rparr>"
  let ?s1 = "ask_question (generateRandomID ds) e s"
  let ?n = "length (ss_state s)"
  let ?s2 = "triggerStateChange (on_interaction ?n (\<lambda>i. i\<lparr>ia_sources := Some t\<rparr>) (?s1\<lparr>ss_db := d\<rparr>))"
  let ?s3 = "foldl (add_piece ?n) ?s2 pieces"
  note a1 = ask_question_answering(1) [of "generateRandomID ds" e s]
  have n: "length (ss_state ?s1) - 1 = ?n"
    using a1 by (simp add: answering_def)
  have "answering ?s2 (ss_state s) (?i\<lparr>ia_sources := Some t\<rparr>) (ss_messages s @ [\<lparr>m_role = js ''user'', m_content = or_default (sp_term e) []\<rparr>]) []"
    using a1 by (simp add: answering_def)
  from add_pieces_answering [OF this, of pieces] have a3: "answering ?s3 (ss_state s) (?i\<lparr>ia_sources := Some t, ia_response := concat pieces\<rparr>)
      (ss_messages s @ [\<lparr>m_role = js ''user'', m_content = or_default (sp_term e) []\<rparr>]) (concat pieces)"
    by simp
  have "answer_question env chat (or_default (ss_chatModel s) []) e ?n ?s1 = (?s3, pieces)"
    using assms(2,3) by (simp add: answer_question_def ask_question_answering(2) Let_def)
  then have "fetchAnswer env chat ds e s = (triggerStateChange (on_interaction ?n (\<lambda>i. i\<lparr>ia_loading := False\<rparr>) ?s3), Inr pieces)"
    unfolding fetchAnswer_def Let_def n using assms(1) by simp
  then show ?thesis
    using a3 by (simp add: ask_def answering_def)
qed

subsection \<open>Properties\<close>


text \<open>A session over the database of one text field, with a service that answers yes.\<close>

definition chat_session :: session where
  "chat_session =
     (session_new title_db \<lparr>sc_systemPrompt = None, sc_initialMessages = None, sc_onStateChange = False, sc_conversationID = None\<rparr> [1])
       \<lparr>ss_chatModel := Some (js ''m'')\<rparr>"

definition chat_yes :: chat_stream where
  "chat_yes model ms = ([js ''ye'', js ''s''], None)"

definition all_documents :: search_params where
  "all_documents = (site_search [])\<lparr>sp_properties := None\<rparr>"

lemma all_documents_search:
  obtains d t where "search plain_env None all_documents (ss_db chat_session) = (d, Inr t)"
proof -
  have h: "hooks_of title_db (js ''beforeSearch'') = []" "hooks_of title_db (js ''afterSearch'') = []"
    by code_simp+
  have m: "or_default (sp_mode all_documents) (js ''fulltext'') = js ''fulltext''"
    by (simp add: all_documents_def site_search_def or_default_def)
  have "\<not> isl (string_properties (db_index title_db))"
    by code_simp
  then obtain i where i: "string_properties (db_index title_db) = Inr i"
    by (cases "string_properties (db_index title_db)") auto
  let ?e = "title_db\<lparr>db_propertiesToSearch := Some i\<rparr>"
  have "innerFullTextSearch plain_env None all_documents title_db = (?e, Inr [])"
    using i by (simp add: innerFullTextSearch_def properties_cached_def all_documents_def site_search_def title_db_def
        chosen_properties_def where_filter_def or_default_def and_then_def docs_create_def docs_getAll_def map_keys_def)
  moreover have "db_ok ?e"
    using title_db_ok by (simp add: db_ok_def)
  moreover have "plain_search all_documents"
    by (simp add: plain_search_def all_documents_def site_search_def or_default_def)
  moreover have "vectorIndexes (db_index title_db) = []"
    by code_simp
  ultimately have "fullTextSearch_run plain_env None all_documents title_db = (?e, Inr (results_page all_documents ?e []))"
    by (intro fullTextSearch_run_page) simp_all
  then have "search plain_env None all_documents title_db = (?e, Inr (results_page all_documents ?e []))"
    using h m by (simp add: search_def fullTextSearch_def with_search_hooks_def)
  then show ?thesis
    by (intro that) (simp add: chat_session_def session_new_def)
qed




end
