(* ===== verification/Lunr_Adapter.thy ===== *)
theory Lunr_Adapter
  imports Orama_Util
begin

text \<open>
  The adapter of the alternative search engine (\<^verbatim>\<open>assets/js/search-lunr.js\<close>): set-up of the index and
  the search. The engine \<^verbatim>\<open>lunr\<close> is a minified library and a parameter: its tokenizer, the
  index it builds from the fields and pages it is given, and what a query finds, a result being the
  reference of a page and the terms that matched.
\<close>

subsection \<open>Set-up\<close>

record lunr_result =
  lr_ref :: nat
  lr_terms :: "jsstring list"

type_synonym lunr_index = "jsstring \<Rightarrow> lunr_result list"

text \<open>What the set-up tells the engine: languages, the reference, the fields with their boosts, and whether the
  stemmer is in the pipelines of indexing and of searching.\<close>

record lunr_config =
  lc_languages :: "jsstring list"
  lc_ref :: jsstring
  lc_fields :: "(jsstring \<times> nat) list"
  lc_stemmer :: bool
  lc_searchStemmer :: bool

record lunr =
  ln_tokenizer :: "jsstring \<Rightarrow> jsstring list"
  ln_build :: "lunr_config \<Rightarrow> jsval list \<Rightarrow> lunr_index"

record lunr_state =
  lunrIndex :: "lunr_index option"
  pagesIndex :: "jsval list"

definition number_page :: "jsval \<Rightarrow> nat \<Rightarrow> jsval" where
  "number_page page idx = (case page of JObj kvs \<Rightarrow> JObj (map_set (js ''index'') (JNum (of_nat idx)) kvs) | _ \<Rightarrow> page)"

definition site_config :: "jsstring list \<Rightarrow> lunr_config" where
  "site_config langs =
     \<lparr>lc_languages = langs, lc_ref = js ''index'', lc_fields = [(js ''title'', 15), (js ''tags'', 10), (js ''content'', 5)],
      lc_stemmer = False, lc_searchStemmer = False\<rparr>"

definition initIndex :: "lunr option \<Rightarrow> jsstring list \<Rightarrow> jsval list \<Rightarrow> lunr_state \<Rightarrow> lunr_state" where
  "initIndex eng langs index st =
     (case eng of
        None \<Rightarrow> st
      | Some l \<Rightarrow>
          (let pages = map2 number_page index [0..<length index]
           in \<lparr>lunrIndex = Some (ln_build l (site_config langs) pages), pagesIndex = pages\<rparr>))"

subsection \<open>Search\<close>

definition typo_table :: "(int \<times> nat) list" where
  "typo_table = [(-1, 1), (60, 2), (40, 3), (20, 4), (16, 3), (12, 2), (8, 1), (4, 0)]"

definition allowed_typos :: "jsstring \<Rightarrow> nat" where
  "allowed_typos word = snd (foldl (\<lambda>a c. if int (length word) < fst c then c else a) (hd typo_table) (tl typo_table))"

definition searchPatterns :: "jsstring \<Rightarrow> jsstring list" where
  "searchPatterns word =
     [word @ js ''^100'', word @ js ''*^10'', js ''*'' @ word @ js ''^10'',
      word @ js ''~'' @ nat_toString (allowed_typos word) @ js ''^1'']"

definition special_chars :: "jschar list" where
  "special_chars = js ''*:^~+-''"

definition clean_term :: "jsstring \<Rightarrow> jsstring" where
  "clean_term t = map (\<lambda>c. if c \<in> set special_chars then 32 else c) t"

fun join_spaces :: "jsstring list \<Rightarrow> jsstring" where
  "join_spaces [] = []"
| "join_spaces [w] = w"
| "join_spaces (w # ws) = w @ [32] @ join_spaces ws"

definition search_query :: "lunr \<Rightarrow> jsstring \<Rightarrow> jsstring" where
  "search_query l t = join_spaces (foldl (\<lambda>a tok. a @ searchPatterns tok) [] (ln_tokenizer l t))"

record lunr_match =
  lm_index :: nat
  lm_matches :: "jsstring list"
  lm_page :: "jsval option"

definition lunr_match_of :: "jsval list \<Rightarrow> jsstring \<Rightarrow> lunr_result \<Rightarrow> lunr_match" where
  "lunr_match_of pages t r =
     \<lparr>lm_index = lr_ref r, lm_matches = t # lr_terms r,
      lm_page = (if lr_ref r < length pages then Some (pages ! lr_ref r) else None)\<rparr>"

definition lunr_search :: "lunr option \<Rightarrow> lunr_state \<Rightarrow> jsstring \<Rightarrow> lunr_match list" where
  "lunr_search eng st t =
     (case eng of
        None \<Rightarrow> []
      | Some l \<Rightarrow>
          (let t = clean_term t; q = search_query l t
           in if q = [] then []
              else (case lunrIndex st of None \<Rightarrow> [] | Some ix \<Rightarrow> map (lunr_match_of (pagesIndex st) t) (ix q))))"

subsection \<open>Queries\<close>

lemma foldl_append_concat: "foldl (\<lambda>a x. a @ f x) a xs = a @ concat (map f xs)"
  by (induction xs arbitrary: a) simp_all

lemma split_word: "32 \<notin> set w \<Longrightarrow> js_split_on 32 acc (w @ 32 # rest) = (acc @ w) # js_split_on 32 [] rest"
  by (induction w arbitrary: acc) auto

lemma split_last: "32 \<notin> set w \<Longrightarrow> js_split_on 32 acc w = [acc @ w]"
  by (induction w arbitrary: acc) auto

lemma split_join: "ws \<noteq> [] \<Longrightarrow> \<forall>w \<in> set ws. 32 \<notin> set w \<Longrightarrow> js_split_on 32 [] (join_spaces ws) = ws"
  by (induction ws rule: join_spaces.induct) (simp_all add: split_last split_word)

lemma nat_toString_digits: "c \<in> set (nat_toString n) \<Longrightarrow> 48 \<le> c \<and> c \<le> 57"
proof (induction n rule: nat_toString.induct)
  case (1 n)
  then show ?case
    by (subst (asm) nat_toString.simps) (auto split: if_splits)
qed

lemma pattern_spaces: "32 \<notin> set w \<Longrightarrow> p \<in> set (searchPatterns w) \<Longrightarrow> 32 \<notin> set p"
  using nat_toString_digits [of 32 "allowed_typos w"] by (auto simp: searchPatterns_def js_def)

lemma allowed_typos_cases:
  "allowed_typos w =
     (if length w < 4 then 0 else if length w < 8 then 1 else if length w < 12 then 2 else if length w < 16 then 3
      else if length w < 20 then 4 else if length w < 40 then 3 else if length w < 60 then 2 else 1)"
  by (simp add: allowed_typos_def typo_table_def)

subsection \<open>Properties\<close>

text \<open>
  C35: For a tokenizer whose tokens are free of spaces and special characters on texts that are free of special
  characters, the query of a search has exactly four clauses for every token of the cleaned text: the
  token, the token at the start and at the end of a word, and the token with as many typos as its
  length allows, at most 4. Every match is on a page of the index, under the number of the page, and
  names the cleaned text first.
\<close>

theorem lunr_search_clauses:
  assumes "\<And>t. set t \<inter> set special_chars = {} \<Longrightarrow> \<forall>w \<in> set (ln_tokenizer l t). set w \<inter> set (32 # special_chars) = {}"
    and "ln_tokenizer l (clean_term t) \<noteq> []" "\<And>r. r \<in> set (ln_build l (site_config langs) (map2 number_page pages [0..<length pages]) (search_query l (clean_term t))) \<Longrightarrow> lr_ref r < length pages"
  shows "js_split_on 32 [] (search_query l (clean_term t)) =
      concat (map (\<lambda>w. [w @ js ''^100'', w @ js ''*^10'', js ''*'' @ w @ js ''^10'', w @ js ''~'' @ nat_toString (allowed_typos w) @ js ''^1''])
        (ln_tokenizer l (clean_term t))) \<and>
    (\<forall>w. allowed_typos w \<le> 4 \<and> (length w < 4 \<longrightarrow> allowed_typos w = 0)) \<and>
    (\<forall>m \<in> set (lunr_search (Some l) (initIndex (Some l) langs pages st) t).
      lm_index m < length pages \<and> lm_page m = Some (number_page (pages ! lm_index m) (lm_index m)) \<and> hd (lm_matches m) = clean_term t)"
proof -
  let ?t = "clean_term t"
  let ?ps = "concat (map searchPatterns (ln_tokenizer l ?t))"
  have q: "search_query l ?t = join_spaces ?ps"
    by (simp add: search_query_def foldl_append_concat)
  have "set ?t \<inter> set special_chars = {}"
    by (auto simp: clean_term_def special_chars_def js_def)
  from assms(1) [OF this] have "\<forall>w \<in> set (ln_tokenizer l ?t). 32 \<notin> set w"
    by auto
  then have "\<forall>p \<in> set ?ps. 32 \<notin> set p"
    using pattern_spaces by fastforce
  moreover have "?ps \<noteq> []"
    using assms(2) by (cases "ln_tokenizer l ?t") (simp_all add: searchPatterns_def)
  ultimately have "js_split_on 32 [] (search_query l ?t) = ?ps"
    unfolding q by (rule split_join [rotated])
  moreover have "lm_index m < length pages \<and> lm_page m = Some (number_page (pages ! lm_index m) (lm_index m)) \<and> hd (lm_matches m) = ?t"
    if "m \<in> set (lunr_search (Some l) (initIndex (Some l) langs pages st) t)" for m
    using that assms(3) by (auto simp: lunr_search_def initIndex_def Let_def lunr_match_of_def split: if_splits)
  ultimately show ?thesis
    by (simp add: searchPatterns_def [abs_def] allowed_typos_cases)
qed

text \<open>An engine whose tokens are the words between spaces and that finds the first page.\<close>

definition word_lunr :: lunr where
  "word_lunr =
     \<lparr>ln_tokenizer = \<lambda>t. filter (\<lambda>w. w \<noteq> []) (js_split_on 32 [] t), ln_build = \<lambda>fs ps q. [\<lparr>lr_ref = 0, lr_terms = []\<rparr>]\<rparr>"

lemma split_chars: "w \<in> set (js_split_on c acc t) \<Longrightarrow> c \<notin> set acc \<Longrightarrow> set w \<subseteq> set acc \<union> set t - {c}"
  by (induction t arbitrary: acc) (force split: if_splits)+

theorem lunr_search_clauses_witness:
  "js_split_on 32 [] (search_query word_lunr (clean_term (js ''go+job''))) =
     map js [''go^100'', ''go*^10'', ''*go^10'', ''go~0^1'', ''job^100'', ''job*^10'', ''*job^10'', ''job~0^1'']"
proof -
  have "set w \<inter> set (32 # special_chars) = {}" if "set t \<inter> set special_chars = {}" "w \<in> set (ln_tokenizer word_lunr t)" for w t
    using that split_chars [of w 32 "[]" t] by (auto simp: word_lunr_def)
  then have tok: "set t \<inter> set special_chars = {} \<Longrightarrow> \<forall>w \<in> set (ln_tokenizer word_lunr t). set w \<inter> set (32 # special_chars) = {}" for t
    by blast
  have w: "ln_tokenizer word_lunr (clean_term (js ''go+job'')) = [js ''go'', js ''job'']"
    by code_simp
  have ref: "lr_ref r < length [JObj []]"
    if "r \<in> set (ln_build word_lunr (site_config []) (map2 number_page [JObj []] [0..<length [JObj []]]) (search_query word_lunr (clean_term (js ''go+job''))))" for r
    using that by (simp add: word_lunr_def)
  have "nat_toString (allowed_typos (js ''go'')) = js ''0''" "nat_toString (allowed_typos (js ''job'')) = js ''0''"
    by code_simp+
  with lunr_search_clauses [where l = word_lunr and t = "js ''go+job''" and pages = "[JObj []]" and langs = "[]", OF tok _ ref] w show ?thesis
    by (simp add: js_def)
qed

end
