(* ===== verification/Spec2Isabelle.thy ===== *)
theory Spec2Isabelle
  imports Wordcut_Core Wordcut_Path Orama_Site Orama_Update Orama_Session Lunr_Segmenter Lunr_Adapter
begin

text \<open>
  Verification of the search of the documentation site, the JavaScript under
  \<^verbatim>\<open>src/docs/themes/hugo-theme-relearn/assets/js\<close>.

  \<^bold>\<open>The program.\<close> The site searches its pages in the browser. \<^verbatim>\<open>search-orama.js\<close> is a search
  engine with an adapter: \<^verbatim>\<open>init\<close> creates a database and inserts the pages, \<^verbatim>\<open>search\<close> looks a
  text up. A document gets a number, goes to the document store, and every field goes to an index by
  its type: prefix levels or a radix tree for text, an AVL tree for numbers, maps for enums and
  booleans, a k-d tree for places, vectors for embeddings; a sorter keeps the order of sortable fields.
  A search filters, scores, ranks, pages, counts facets and groups. \<^verbatim>\<open>orama/orama.js\<close> is a larger build
  of the engine that also removes, updates, saves, loads and holds answer sessions.
  \<^verbatim>\<open>search-lunr.js\<close> is the adapter of an alternative engine, which uses two segmenters for languages
  without spaces: \<^verbatim>\<open>lunr/wordcut.js\<close> for Thai, which bundles a path module, and
  \<^verbatim>\<open>lunr/tinyseg.js\<close> for Japanese.

  \<^bold>\<open>Theories.\<close>
  \<^item> \<open>Prelude\<close>: strings as lists of UTF-16 units, sets and maps in insertion order, the stable sort, the
    locale \<open>js_comparator\<close> for comparison functions and \<open>doc_index\<close> for an index from keys to documents,
    which the AVL tree, the radix tree, the k-d tree and the two maps interpret.
  \<^item> \<open>Wordcut_Dict\<close>, \<open>Wordcut_Acceptors\<close>, \<open>Wordcut_Core\<close>: the dictionary with its binary search, the acceptors
    behind the locale \<open>acceptor_contract\<close>, and the segmenter (\<^verbatim>\<open>dict.js\<close>, \<^verbatim>\<open>acceptors.js\<close>,
    \<^verbatim>\<open>path_info_builder.js\<close>, \<^verbatim>\<open>path_selector.js\<close>, \<^verbatim>\<open>wordcut_core.js\<close> of the bundle). The dictionary
    acceptor accepts exactly the words, the chosen path is minimal, and cutting returns and loses nothing.
  \<^item> \<open>Wordcut_Path\<close>: the bundled path module. Normalising is idempotent; a relative path leads to its target.
  \<^item> \<open>Orama_Util\<close>: chunks, intersection, property paths, units, ids and schema validation, which accepts exactly
    the documents that fit the schema.
  \<^item> \<open>Orama_Store\<close>: numbers of documents, with the locale \<open>id_numbering\<close>, and the document store.
  \<^item> \<open>Orama_AVL\<close>, \<open>Orama_Flat\<close>, \<open>Orama_Radix\<close>, \<open>Orama_BKD\<close>, \<open>Orama_Vector\<close>, \<open>Orama_Levenshtein\<close>: the
    indexes and the bounded edit distance. Each has an invariant that its operations keep, a function
    to the documents of a key, and the theorem that queries return exactly those documents; removals
    that lose other entries are proved to do so.
  \<^item> \<open>Orama_Tokenizer\<close>: stemmer, normalisation and its cache, which never changes a result.
  \<^item> \<open>Orama_Index\<close>, \<open>Orama_Index_Inv\<close>, \<open>Orama_Filters\<close>, \<open>Orama_Search\<close>, \<open>Orama_Persist\<close>: the index of a
    database over these: insertion refines adding a document under the keys of its value, removal
    restores, filters and full-text search return exactly the documents described, and the JSON form
    round-trips.
  \<^item> \<open>Orama_PT15\<close>: the prefix index the site uses; a search reports exactly the documents with a word that
    starts with a search word, with the sum of levels and boosts.
  \<^item> \<open>Orama_Sorter\<close>: the deferred sort; results are ordered by the stored values.
  \<^item> \<open>Orama_DB\<close>: plugins, hooks, creation and insertion (\<^verbatim>\<open>yt\<close>, \<^verbatim>\<open>vt\<close>, \<^verbatim>\<open>It\<close>, \<^verbatim>\<open>Ot\<close>). The store stays
    consistent on every error path, async and synchronous variants agree, batches end.
  \<^item> \<open>Orama_Results\<close>, \<open>Orama_Engine\<close>: pages, distinct values, facets, groups, and the three kinds of search.
  \<^item> \<open>Orama_Site\<close>: the adapter as a whole: after set-up with any pages, every search returns the best 99 of
    exactly the matching pages.
  \<^item> \<open>Orama_Update\<close>: removal with its timers, updates, save and load. \<open>Orama_Session\<close>: answer sessions.
  \<^item> \<open>Lunr_Segmenter\<close>, \<open>Lunr_Adapter\<close>: the Japanese segmenter and the adapter of the alternative engine.

  \<^bold>\<open>Conventions.\<close> A class or object is a record, a \<^verbatim>\<open>Map\<close> or dictionary an association list, an exception a
  value of \<open>jserror + 'a\<close>; an operation that may fail after a change returns the changed state beside
  the error. Numbers of documents and counts are natural numbers, scores rational or real numbers, with
  None for a value that is not finite. Loops are structural or have a termination proof. The loop over
  ranges of the Thai segmenter and the async batches are partial functions into \<open>option\<close>, so that not
  returning is None; both are proved to return, the batches for every size but 0. The only bound is
  that of the code: Vincenty's formula stops after 1000 rounds and gives no distance then.

  \<^bold>\<open>Parameters.\<close> Separator tables of languages other than English, the locale comparison of strings, the
  prefix of generated ids, word lists, the working directory, the engine lunr with its tokenizer, the
  chat service and random digits.

  \<^bold>\<open>Not modelled.\<close> Elapsed times, sleeping and logging to the console have no effect on results. Hooks that
  change the database themselves are code of others. Rounding of floating-point numbers is left out.
  The remaining modules that \<^verbatim>\<open>wordcut.js\<close> bundles serve reading files under Node. The rest of
  \<^verbatim>\<open>orama.js\<close> repeats \<^verbatim>\<open>search-orama.js\<close>. \<^verbatim>\<open>theme.js\<close>, \<^verbatim>\<open>search.js\<close> and
  \<^verbatim>\<open>auto-complete.js\<close> are event handlers over the document tree. Minified libraries are not source
  code. The Go packages of the job queue are concurrent code over a message broker and are not part of
  the site.
\<close>

end
